(* ===== verification/Prelude.thy ===== *)
theory Prelude
  imports Main "HOL-Library.Word" "HOL-Library.Monad_Syntax"
begin

unbundle bit_operations_syntax

text \<open>
  Shared vocabulary of the development: the machine integer types of the ESP32 code, checked
  access to C arrays, slices of ring buffers, and the lemma collections the component theories
  extend.

  An access outside a C array is undefined behaviour. The model makes it a value: an operation
  that indexes an array returns an \<open>option\<close>, and \<open>None\<close> means that the access left the
  array. That no reachable call returns \<open>None\<close> is then a theorem of the component.
\<close>

section \<open>Machine integers and addresses\<close>

type_synonym u8 = "8 word"
type_synonym u16 = "16 word"
type_synonym u32 = "32 word"
type_synonym u64 = "64 word"
type_synonym esp_bd_addr_t = "u8 list"

abbreviation (input) b2u :: "bool \<Rightarrow> u8" where
  "b2u b \<equiv> (if b then 1 else 0)"

section \<open>Lemma collections\<close>

named_theorems model_defs \<open>definitions of the model's straight-line operations\<close>
named_theorems inv_intros \<open>preservation lemmas of the components' invariants\<close>

section \<open>Checked array access\<close>

definition arr_get :: "'a list \<Rightarrow> nat \<Rightarrow> 'a option" where
  "arr_get xs i = (if i < length xs then Some (xs ! i) else None)"

definition arr_set :: "'a list \<Rightarrow> nat \<Rightarrow> 'a \<Rightarrow> 'a list option" where
  "arr_set xs i v = (if i < length xs then Some (xs[i := v]) else None)"

lemma arr_get_in [simp]: "i < length xs \<Longrightarrow> arr_get xs i = Some (xs ! i)"
  by (simp add: arr_get_def)

lemma arr_get_out [simp]: "length xs \<le> i \<Longrightarrow> arr_get xs i = None"
  by (simp add: arr_get_def)

lemma arr_set_in [simp]: "i < length xs \<Longrightarrow> arr_set xs i v = Some (xs[i := v])"
  by (simp add: arr_set_def)

lemma arr_set_out [simp]: "length xs \<le> i \<Longrightarrow> arr_set xs i v = None"
  by (simp add: arr_set_def)

lemma arr_get_SomeD: "arr_get xs i = Some v \<Longrightarrow> i < length xs \<and> xs ! i = v"
  by (simp add: arr_get_def split: if_splits)

lemma arr_set_SomeD: "arr_set xs i v = Some ys \<Longrightarrow> i < length xs \<and> ys = xs[i := v]"
  by (simp add: arr_set_def split: if_splits)

section \<open>Ring slices\<close>

text \<open>
  \<open>ring_slice buf h n\<close> is the list of the \<open>n\<close> elements of the array \<open>buf\<close> that start
  at index \<open>h\<close> and wrap around at its end. Both ring buffers of the program (the sample queue
  and the list of scanned addresses) are read through it.
\<close>

definition ring_slice :: "'a list \<Rightarrow> nat \<Rightarrow> nat \<Rightarrow> 'a list" where
  "ring_slice buf h n = map (\<lambda>i. buf ! ((h + i) mod length buf)) [0..<n]"

lemma length_ring_slice [simp]: "length (ring_slice buf h n) = n"
  by (simp add: ring_slice_def)

lemma ring_slice_0 [simp]: "ring_slice buf h 0 = []"
  by (simp add: ring_slice_def)

lemma nth_ring_slice: "i < n \<Longrightarrow> ring_slice buf h n ! i = buf ! ((h + i) mod length buf)"
  by (simp add: ring_slice_def)

lemma ring_slice_Suc_head:
  "ring_slice buf h (Suc n) = buf ! (h mod length buf) # ring_slice buf (Suc h mod length buf) n"
  by (rule nth_equalityI)
     (auto simp: nth_ring_slice nth_Cons mod_simps split: nat.splits)

lemma ring_index_inj:
  assumes "i < k" "j < k" "(h + i) mod k = (h + j) mod (k::nat)"
  shows "i = j"
  using assms
proof (induction i j rule: linorder_wlog)
  case (le i j)
  then have "k dvd (h + j) - (h + i)"
    by (metis add_le_mono le_refl mod_eq_dvd_iff_nat)
  then have "k dvd j - i" by simp
  moreover have "j - i < k" using le by simp
  ultimately show ?case using le by (auto dest: nat_dvd_not_less)
next
  case (sym i j)
  then show ?case by simp
qed

lemma ring_slice_snoc:
  assumes "n < length buf"
  shows "ring_slice (buf[(h + n) mod length buf := x]) h (Suc n) = ring_slice buf h n @ [x]"
proof (rule nth_equalityI)
  show "length (ring_slice (buf[(h + n) mod length buf := x]) h (Suc n)) =
      length (ring_slice buf h n @ [x])" by simp
next
  fix i assume "i < length (ring_slice (buf[(h + n) mod length buf := x]) h (Suc n))"
  then have i: "i < Suc n" by simp
  have pos: "0 < length buf" using assms by linarith
  show "ring_slice (buf[(h + n) mod length buf := x]) h (Suc n) ! i =
      (ring_slice buf h n @ [x]) ! i"
  proof (cases "i = n")
    case True
    then show ?thesis using pos by (simp add: nth_ring_slice nth_append)
  next
    case False
    with i have "i < n" by simp
    moreover have "(h + n) mod length buf \<noteq> (h + i) mod length buf"
      using ring_index_inj [of n "length buf" i h] assms \<open>i < n\<close> by auto
    ultimately show ?thesis by (simp add: nth_ring_slice nth_append)
  qed
qed

text \<open>Overwriting the oldest element of a full ring drops it and appends the new one.\<close>

lemma ring_slice_overwrite:
  assumes "h < length buf"
  shows "ring_slice (buf[h := x]) (Suc h mod length buf) (length buf) =
    tl (ring_slice buf h (length buf)) @ [x]"
proof -
  obtain m where m: "length buf = Suc m" using assms by (cases "length buf") auto
  have "(Suc h mod length buf + m) mod length buf = h"
    using assms m by (metis add_Suc add_Suc_shift less_Suc_eq_le mod_add_left_eq mod_add_self2 mod_less)
  then have "ring_slice (buf[h := x]) (Suc h mod length buf) (Suc m) =
      ring_slice buf (Suc h mod length buf) m @ [x]"
    using ring_slice_snoc [of m buf "Suc h mod length buf" x] m by simp
  moreover have "tl (ring_slice buf h (Suc m)) = ring_slice buf (Suc h mod length buf) m"
    by (simp add: ring_slice_Suc_head)
  ultimately show ?thesis by (simp add: m)
qed

lemma set_ring_slice_full:
  assumes "h < length buf"
  shows "set (ring_slice buf h (length buf)) = set buf"
proof -
  have "set (ring_slice buf h (length buf)) = (\<lambda>i. buf ! ((h + i) mod length buf)) ` {0..<length buf}"
    by (simp add: ring_slice_def)
  also have "\<dots> = (!) buf ` {0..<length buf}"
  proof
    show "(\<lambda>i. buf ! ((h + i) mod length buf)) ` {0..<length buf} \<subseteq> (!) buf ` {0..<length buf}"
      by (auto intro!: imageI mod_less_divisor)
    show "(!) buf ` {0..<length buf} \<subseteq> (\<lambda>i. buf ! ((h + i) mod length buf)) ` {0..<length buf}"
    proof
      fix y assume "y \<in> (!) buf ` {0..<length buf}"
      then obtain j where j: "j < length buf" "y = buf ! j" by auto
      define i where "i = (j + (length buf - h)) mod length buf"
      have "(h + i) mod length buf = (h + (length buf - h) + j) mod length buf"
        by (simp add: i_def mod_simps ac_simps)
      then have "(h + i) mod length buf = j" using assms j by simp
      moreover have "i < length buf" using assms unfolding i_def by (intro mod_less_divisor) linarith
      ultimately show "y \<in> (\<lambda>i. buf ! ((h + i) mod length buf)) ` {0..<length buf}"
        using j by (metis atLeast0LessThan imageI lessThan_iff)
    qed
  qed
  also have "\<dots> = set buf" by (metis map_nth set_map set_upt)
  finally show ?thesis .
qed

section \<open>The newest elements of a list\<close>

definition last_n :: "nat \<Rightarrow> 'a list \<Rightarrow> 'a list" where
  "last_n n xs = drop (length xs - n) xs"

lemma length_last_n [simp]: "length (last_n n xs) = min n (length xs)"
  by (simp add: last_n_def min_def)

lemma last_n_all [simp]: "length xs \<le> n \<Longrightarrow> last_n n xs = xs"
  by (simp add: last_n_def)

lemma last_n_snoc_full:
  assumes "0 < n" "length ys = n"
  shows "last_n n (tl ys @ x # zs) = last_n n (ys @ x # zs)"
  using assms by (cases ys) (auto simp: last_n_def Suc_diff_le)

lemma last_n_append_last_n: "last_n n (last_n n xs @ ys) = last_n n (xs @ ys)"
proof (cases "length xs \<le> n")
  case False
  then have "length (drop (length xs - n) xs @ ys) - n = length ys" by simp
  then have "last_n n (last_n n xs @ ys) = drop (length ys) (drop (length xs - n) xs @ ys)"
    by (simp add: last_n_def)
  also have "\<dots> = drop (length ys + (length xs - n)) (xs @ ys)"
    using False by (simp only: drop_append drop_drop) simp
  also have "length ys + (length xs - n) = length (xs @ ys) - n" using False by simp
  finally show ?thesis by (simp only: last_n_def)
qed simp

section \<open>The lowest bit\<close>

lemma or_one_and_one: "(x OR 1) AND 1 = (1 :: 'a::len word)"
  by (rule bit_word_eqI) (auto simp: bit_simps)

lemma and_not_one_and_one: "(x AND NOT 1) AND 1 = (0 :: 'a::len word)"
  by (rule bit_word_eqI) (auto simp: bit_simps)

lemma and_minus2_and_one [simp]: "(x AND - 2) AND 1 = (0 :: u32)"
  using and_not_one_and_one [of x] by simp

section \<open>Signed reading of a difference\<close>

lemma sint_diff_small:
  fixes a b :: u32
  assumes "unat a < 2 ^ 31" "unat b < 2 ^ 31"
  shows "sint (a - b) = int (unat a) - int (unat b)"
proof -
  have "int (unat a) < int (2 ^ 31)" "int (unat b) < int (2 ^ 31)"
    using assms by (simp_all only: of_nat_less_iff)
  then have ab: "uint a < 2 ^ 31" "uint b < 2 ^ 31" by simp_all
  have st: "signed_take_bit 31 k = k" if "0 \<le> k" "k < 2 ^ 31" for k :: int
    using that by (intro signed_take_bit_int_eq_self) linarith+
  have "sint a = uint a" "sint b = uint b"
    using ab st [of "uint a"] st [of "uint b"] by (simp_all add: sint_uint)
  moreover have "sint (a - b) = signed_take_bit 31 (sint a - sint b)"
    by (simp add: sint_word_ariths)
  moreover have "signed_take_bit 31 (uint a - uint b) = uint a - uint b"
    using ab uint_ge_0 [of a] uint_ge_0 [of b] by (intro signed_take_bit_int_eq_self) linarith+
  ultimately show ?thesis by simp
qed

end
