(* ===== verification/Smartconfig.thy ===== *)
theory Smartconfig
  imports Prelude
begin

text \<open>
  The Wi-Fi provisioning of \<^verbatim>\<open>main/smartconfig.c\<close>: the event group of two bits, the handler of
  the Wi-Fi system events, the smartconfig callback and the smartconfig task. Calls into the
  ESP-IDF are recorded in \<open>wifi_log\<close>; the answers of those that \<^verbatim>\<open>ESP_ERROR_CHECK\<close> guards
  are a parameter, and a failed one aborts the program (\<open>Inl\<close> with the call).
\<close>

unbundle bit_operations_syntax

section \<open>State and calls\<close>

definition CONNECTED_BIT :: u32 where "CONNECTED_BIT = 1"
definition ESPTOUCH_DONE_BIT :: u32 where "ESPTOUCH_DONE_BIT = 2"
definition SMARTCONFIG_TIMEOUT_S :: nat where "SMARTCONFIG_TIMEOUT_S = 30"

record sta_config =
  ssid :: "u8 list"
  password :: "u8 list"

datatype wifi_call =
    Tcpip_Adapter_Init | Event_Loop_Init | Wifi_Init | Wifi_Set_Storage_Flash | Wifi_Set_Mode_Sta
  | Wifi_Get_Config | Wifi_Start | Wifi_Connect | Wifi_Disconnect | Wifi_Set_Config sta_config
  | Task_Create_Smartconfig | Smartconfig_Set_Type | Smartconfig_Start | Smartconfig_Stop

record wifi_state =
  s_wifi_event_group :: u32
  wifi_log :: "wifi_call list"

definition wifi_reset :: wifi_state where
  "wifi_reset = \<lparr>s_wifi_event_group = 0, wifi_log = []\<rparr>"

definition wifi_do :: "wifi_call \<Rightarrow> wifi_state \<Rightarrow> wifi_state" where
  "wifi_do c s = s\<lparr>wifi_log := wifi_log s @ [c]\<rparr>"

definition xEventGroupSetBits :: "u32 \<Rightarrow> wifi_state \<Rightarrow> wifi_state" where
  "xEventGroupSetBits b s = s\<lparr>s_wifi_event_group := s_wifi_event_group s OR b\<rparr>"

definition xEventGroupClearBits :: "u32 \<Rightarrow> wifi_state \<Rightarrow> wifi_state" where
  "xEventGroupClearBits b s = s\<lparr>s_wifi_event_group := s_wifi_event_group s AND NOT b\<rparr>"

text \<open>\<^verbatim>\<open>ESP_ERROR_CHECK\<close> on a sequence of calls: the first failure aborts.\<close>

fun checked :: "(wifi_call \<Rightarrow> bool) \<Rightarrow> wifi_call list \<Rightarrow> wifi_state \<Rightarrow> wifi_call + wifi_state" where
  "checked ok [] s = Inr s"
| "checked ok (c # cs) s = (if ok c then checked ok cs (wifi_do c s) else Inl c)"

section \<open>Handlers\<close>

datatype system_event = STA_START | STA_GOT_IP | STA_DISCONNECTED | Other_Event

fun event_handler :: "system_event \<Rightarrow> wifi_state \<Rightarrow> wifi_state" where
  "event_handler STA_START s = wifi_do Task_Create_Smartconfig s"
| "event_handler STA_GOT_IP s = xEventGroupSetBits CONNECTED_BIT s"
| "event_handler STA_DISCONNECTED s = xEventGroupClearBits CONNECTED_BIT (wifi_do Wifi_Connect s)"
| "event_handler Other_Event s = s"

definition initialise_wifi :: "(wifi_call \<Rightarrow> bool) \<Rightarrow> wifi_state \<Rightarrow> wifi_call + wifi_state" where
  "initialise_wifi ok s =
     (let s = wifi_do Tcpip_Adapter_Init s;
          s = s\<lparr>s_wifi_event_group := 0\<rparr>
      in checked ok [Event_Loop_Init, Wifi_Init, Wifi_Set_Storage_Flash, Wifi_Set_Mode_Sta,
           Wifi_Get_Config, Wifi_Start] s)"

datatype smartconfig_status = SC_STATUS_WAIT | SC_STATUS_FIND_CHANNEL | SC_STATUS_GETTING_SSID_PSWD
  | SC_STATUS_LINK sta_config | SC_STATUS_LINK_OVER "u8 list option" | SC_Other

fun sc_callback :: "(wifi_call \<Rightarrow> bool) \<Rightarrow> smartconfig_status \<Rightarrow> wifi_state \<Rightarrow> wifi_call + wifi_state" where
  "sc_callback ok (SC_STATUS_LINK cfg) s = checked ok [Wifi_Disconnect, Wifi_Set_Config cfg, Wifi_Connect] s"
| "sc_callback ok (SC_STATUS_LINK_OVER pdata) s = Inr (xEventGroupSetBits ESPTOUCH_DONE_BIT s)"
| "sc_callback ok _ s = Inr s"

section \<open>The smartconfig task\<close>

text \<open>One wake-up of the task with the bits \<^verbatim>\<open>xEventGroupWaitBits\<close> returned. \<^verbatim>\<open>vTaskDelete(NULL)\<close>
  does not return: the first component says that the task deleted itself.\<close>

definition smartconfig_wakeup :: "u32 \<Rightarrow> wifi_state \<Rightarrow> bool \<times> wifi_state" where
  "smartconfig_wakeup uxBits s =
     (if uxBits AND CONNECTED_BIT \<noteq> 0 then (True, s)
      else if uxBits AND ESPTOUCH_DONE_BIT \<noteq> 0 then (True, wifi_do Smartconfig_Stop s)
      else if uxBits = 0
        then (True, xEventGroupClearBits CONNECTED_BIT (wifi_do Wifi_Connect (wifi_do Smartconfig_Stop s)))
      else (False, s))"

text \<open>The task from its start, with the bits of its wake-ups; \<open>True\<close> when it has deleted itself.\<close>

fun smartconfig_loop :: "u32 list \<Rightarrow> wifi_state \<Rightarrow> bool \<times> wifi_state" where
  "smartconfig_loop [] s = (False, s)"
| "smartconfig_loop (b # bs) s =
     (let (deleted, s') = smartconfig_wakeup b s in if deleted then (True, s') else smartconfig_loop bs s')"

definition smartconfig_example_task ::
  "(wifi_call \<Rightarrow> bool) \<Rightarrow> u32 list \<Rightarrow> wifi_state \<Rightarrow> wifi_call + bool \<times> wifi_state" where
  "smartconfig_example_task ok bs s =
     (case checked ok [Smartconfig_Set_Type, Smartconfig_Start] s of
        Inl c \<Rightarrow> Inl c
      | Inr s' \<Rightarrow> Inr (smartconfig_loop bs s'))"

lemmas wifi_defs = wifi_do_def xEventGroupSetBits_def xEventGroupClearBits_def
  CONNECTED_BIT_def ESPTOUCH_DONE_BIT_def

section \<open>The two bits\<close>

definition wifi_inv :: "wifi_state \<Rightarrow> bool" where
  "wifi_inv s \<longleftrightarrow> s_wifi_event_group s \<in> {0, 1, 2, 3}"

definition connected :: "wifi_state \<Rightarrow> bool" where
  "connected s \<longleftrightarrow> s_wifi_event_group s AND CONNECTED_BIT \<noteq> 0"

lemma event_handler_inv [inv_intros]: "wifi_inv s \<Longrightarrow> wifi_inv (event_handler e s)"
  by (cases e) (auto simp: wifi_inv_def wifi_defs)

lemma checked_bits: "checked ok cs s = Inr s' \<Longrightarrow> s_wifi_event_group s' = s_wifi_event_group s"
  by (induction cs arbitrary: s) (auto simp: wifi_do_def split: if_splits)

lemma sc_callback_inv [inv_intros]: "wifi_inv s \<Longrightarrow> sc_callback ok st s = Inr s' \<Longrightarrow> wifi_inv s'"
  by (cases st) (auto simp: wifi_inv_def wifi_defs split: if_splits)

lemma wakeup_inv [inv_intros]: "wifi_inv s \<Longrightarrow> wifi_inv (snd (smartconfig_wakeup b s))"
  by (auto simp: smartconfig_wakeup_def wifi_inv_def wifi_defs)

lemma connected_event:
  "connected (event_handler e s) \<longleftrightarrow> (e = STA_GOT_IP \<or> (e \<noteq> STA_DISCONNECTED \<and> connected s))"
  by (cases e) (simp_all add: connected_def wifi_defs or_one_and_one)

text \<open>The bits a wake-up can see: the task deletes itself, whatever they are.\<close>

lemma wakeup_deletes: "b \<in> {0, 1, 2, 3} \<Longrightarrow> fst (smartconfig_wakeup b s)"
  by (auto simp: smartconfig_wakeup_def wifi_defs)

lemma wakeup_stops:
  assumes "b \<in> {0, 1, 2, 3}"
  shows "wifi_log (snd (smartconfig_wakeup b s)) = wifi_log s @
    (if b AND CONNECTED_BIT \<noteq> 0 then [] else if b AND ESPTOUCH_DONE_BIT \<noteq> 0 then [Smartconfig_Stop]
     else [Smartconfig_Stop, Wifi_Connect])"
  using assms by (auto simp: smartconfig_wakeup_def wifi_defs)

section \<open>Properties\<close>

text \<open>The smartconfig task deletes itself at its first wake-up, whatever bits it sees. It stops
  smartconfig first, unless the connected bit is set: then smartconfig stays active.\<close>

theorem smartconfig_task_ends:
  assumes "ok Smartconfig_Set_Type" "ok Smartconfig_Start" "b \<in> {0, 1, 2, 3}"
  shows "\<exists>s'. smartconfig_example_task ok (b # bs) s = Inr (True, s') \<and>
    wifi_log s' = wifi_log s @ [Smartconfig_Set_Type, Smartconfig_Start] @
      (if b AND CONNECTED_BIT \<noteq> 0 then [] else if b AND ESPTOUCH_DONE_BIT \<noteq> 0 then [Smartconfig_Stop]
       else [Smartconfig_Stop, Wifi_Connect])"
proof -
  let ?s = "wifi_do Smartconfig_Start (wifi_do Smartconfig_Set_Type s)"
  obtain s' where s': "smartconfig_wakeup b ?s = (True, s')"
    using wakeup_deletes [OF assms(3), of ?s] by (cases "smartconfig_wakeup b ?s") auto
  have "smartconfig_example_task ok (b # bs) s = Inr (True, snd (smartconfig_wakeup b ?s))"
    using s' assms(1,2) by (simp add: smartconfig_example_task_def)
  then show ?thesis using wakeup_stops [OF assms(3), of ?s] by (simp add: wifi_do_def)
qed

theorem smartconfig_task_ends_witness:
  "\<exists>s'. smartconfig_example_task (\<lambda>_. True) [1] wifi_reset = Inr (True, s') \<and>
     wifi_log s' = [Smartconfig_Set_Type, Smartconfig_Start]"
  using smartconfig_task_ends [of "\<lambda>_. True" 1 "[]" wifi_reset]
  by (auto simp: wifi_reset_def CONNECTED_BIT_def)

end
