(* ===== verification/Wifi_Interleaving.thy ===== *)
theory Wifi_Interleaving
  imports Smartconfig
begin

text \<open>
  The interleavings of the Wi-Fi provisioning: the system events, the smartconfig callback and the
  smartconfig task, as a step relation and as a function of the next action; what they keep of the two
  bits, and that the task ends.
\<close>

unbundle bit_operations_syntax

section \<open>The time-out in two steps\<close>

text \<open>The time-out of the task is two calls: \<^verbatim>\<open>esp_wifi_connect\<close> and, after it, the clearing of the
  connected bit. The handler of the system events runs in another task and may come between them.\<close>

definition timeout_connect :: "wifi_state \<Rightarrow> wifi_state" where
  "timeout_connect s = wifi_do Wifi_Connect (wifi_do Smartconfig_Stop s)"

definition timeout_clear :: "wifi_state \<Rightarrow> wifi_state" where
  "timeout_clear s = xEventGroupClearBits CONNECTED_BIT s"

lemma wakeup_timeout: "smartconfig_wakeup 0 s = (True, timeout_clear (timeout_connect s))"
  by (simp add: smartconfig_wakeup_def timeout_clear_def timeout_connect_def)

lemma timeout_loses_connection: "\<not> connected (timeout_clear (event_handler STA_GOT_IP (timeout_connect s)))"
  by (simp add: timeout_clear_def connected_def wifi_defs)

section \<open>The Wi-Fi system\<close>

text \<open>
  The handlers and the task as a step relation: the system events and the smartconfig callback come
  at any time, the task starts smartconfig, waits, wakes up, and takes its time-out in two steps.
  \<^verbatim>\<open>xEventGroupWaitBits\<close> returns at once when one of the two bits is set. Otherwise the task is blocked, and
  the handler that sets a bit wakes it with the bits of that moment, which it gets to see also when they
  are cleared before it runs. \<open>link\<close> is a ghost: as far as the delivered events tell, the station holds an address (the event that it got
  one has been handled, and none that it was disconnected since). A start event while the task lives is left out.
\<close>

datatype sc_pc = Sc_Absent | Sc_Starting | Sc_Waiting | Sc_Woken u32 | Sc_Clearing

definition wait_bits :: "u32 \<Rightarrow> bool" where
  "wait_bits b \<longleftrightarrow> b AND (CONNECTED_BIT OR ESPTOUCH_DONE_BIT) \<noteq> 0"

definition sc_wait :: "u32 \<Rightarrow> sc_pc" where
  "sc_wait b = (if wait_bits b then Sc_Woken b else Sc_Waiting)"

definition sc_wake :: "u32 \<Rightarrow> sc_pc \<Rightarrow> sc_pc" where
  "sc_wake b pc = (if pc = Sc_Waiting then sc_wait b else pc)"

record sc_sys =
  sc_task :: sc_pc
  sc_wifi :: wifi_state
  link :: bool

text \<open>What a handler that may set bits leaves.\<close>

definition sc_signal :: "wifi_state \<Rightarrow> sc_sys \<Rightarrow> sc_sys" where
  "sc_signal w s = s\<lparr>sc_wifi := w, sc_task := sc_wake (s_wifi_event_group w) (sc_task s)\<rparr>"

lemma sc_signal_frame [simp]: "sc_wifi (sc_signal w s) = w" "link (sc_signal w s) = link s"
  by (simp_all add: sc_signal_def)

definition sc_start :: sc_sys where
  "sc_start = \<lparr>sc_task = Sc_Absent, sc_wifi = wifi_reset, link = False\<rparr>"

inductive sc_step :: "sc_sys \<Rightarrow> sc_sys \<Rightarrow> bool" where
  sta_start: "sc_task s = Sc_Absent \<Longrightarrow>
    sc_step s (s\<lparr>sc_task := Sc_Starting, sc_wifi := event_handler STA_START (sc_wifi s)\<rparr>)"
| sta_got_ip: "sc_step s ((sc_signal (event_handler STA_GOT_IP (sc_wifi s)) s)\<lparr>link := True\<rparr>)"
| sta_disconnected: "sc_step s (s\<lparr>sc_wifi := event_handler STA_DISCONNECTED (sc_wifi s), link := False\<rparr>)"
| sc_begin: "sc_task s = Sc_Starting \<Longrightarrow> checked ok [Smartconfig_Set_Type, Smartconfig_Start] (sc_wifi s) = Inr w \<Longrightarrow>
    sc_step s (s\<lparr>sc_task := sc_wait (s_wifi_event_group w), sc_wifi := w\<rparr>)"
| sc_status: "sc_callback ok st (sc_wifi s) = Inr w \<Longrightarrow> sc_step s (sc_signal w s)"
| sc_wakeup: "sc_task s = Sc_Woken b \<Longrightarrow> smartconfig_wakeup b (sc_wifi s) = (deleted, w) \<Longrightarrow>
    sc_step s (s\<lparr>sc_task := (if deleted then Sc_Absent else sc_wait (s_wifi_event_group w)), sc_wifi := w\<rparr>)"
| sc_timeout: "sc_task s = Sc_Waiting \<Longrightarrow> s_wifi_event_group (sc_wifi s) = 0 \<Longrightarrow>
    sc_step s (s\<lparr>sc_task := Sc_Clearing, sc_wifi := timeout_connect (sc_wifi s)\<rparr>)"
| sc_clear: "sc_task s = Sc_Clearing \<Longrightarrow>
    sc_step s (s\<lparr>sc_task := Sc_Absent, sc_wifi := timeout_clear (sc_wifi s)\<rparr>)"

inductive_cases sc_stepE: "sc_step s s'"

definition done_bit :: "wifi_state \<Rightarrow> bool" where
  "done_bit s \<longleftrightarrow> s_wifi_event_group s AND ESPTOUCH_DONE_BIT \<noteq> 0"

lemma bit_one_apart: "(w OR 1) AND 2 = (w AND 2 :: u32)" "(w AND NOT 1) AND 2 = (w AND 2 :: u32)"
  "(w OR 2) AND 1 = (w AND 1 :: u32)" "(w OR 2) AND 2 = (2 :: u32)"
  by (rule bit_word_eqI; auto simp: bit_simps)+

lemma sc_callback_bits:
  "sc_callback ok st w = Inr w' \<Longrightarrow> s_wifi_event_group w' = s_wifi_event_group w \<or>
     s_wifi_event_group w' = s_wifi_event_group w OR ESPTOUCH_DONE_BIT"
proof (cases st)
  case (SC_STATUS_LINK cfg)
  moreover assume "sc_callback ok st w = Inr w'"
  ultimately have "checked ok [Wifi_Disconnect, Wifi_Set_Config cfg, Wifi_Connect] w = Inr w'" by simp
  from checked_bits [OF this] show ?thesis ..
qed (auto simp: xEventGroupSetBits_def)

lemma wakeup_bits:
  "smartconfig_wakeup b w = (deleted, w') \<Longrightarrow> s_wifi_event_group w' = s_wifi_event_group w \<or>
     s_wifi_event_group w' = s_wifi_event_group w AND NOT CONNECTED_BIT"
  by (auto simp: smartconfig_wakeup_def xEventGroupClearBits_def wifi_do_def split: if_splits)

lemmas bits_simps = connected_def done_bit_def wifi_defs timeout_clear_def timeout_connect_def
  bit_one_apart [simplified] or_one_and_one [simplified] and_not_one_and_one

lemma sc_step_link:
  assumes "sc_step s s'" "connected (sc_wifi s) \<longrightarrow> link s"
  shows "connected (sc_wifi s') \<longrightarrow> link s'"
  using assms
proof (cases rule: sc_step.cases)
  case (sc_status ok st w)
  then show ?thesis using sc_callback_bits [OF sc_status(2)] assms(2) by (auto simp: bits_simps)
next
  case (sc_wakeup b deleted w)
  then show ?thesis using wakeup_bits [OF sc_wakeup(3)] assms(2) by (auto simp: bits_simps)
next
  case (sc_begin ok w)
  then show ?thesis using checked_bits [OF sc_begin(3)] assms(2) by (simp add: bits_simps)
qed (auto simp: connected_event bits_simps)

lemma sc_step_done:
  assumes "sc_step s s'" "done_bit (sc_wifi s)"
  shows "done_bit (sc_wifi s')"
  using assms
proof (cases rule: sc_step.cases)
  case (sc_status ok st w)
  then show ?thesis using sc_callback_bits [OF sc_status(2)] assms(2) by (auto simp: bits_simps)
next
  case (sc_wakeup b deleted w)
  then show ?thesis using wakeup_bits [OF sc_wakeup(3)] assms(2) by (auto simp: bits_simps)
next
  case (sc_begin ok w)
  then show ?thesis using checked_bits [OF sc_begin(3)] assms(2) by (simp add: bits_simps)
qed (auto simp: bits_simps)

lemma done_bit_stays: "sc_step\<^sup>*\<^sup>* s s' \<Longrightarrow> done_bit (sc_wifi s) \<Longrightarrow> done_bit (sc_wifi s')"
  by (induction rule: rtranclp_induct) (auto intro: sc_step_done)

section \<open>The system as a function\<close>

text \<open>The same steps as a function of the action that comes next. A failed \<^verbatim>\<open>ESP_ERROR_CHECK\<close> is \<open>Inl\<close>;
  a move of a task that waits for nothing is its time-out.\<close>

datatype sc_action = Sc_Event system_event | Sc_Status smartconfig_status | Sc_Task_Move

fun sc_task_move :: "(wifi_call \<Rightarrow> bool) \<Rightarrow> sc_sys \<Rightarrow> wifi_call + sc_sys" where
  "sc_task_move ok s =
     (case sc_task s of
        Sc_Absent \<Rightarrow> Inr s
      | Sc_Starting \<Rightarrow> map_sum id (\<lambda>w. s\<lparr>sc_task := sc_wait (s_wifi_event_group w), sc_wifi := w\<rparr>)
          (checked ok [Smartconfig_Set_Type, Smartconfig_Start] (sc_wifi s))
      | Sc_Waiting \<Rightarrow>
          Inr (if s_wifi_event_group (sc_wifi s) = 0
            then s\<lparr>sc_task := Sc_Clearing, sc_wifi := timeout_connect (sc_wifi s)\<rparr> else s)
      | Sc_Woken b \<Rightarrow>
          (let (deleted, w) = smartconfig_wakeup b (sc_wifi s) in
           Inr (s\<lparr>sc_task := (if deleted then Sc_Absent else sc_wait (s_wifi_event_group w)), sc_wifi := w\<rparr>))
      | Sc_Clearing \<Rightarrow> Inr (s\<lparr>sc_task := Sc_Absent, sc_wifi := timeout_clear (sc_wifi s)\<rparr>))"

fun sc_exec :: "(wifi_call \<Rightarrow> bool) \<Rightarrow> sc_action \<Rightarrow> sc_sys \<Rightarrow> wifi_call + sc_sys" where
  "sc_exec ok (Sc_Event STA_START) s = Inr (if sc_task s = Sc_Absent
     then s\<lparr>sc_task := Sc_Starting, sc_wifi := event_handler STA_START (sc_wifi s)\<rparr> else s)"
| "sc_exec ok (Sc_Event STA_GOT_IP) s = Inr ((sc_signal (event_handler STA_GOT_IP (sc_wifi s)) s)\<lparr>link := True\<rparr>)"
| "sc_exec ok (Sc_Event STA_DISCONNECTED) s =
     Inr (s\<lparr>sc_wifi := event_handler STA_DISCONNECTED (sc_wifi s), link := False\<rparr>)"
| "sc_exec ok (Sc_Event Other_Event) s = Inr s"
| "sc_exec ok (Sc_Status st) s = map_sum id (\<lambda>w. sc_signal w s) (sc_callback ok st (sc_wifi s))"
| "sc_exec ok Sc_Task_Move s = sc_task_move ok s"

lemma map_sum_Inr: "map_sum id f x = Inr y \<longleftrightarrow> (\<exists>z. x = Inr z \<and> y = f z)"
  by (cases x) auto

text \<open>The bits stay in their range.\<close>

lemma sc_step_inv [inv_intros]: "sc_step s s' \<Longrightarrow> wifi_inv (sc_wifi s) \<Longrightarrow> wifi_inv (sc_wifi s')"
proof (induction rule: sc_step.induct)
  case (sc_begin s ok w)
  then show ?case using checked_bits [OF sc_begin(2)] by (simp add: wifi_inv_def)
next
  case (sc_wakeup s b deleted w)
  then show ?case using wakeup_inv [OF sc_wakeup(3), of b] by simp
next
  case (sc_timeout s)
  then show ?case by (simp add: wifi_inv_def timeout_connect_def wifi_do_def)
next
  case (sc_clear s)
  then show ?case by (auto simp: wifi_inv_def timeout_clear_def wifi_defs)
qed (simp_all add: event_handler_inv sc_callback_inv del: event_handler.simps)

text \<open>A woken task saw one of the two bits, so it deletes itself.\<close>

definition woken_ok :: "sc_pc \<Rightarrow> bool" where
  "woken_ok pc \<longleftrightarrow> (\<forall>b. pc = Sc_Woken b \<longrightarrow> b \<in> {1, 2, 3})"

lemma sc_wait_ok: "wifi_inv w \<Longrightarrow> woken_ok (sc_wait (s_wifi_event_group w))"
  by (auto simp: woken_ok_def sc_wait_def wait_bits_def wifi_inv_def CONNECTED_BIT_def ESPTOUCH_DONE_BIT_def)

lemma sc_step_woken:
  assumes "sc_step s s'" "wifi_inv (sc_wifi s)" "woken_ok (sc_task s)"
  shows "woken_ok (sc_task s')"
proof -
  have "wifi_inv (sc_wifi s')" by (rule sc_step_inv [OF assms(1,2)])
  from sc_wait_ok [OF this] assms(1,3) show ?thesis
    by (elim sc_step.cases) (auto simp: woken_ok_def sc_signal_def sc_wake_def split: if_splits)
qed

lemma sc_exec_step:
  assumes "sc_exec ok a s = Inr s'"
  shows "s' = s \<or> sc_step s s'"
proof (cases a)
  case (Sc_Event e)
  then show ?thesis
    using assms by (cases e) (auto intro: sta_start sta_got_ip sta_disconnected
        simp del: event_handler.simps split: if_splits)
next
  case (Sc_Status st)
  then show ?thesis using assms by (auto simp: map_sum_Inr intro: sc_status)
next
  case Sc_Task_Move
  then have move: "sc_task_move ok s = Inr s'" using assms by simp
  show ?thesis
  proof (cases "sc_task s")
    case (Sc_Woken b)
    obtain deleted w where "smartconfig_wakeup b (sc_wifi s) = (deleted, w)" by force
    then show ?thesis using move Sc_Woken sc_step.sc_wakeup [OF Sc_Woken] by auto
  qed (use move in \<open>auto simp: map_sum_Inr simp del: checked.simps intro: sc_begin sc_timeout sc_clear split: if_splits\<close>)
qed

lemma sc_step_exec: "sc_step s s' \<Longrightarrow> \<exists>ok a. sc_exec ok a s = Inr s'"
proof (induction rule: sc_step.induct)
  case (sta_start s)
  then show ?case by (intro exI [of _ "Sc_Event STA_START"] exI) simp
next
  case (sta_got_ip s)
  then show ?case by (intro exI [of _ "Sc_Event STA_GOT_IP"] exI) simp
next
  case (sta_disconnected s)
  then show ?case by (intro exI [of _ "Sc_Event STA_DISCONNECTED"] exI) simp
next
  case (sc_status ok st s w)
  then show ?case by (intro exI [of _ ok] exI [of _ "Sc_Status st"]) simp
next
  case (sc_begin s ok w)
  then show ?case by (intro exI [of _ ok] exI [of _ Sc_Task_Move]) (simp del: checked.simps)
qed (intro exI [of _ Sc_Task_Move] exI; simp)+

lemma woken_task_ends:
  assumes "woken_ok (sc_task s)" "sc_task s = Sc_Woken b"
  shows "\<exists>s'. sc_task_move ok s = Inr s' \<and> sc_task s' = Sc_Absent"
proof -
  have "b \<in> {0, 1, 2, 3}" using assms by (auto simp: woken_ok_def)
  from wakeup_deletes [OF this, of "sc_wifi s"] show ?thesis
    using assms(2) by (cases "smartconfig_wakeup b (sc_wifi s)") auto
qed

section \<open>The end of the task\<close>

text \<open>In what is reachable a blocked task sees no bit: a handler that sets one wakes it.\<close>

definition waiting_ok :: "sc_sys \<Rightarrow> bool" where
  "waiting_ok s \<longleftrightarrow> wifi_inv (sc_wifi s) \<and> woken_ok (sc_task s) \<and>
     (sc_task s = Sc_Waiting \<longrightarrow> s_wifi_event_group (sc_wifi s) = 0)"

lemma wait_blocked: "sc_wait b = Sc_Waiting \<Longrightarrow> \<not> wait_bits b" "sc_wake b pc = Sc_Waiting \<Longrightarrow> \<not> wait_bits b"
  by (auto simp: sc_wake_def sc_wait_def split: if_splits)

lemma no_wait_bits: "wifi_inv w \<Longrightarrow> \<not> wait_bits (s_wifi_event_group w) \<Longrightarrow> s_wifi_event_group w = 0"
  by (auto simp: wait_bits_def wifi_inv_def CONNECTED_BIT_def ESPTOUCH_DONE_BIT_def)

lemma sc_step_waiting:
  assumes "sc_step s s'" "waiting_ok s"
  shows "waiting_ok s'"
proof -
  have inv: "wifi_inv (sc_wifi s)" "woken_ok (sc_task s)" "sc_task s = Sc_Waiting \<Longrightarrow> s_wifi_event_group (sc_wifi s) = 0"
    using assms(2) by (simp_all add: waiting_ok_def)
  have inv': "wifi_inv (sc_wifi s')" "woken_ok (sc_task s')"
    using sc_step_inv [OF assms(1) inv(1)] sc_step_woken [OF assms(1) inv(1,2)] by simp_all
  have "s_wifi_event_group (sc_wifi s') = 0" if w: "sc_task s' = Sc_Waiting"
    using assms(1)
  proof (cases rule: sc_step.cases)
    case sta_disconnected
    then show ?thesis using inv(3) w by (simp add: wifi_defs)
  next
    case sta_got_ip
    then show ?thesis using no_wait_bits [OF inv'(1)] wait_blocked(2) w by (simp add: sc_signal_def del: event_handler.simps)
  next
    case (sc_begin ok w')
    then show ?thesis using no_wait_bits [OF inv'(1)] wait_blocked(1) w by simp
  next
    case (sc_status ok st w')
    then show ?thesis using no_wait_bits [OF inv'(1)] wait_blocked(2) w by (simp add: sc_signal_def)
  next
    case (sc_wakeup b deleted w')
    then show ?thesis using no_wait_bits [OF inv'(1)] wait_blocked(1) w by (simp split: if_splits)
  qed (use w in simp_all)
  with inv' show ?thesis by (simp add: waiting_ok_def)
qed

lemma reachable_waiting: "sc_step\<^sup>*\<^sup>* sc_start s \<Longrightarrow> waiting_ok s"
proof (induction rule: rtranclp_induct)
  case base
  show ?case by (simp add: waiting_ok_def sc_start_def wifi_reset_def wifi_inv_def woken_ok_def)
next
  case (step s s')
  show ?case by (rule sc_step_waiting [OF step(2,3)])
qed

text \<open>How many moves the task makes at most; only its own start adds to them.\<close>

fun moves_left :: "sc_pc \<Rightarrow> nat" where
  "moves_left Sc_Absent = 0"
| "moves_left Sc_Starting = 3"
| "moves_left Sc_Waiting = 2"
| "moves_left (Sc_Woken b) = 1"
| "moves_left Sc_Clearing = 1"

lemma moves_left_wait: "moves_left (sc_wait b) \<le> 2" "moves_left (sc_wake b pc) \<le> moves_left pc"
  by (simp_all add: sc_wait_def sc_wake_def)

lemma exec_moves:
  assumes "waiting_ok s" "a \<noteq> Sc_Event STA_START" "sc_exec ok a s = Inr s'"
  shows "waiting_ok s' \<and> moves_left (sc_task s') \<le> moves_left (sc_task s) - (if a = Sc_Task_Move then 1 else 0)"
proof -
  have "waiting_ok s'" using sc_exec_step [OF assms(3)] sc_step_waiting assms(1) by blast
  moreover have "moves_left (sc_task s') \<le> moves_left (sc_task s) - (if a = Sc_Task_Move then 1 else 0)"
  proof (cases a)
    case (Sc_Event e)
    then show ?thesis using assms(2,3) moves_left_wait by (cases e) (auto simp: sc_signal_def simp del: event_handler.simps)
  next
    case (Sc_Status st)
    then show ?thesis using assms(3) moves_left_wait by (auto simp: map_sum_Inr sc_signal_def)
  next
    case Sc_Task_Move
    then have move: "sc_task_move ok s = Inr s'" using assms(3) by simp
    show ?thesis
    proof (cases "sc_task s")
      case (Sc_Woken b)
      then have "sc_task s' = Sc_Absent" using woken_task_ends [of s b ok] assms(1) move by (simp add: waiting_ok_def)
      then show ?thesis by simp
    next
      case Sc_Starting
      then show ?thesis using move moves_left_wait Sc_Task_Move by (auto simp: map_sum_Inr simp del: checked.simps)
    next
      case Sc_Waiting
      then show ?thesis using move assms(1) Sc_Task_Move by (auto simp: waiting_ok_def)
    qed (use move in auto)
  qed
  ultimately show ?thesis ..
qed

text \<open>A run; a failed \<^verbatim>\<open>ESP_ERROR_CHECK\<close> aborts it.\<close>

fun sc_run :: "(wifi_call \<Rightarrow> bool) \<Rightarrow> sc_action list \<Rightarrow> sc_sys \<Rightarrow> wifi_call + sc_sys" where
  "sc_run ok [] s = Inr s"
| "sc_run ok (a # as) s = (case sc_exec ok a s of Inl c \<Rightarrow> Inl c | Inr s' \<Rightarrow> sc_run ok as s')"

lemma checked_fails: "checked ok cs w = Inl c \<Longrightarrow> \<not> ok c"
  by (induction cs arbitrary: w) (auto split: if_splits)

lemma map_sum_Inl: "map_sum id f x = Inl c \<longleftrightarrow> x = Inl c"
  by (cases x) auto

lemma exec_fails: "sc_exec ok a s = Inl c \<Longrightarrow> \<not> ok c"
proof (induction ok a s rule: sc_exec.induct)
  case (5 ok st s)
  then have "sc_callback ok st (sc_wifi s) = Inl c" by (simp add: map_sum_Inl)
  then show ?case using checked_fails by (cases st) (auto simp del: checked.simps)
next
  case (6 ok s)
  then show ?case
    using checked_fails [of ok "[Smartconfig_Set_Type, Smartconfig_Start]" "sc_wifi s" c]
    by (auto simp: map_sum_Inl simp del: checked.simps split: sc_pc.splits prod.splits)
qed auto

text \<open>Only the station's own events set the connected bit or change whether it holds an address.\<close>

lemma exec_stays_lost:
  assumes "sc_exec ok a s = Inr s'" "a \<noteq> Sc_Event STA_GOT_IP" "a \<noteq> Sc_Event STA_DISCONNECTED"
    and "link s" "\<not> connected (sc_wifi s)"
  shows "link s' \<and> \<not> connected (sc_wifi s')"
proof (cases a)
  case (Sc_Event e)
  then show ?thesis using assms by (cases e) (auto simp: connected_event simp del: event_handler.simps split: if_splits)
next
  case (Sc_Status st)
  then obtain w where w: "sc_callback ok st (sc_wifi s) = Inr w" "s' = sc_signal w s" using assms(1) by (auto simp: map_sum_Inr)
  then show ?thesis using sc_callback_bits [OF w(1)] assms(4,5) by (auto simp: bits_simps)
next
  case Sc_Task_Move
  have "s_wifi_event_group w = s_wifi_event_group (sc_wifi s)"
    if "checked ok [Smartconfig_Set_Type, Smartconfig_Start] (sc_wifi s) = Inr w" for w
    using checked_bits [OF that] .
  then show ?thesis
    using assms(1,4,5) Sc_Task_Move
    by (cases "sc_task s") (auto dest!: wakeup_bits simp: map_sum_Inr bits_simps simp del: checked.simps
        split: prod.splits if_splits)
qed

lemma run_stays_lost:
  "Sc_Event STA_GOT_IP \<notin> set as \<Longrightarrow> Sc_Event STA_DISCONNECTED \<notin> set as \<Longrightarrow> sc_run ok as s = Inr s' \<Longrightarrow>
   link s \<Longrightarrow> \<not> connected (sc_wifi s) \<Longrightarrow> link s' \<and> \<not> connected (sc_wifi s')"
proof (induction as arbitrary: s)
  case (Cons a as)
  then obtain s1 where 1: "sc_exec ok a s = Inr s1" "sc_run ok as s1 = Inr s'" by (auto split: sum.splits)
  then have "link s1 \<and> \<not> connected (sc_wifi s1)" using exec_stays_lost [OF 1(1)] Cons.prems by auto
  then show ?case using Cons.IH [OF _ _ 1(2)] Cons.prems(1,2) by simp
qed simp

lemma run_moves:
  "waiting_ok s \<Longrightarrow> Sc_Event STA_START \<notin> set as \<Longrightarrow> moves_left (sc_task s) \<le> length (filter (\<lambda>a. a = Sc_Task_Move) as) \<Longrightarrow>
   case sc_run ok as s of Inl c \<Rightarrow> \<not> ok c | Inr s' \<Rightarrow> sc_task s' = Sc_Absent"
proof (induction as arbitrary: s)
  case Nil
  then show ?case by (cases "sc_task s") simp_all
next
  case (Cons a as)
  show ?case
  proof (cases "sc_exec ok a s")
    case (Inl c)
    then show ?thesis using exec_fails by simp
  next
    case (Inr s1)
    have "a \<noteq> Sc_Event STA_START" using Cons.prems(2) by auto
    from exec_moves [OF Cons.prems(1) this Inr] have "waiting_ok s1" "moves_left (sc_task s1) \<le> length (filter (\<lambda>a. a = Sc_Task_Move) as)"
      using Cons.prems(3) by (auto split: if_splits)
    then show ?thesis using Cons.IH [of s1] Cons.prems(2) Inr by simp
  qed
qed

section \<open>Properties\<close>

text \<open>C16: In every interleaving of the system events, the smartconfig callback and the smartconfig task,
  the connected bit is set only while the station holds an address.\<close>

theorem connected_bit_sound:
  assumes "sc_step\<^sup>*\<^sup>* sc_start s" "connected (sc_wifi s)"
  shows "link s"
proof -
  have "connected (sc_wifi s) \<longrightarrow> link s"
    using assms(1)
  proof (induction rule: rtranclp_induct)
    case base
    show ?case by (simp add: sc_start_def wifi_reset_def connected_def)
  next
    case (step s s')
    show ?case by (rule sc_step_link [OF step(2) step(3)])
  qed
  then show ?thesis using assms(2) by blast
qed

theorem connected_bit_sound_witness:
  "link (sc_start\<lparr>sc_wifi := event_handler STA_GOT_IP wifi_reset, link := True\<rparr>)"
proof (rule connected_bit_sound)
  have "sc_step sc_start ((sc_signal (event_handler STA_GOT_IP (sc_wifi sc_start)) sc_start)\<lparr>link := True\<rparr>)"
    by (rule sta_got_ip)
  then show "sc_step\<^sup>*\<^sup>* sc_start (sc_start\<lparr>sc_wifi := event_handler STA_GOT_IP wifi_reset, link := True\<rparr>)"
    by (simp add: sc_start_def sc_signal_def sc_wake_def)
  show "connected (sc_wifi (sc_start\<lparr>sc_wifi := event_handler STA_GOT_IP wifi_reset, link := True\<rparr>))"
    by (simp add: connected_def wifi_defs wifi_reset_def)
qed

text \<open>C30: The converse fails. Whenever the task stands between the two calls of its time-out and the station then
  gets its address before the second, that call clears the bit the handler has just set: the station is
  connected, the connected bit is clear, and the task is gone. Both bits are clear unless smartconfig had
  reported its end. From there on, whatever else happens, the bit stays clear while the
  station stays connected: nothing sets it before the station's next event.\<close>

theorem timeout_race_loses_connection:
  assumes "sc_step\<^sup>*\<^sup>* sc_start s" "sc_task s = Sc_Clearing"
  shows "\<exists>s'. sc_run ok [Sc_Event STA_GOT_IP, Sc_Task_Move] s = Inr s' \<and> link s' \<and> \<not> connected (sc_wifi s') \<and>
    sc_task s' = Sc_Absent \<and> (\<not> done_bit (sc_wifi s) \<longrightarrow> s_wifi_event_group (sc_wifi s') = 0) \<and>
    (\<forall>as s''. Sc_Event STA_GOT_IP \<notin> set as \<and> Sc_Event STA_DISCONNECTED \<notin> set as \<and> sc_run ok as s' = Inr s'' \<longrightarrow>
      link s'' \<and> \<not> connected (sc_wifi s''))"
proof -
  let ?s1 = "(sc_signal (event_handler STA_GOT_IP (sc_wifi s)) s)\<lparr>link := True\<rparr>"
  let ?s' = "?s1\<lparr>sc_task := Sc_Absent, sc_wifi := timeout_clear (sc_wifi ?s1)\<rparr>"
  have run: "sc_run ok [Sc_Event STA_GOT_IP, Sc_Task_Move] s = Inr ?s'"
    using assms(2) by (simp add: sc_signal_def sc_wake_def)
  have lost: "link ?s'" "\<not> connected (sc_wifi ?s')" by (simp_all add: bits_simps)
  have "wifi_inv (sc_wifi s)" using reachable_waiting [OF assms(1)] by (simp add: waiting_ok_def)
  then have "s_wifi_event_group (sc_wifi ?s') = 0" if "\<not> done_bit (sc_wifi s)"
    using that by (auto simp: wifi_inv_def bits_simps)
  moreover have "link s'' \<and> \<not> connected (sc_wifi s'')"
    if "Sc_Event STA_GOT_IP \<notin> set as" "Sc_Event STA_DISCONNECTED \<notin> set as" "sc_run ok as ?s' = Inr s''" for as s''
    using run_stays_lost [OF that lost] .
  moreover have "sc_task ?s' = Sc_Absent" by simp
  ultimately show ?thesis using run lost by (metis (no_types, lifting))
qed

text \<open>The task waits in vain, and the address comes late.\<close>

definition between_calls :: sc_sys where
  "between_calls = \<lparr>sc_task = Sc_Clearing,
     sc_wifi = timeout_connect (wifi_do Smartconfig_Start (wifi_do Smartconfig_Set_Type (event_handler STA_START wifi_reset))),
     link = False\<rparr>"

lemma between_calls_reached: "sc_step\<^sup>*\<^sup>* sc_start between_calls"
proof -
  let ?s0 = "sc_start\<lparr>sc_task := Sc_Starting, sc_wifi := event_handler STA_START (sc_wifi sc_start)\<rparr>"
  let ?w = "wifi_do Smartconfig_Start (wifi_do Smartconfig_Set_Type (sc_wifi ?s0))"
  let ?s1 = "?s0\<lparr>sc_task := sc_wait (s_wifi_event_group ?w), sc_wifi := ?w\<rparr>"
  let ?s2 = "?s1\<lparr>sc_task := Sc_Clearing, sc_wifi := timeout_connect (sc_wifi ?s1)\<rparr>"
  have "sc_step sc_start ?s0" by (rule sta_start) (simp add: sc_start_def)
  moreover have "sc_step ?s0 ?s1" by (rule sc_begin [where ok = "\<lambda>_. True"]) simp_all
  moreover have "sc_step ?s1 ?s2"
    by (rule sc_timeout) (simp_all add: sc_start_def wifi_reset_def wifi_do_def sc_wait_def wait_bits_def)
  moreover have "?s2 = between_calls" by (simp add: between_calls_def sc_start_def)
  ultimately show ?thesis by (metis rtranclp.rtrancl_into_rtrancl rtranclp.rtrancl_refl)
qed

theorem timeout_race_loses_connection_witness:
  "\<exists>s'. sc_run (\<lambda>_. True) [Sc_Event STA_GOT_IP, Sc_Task_Move] between_calls = Inr s' \<and> link s' \<and>
     s_wifi_event_group (sc_wifi s') = 0 \<and> sc_task s' = Sc_Absent"
proof -
  have "sc_task between_calls = Sc_Clearing" "\<not> done_bit (sc_wifi between_calls)"
    by (simp_all add: between_calls_def bits_simps wifi_reset_def)
  then show ?thesis using timeout_race_loses_connection [OF between_calls_reached, of "\<lambda>_. True"] by blast
qed

text \<open>C31: The smartconfig task ends. From every reachable state, in any order of Wi-Fi events, reports of
  smartconfig and steps of the task that does not start it again, three steps of the task suffice: then
  it has deleted itself, unless a checked call has failed and aborted the program.\<close>

theorem smartconfig_task_ends_in_three:
  assumes "sc_step\<^sup>*\<^sup>* sc_start s" "Sc_Event STA_START \<notin> set as" "3 \<le> length (filter (\<lambda>a. a = Sc_Task_Move) as)"
  shows "case sc_run ok as s of Inl c \<Rightarrow> \<not> ok c | Inr s' \<Rightarrow> sc_task s' = Sc_Absent"
proof -
  have "moves_left (sc_task s) \<le> 3" by (cases "sc_task s") simp_all
  then show ?thesis using run_moves [OF reachable_waiting [OF assms(1)] assms(2)] assms(3) by simp
qed

text \<open>The station gets its address while the task is blocked, and loses it before the task runs.\<close>

theorem smartconfig_task_ends_in_three_witness:
  "\<exists>s'. sc_run (\<lambda>_. True) [Sc_Task_Move, Sc_Event STA_GOT_IP, Sc_Event STA_DISCONNECTED, Sc_Task_Move, Sc_Task_Move]
     (sc_start\<lparr>sc_task := Sc_Starting, sc_wifi := event_handler STA_START (sc_wifi sc_start)\<rparr>) = Inr s' \<and> sc_task s' = Sc_Absent"
proof -
  let ?s = "sc_start\<lparr>sc_task := Sc_Starting, sc_wifi := event_handler STA_START (sc_wifi sc_start)\<rparr>"
  let ?as = "[Sc_Task_Move, Sc_Event STA_GOT_IP, Sc_Event STA_DISCONNECTED, Sc_Task_Move, Sc_Task_Move]"
  have "sc_step\<^sup>*\<^sup>* sc_start ?s" by (intro r_into_rtranclp sta_start) (simp add: sc_start_def)
  moreover have "Sc_Event STA_START \<notin> set ?as" "3 \<le> length (filter (\<lambda>a. a = Sc_Task_Move) ?as)" by simp_all
  ultimately have "case sc_run (\<lambda>_. True) ?as ?s of Inl c \<Rightarrow> \<not> True | Inr s' \<Rightarrow> sc_task s' = Sc_Absent"
    by (rule smartconfig_task_ends_in_three)
  then show ?thesis by (cases "sc_run (\<lambda>_. True) ?as ?s") (simp_all del: sc_run.simps)
qed

end
