(* ===== verification/Fifo_Interface.thy ===== *)
theory Fifo_Interface
  imports Prelude
begin

text \<open>
  The contract of the sample queue, as the tasks that use it see it: a FIFO list of at most
  \<open>cap\<close> elements. The insertion takes a flag: when the queue is full, \<open>keep_new\<close> drops the
  oldest element to make room, and otherwise the new element is ignored. The model of
  \<^verbatim>\<open>data_buffer.c\<close> interprets the locale; its clients use the lemmas proved here.
\<close>

section \<open>The abstract operations\<close>

definition fifo_insert :: "nat \<Rightarrow> 'a \<Rightarrow> bool \<Rightarrow> 'a list \<Rightarrow> 'a list" where
  "fifo_insert cap x keep_new ys =
     (if length ys < cap then ys @ [x] else if keep_new then tl ys @ [x] else ys)"

lemma length_fifo_insert: "length ys \<le> cap \<Longrightarrow> 0 < cap \<Longrightarrow> length (fifo_insert cap x k ys) \<le> cap"
  by (auto simp: fifo_insert_def)

lemma fifo_insert_not_Nil: "0 < cap \<Longrightarrow> fifo_insert cap x True ys \<noteq> []"
  by (simp add: fifo_insert_def)

lemma fifo_insert_newest: "length ys \<le> cap \<Longrightarrow> 0 < cap \<Longrightarrow> fifo_insert cap x True ys = last_n cap (ys @ [x])"
  by (cases ys) (auto simp: fifo_insert_def last_n_def)

section \<open>Operation sequences\<close>

datatype 'a fifo_op = Insert 'a bool | Remove

text \<open>One operation on a concrete queue, with the element a removal hands out, and the same
  operation on the list it stands for. The first argument of \<open>del\<close> is what an unset local
  variable holds: the code returns it when the queue is empty.\<close>

fun fifo_step ::
  "('a \<Rightarrow> bool \<Rightarrow> 'q \<Rightarrow> 'q option) \<Rightarrow> ('a \<Rightarrow> 'q \<Rightarrow> ('a \<times> 'q) option) \<Rightarrow> 'a \<Rightarrow>
   'a fifo_op \<Rightarrow> 'q \<Rightarrow> ('a list \<times> 'q) option" where
  "fifo_step ins del junk (Insert x k) q = map_option (\<lambda>q'. ([], q')) (ins x k q)"
| "fifo_step ins del junk Remove q = map_option (\<lambda>(y, q'). ([y], q')) (del junk q)"

fun fifo_run ::
  "('a \<Rightarrow> bool \<Rightarrow> 'q \<Rightarrow> 'q option) \<Rightarrow> ('a \<Rightarrow> 'q \<Rightarrow> ('a \<times> 'q) option) \<Rightarrow> 'a \<Rightarrow>
   'a fifo_op list \<Rightarrow> 'q \<Rightarrow> ('a list \<times> 'q) option" where
  "fifo_run ins del junk [] q = Some ([], q)"
| "fifo_run ins del junk (c # cs) q =
     (case fifo_step ins del junk c q of
        None \<Rightarrow> None
      | Some (out, q') \<Rightarrow> map_option (\<lambda>(outs, q''). (out @ outs, q'')) (fifo_run ins del junk cs q'))"

fun spec_step :: "nat \<Rightarrow> 'a \<Rightarrow> 'a fifo_op \<Rightarrow> 'a list \<Rightarrow> 'a list \<times> 'a list" where
  "spec_step cap junk (Insert x k) ys = ([], fifo_insert cap x k ys)"
| "spec_step cap junk Remove ys = (case ys of [] \<Rightarrow> ([junk], []) | y # ys' \<Rightarrow> ([y], ys'))"

fun spec_run :: "nat \<Rightarrow> 'a \<Rightarrow> 'a fifo_op list \<Rightarrow> 'a list \<Rightarrow> 'a list \<times> 'a list" where
  "spec_run cap junk [] ys = ([], ys)"
| "spec_run cap junk (c # cs) ys =
     (let (out, ys') = spec_step cap junk c ys; (outs, ys'') = spec_run cap junk cs ys'
      in (out @ outs, ys''))"

fun ins_all :: "('a \<Rightarrow> bool \<Rightarrow> 'q \<Rightarrow> 'q option) \<Rightarrow> 'a list \<Rightarrow> 'q \<Rightarrow> 'q option" where
  "ins_all ins [] q = Some q"
| "ins_all ins (x # xs) q = Option.bind (ins x True q) (ins_all ins xs)"

section \<open>The interface\<close>

locale bounded_fifo =
  fixes inv :: "'q \<Rightarrow> bool"
    and items :: "'q \<Rightarrow> 'a list"
    and cap :: nat
    and is_empty :: "'q \<Rightarrow> bool"
    and is_full :: "'q \<Rightarrow> bool"
    and peek :: "'q \<Rightarrow> 'a option"
    and ins :: "'a \<Rightarrow> bool \<Rightarrow> 'q \<Rightarrow> 'q option"
    and del :: "'a \<Rightarrow> 'q \<Rightarrow> ('a \<times> 'q) option"
  assumes cap_pos: "0 < cap"
    and items_le: "inv q \<Longrightarrow> length (items q) \<le> cap"
    and is_empty_iff: "inv q \<Longrightarrow> is_empty q \<longleftrightarrow> items q = []"
    and is_full_iff: "inv q \<Longrightarrow> is_full q \<longleftrightarrow> length (items q) = cap"
    and peek_items: "inv q \<Longrightarrow> items q \<noteq> [] \<Longrightarrow> peek q = Some (hd (items q))"
    and peek_total: "inv q \<Longrightarrow> peek q \<noteq> None"
    and ins_items: "inv q \<Longrightarrow> \<exists>q'. ins x k q = Some q' \<and> inv q' \<and> items q' = fifo_insert cap x k (items q)"
    and del_items: "inv q \<Longrightarrow> items q \<noteq> [] \<Longrightarrow>
      \<exists>q'. del junk q = Some (hd (items q), q') \<and> inv q' \<and> items q' = tl (items q)"
    and del_empty: "inv q \<Longrightarrow> items q = [] \<Longrightarrow> del junk q = Some (junk, q)"
begin

lemma ins_elim:
  assumes "inv q"
  obtains q' where "ins x k q = Some q'" "inv q'" "items q' = fifo_insert cap x k (items q)"
  using ins_items [OF assms] by blast

lemma step_refines:
  assumes "inv q"
  shows "\<exists>out q'. fifo_step ins del junk c q = Some (out, q') \<and> inv q' \<and>
    spec_step cap junk c (items q) = (out, items q')"
proof (cases c)
  case (Insert x k)
  then show ?thesis using ins_items [OF assms, of x k] by auto
next
  case Remove
  then show ?thesis
    using del_items [OF assms, of junk] del_empty [OF assms, of junk] assms
    by (cases "items q") auto
qed

theorem run_refines:
  "inv q \<Longrightarrow> \<exists>outs q'. fifo_run ins del junk cs q = Some (outs, q') \<and> inv q' \<and>
    spec_run cap junk cs (items q) = (outs, items q')"
proof (induction cs arbitrary: q)
  case Nil
  then show ?case by simp
next
  case (Cons c cs)
  obtain out q1 where 1: "fifo_step ins del junk c q = Some (out, q1)" "inv q1"
    "spec_step cap junk c (items q) = (out, items q1)"
    using step_refines [OF Cons.prems] by blast
  obtain outs q2 where 2: "fifo_run ins del junk cs q1 = Some (outs, q2)" "inv q2"
    "spec_run cap junk cs (items q1) = (outs, items q2)"
    using Cons.IH [OF 1(2)] by blast
  from 1 2 show ?case by simp
qed

text \<open>A sequence of insertions that keep the new element leaves the newest \<open>cap\<close> elements.\<close>

theorem ins_all_newest:
  "inv q \<Longrightarrow> \<exists>q'. ins_all ins xs q = Some q' \<and> inv q' \<and> items q' = last_n cap (items q @ xs)"
proof (induction xs arbitrary: q)
  case Nil
  then show ?case using items_le by simp
next
  case (Cons x xs)
  obtain q1 where 1: "ins x True q = Some q1" "inv q1"
    "items q1 = fifo_insert cap x True (items q)"
    using ins_elim [OF Cons.prems] by blast
  have "last_n cap (items q1 @ xs) = last_n cap (items q @ x # xs)"
  proof (cases "length (items q) < cap")
    case True
    then show ?thesis using 1(3) by (simp add: fifo_insert_def)
  next
    case False
    then have "length (items q) = cap" using items_le [OF Cons.prems] by simp
    then show ?thesis
      using 1(3) last_n_snoc_full [OF cap_pos, of "items q" x xs]
      by (simp add: fifo_insert_def)
  qed
  then show ?case using Cons.IH [OF 1(2)] 1(1) by simp
qed

text \<open>Removing right after reading removes what was read, and changes nothing else.\<close>

lemma peek_then_del:
  assumes "inv q" "\<not> is_empty q"
  shows "\<exists>x q'. peek q = Some x \<and> del junk q = Some (x, q') \<and> inv q' \<and> items q = x # items q'"
  using assms peek_items del_items [of q junk] by (auto simp: is_empty_iff)

text \<open>
  Two users of the queue: one reads the head, the other then inserts, and the first removes.
  The removed element is the one that was read unless the insertion hit a full queue: then the
  insertion has already dropped it and the removal takes its successor, which nobody has read.
\<close>

lemma insert_between_not_full:
  assumes "inv q" "\<not> is_empty q" "\<not> is_full q"
  shows "\<exists>y q1 q2. peek q = Some y \<and> ins x k q = Some q1 \<and> del junk q1 = Some (y, q2) \<and>
    items q2 = tl (items q) @ [x]"
proof -
  have ne: "items q \<noteq> []" and lt: "length (items q) < cap"
    using assms items_le [OF assms(1)] by (auto simp: is_empty_iff is_full_iff)
  obtain q1 where 1: "ins x k q = Some q1" "inv q1" "items q1 = items q @ [x]"
    using ins_elim [OF assms(1), of x k] lt by (auto simp: fifo_insert_def)
  then show ?thesis
    using del_items [OF 1(2), of junk] peek_items [OF assms(1) ne] ne by auto
qed

lemma insert_between_full:
  assumes "inv q" "is_full q" "items q = y # z # ys"
  shows "\<exists>q1 q2. peek q = Some y \<and> ins x True q = Some q1 \<and> del junk q1 = Some (z, q2) \<and>
    items q2 = ys @ [x]"
proof -
  have "length (items q) = cap" using assms by (simp add: is_full_iff)
  then obtain q1 where 1: "ins x True q = Some q1" "inv q1" "items q1 = (z # ys) @ [x]"
    using ins_elim [OF assms(1), of x True] assms(3) by (auto simp: fifo_insert_def)
  then show ?thesis
    using del_items [OF 1(2), of junk] peek_items [OF assms(1)] assms(3) by auto
qed

end

end
