(* ===== verification/Data_Buffer.thy ===== *)
theory Data_Buffer
  imports Fifo_Interface
begin

text \<open>
  The sample queue of \<^verbatim>\<open>main/data_buffer.c\<close> and \<^verbatim>\<open>main/data_buffer.h\<close>: a ring buffer of
  six slots, filled by the ADC task (and the BLE notification handler) and drained by the Azure
  task. Its static variables are the record \<open>queue_state\<close>. The indices are \<open>uint8_t\<close>, hence
  words; the struct of one sample is the record \<open>def_queue_buffer\<close>.
\<close>

section \<open>Data\<close>

record def_queue_buffer =
  mac_addr :: esp_bd_addr_t
  temperature :: "32 word"
  vdd :: u8
  status :: u8
  mv1 :: u32
  mv2 :: u32

definition QUEUE_BUFFER_MAX :: nat where
  "QUEUE_BUFFER_MAX = 6"

record queue_state =
  queue_buffer :: "def_queue_buffer list"
  head :: u8
  tail :: u8
  itemCount :: u8

text \<open>Static storage starts as zero bytes.\<close>

definition zero_sample :: def_queue_buffer where
  "zero_sample = \<lparr>mac_addr = replicate 6 0, temperature = 0, vdd = 0, status = 0, mv1 = 0, mv2 = 0\<rparr>"

definition queue_buffer_init :: queue_state where
  "queue_buffer_init =
     \<lparr>queue_buffer = replicate QUEUE_BUFFER_MAX zero_sample, head = 0, tail = 0, itemCount = 0\<rparr>"

section \<open>Operations\<close>

definition queue_buffer_peek :: "queue_state \<Rightarrow> def_queue_buffer option" where
  "queue_buffer_peek q = arr_get (queue_buffer q) (unat (head q))"

definition queue_buffer_isEmpty :: "queue_state \<Rightarrow> bool" where
  "queue_buffer_isEmpty q \<longleftrightarrow> head q = tail q"

definition queue_buffer_isFull :: "queue_state \<Rightarrow> bool" where
  "queue_buffer_isFull q =
     (let tail_i = tail q + 1;
          tail_i = (if QUEUE_BUFFER_MAX \<le> unat tail_i then 0 else tail_i)
      in head q = tail_i)"

text \<open>The C code computes in \<open>int\<close>: the \<open>uint8_t\<close> operands are promoted first.\<close>

definition queue_buffer_size :: "queue_state \<Rightarrow> int" where
  "queue_buffer_size q =
     (if head q < tail q then uint (tail q) - uint (head q)
      else uint (tail q) + int QUEUE_BUFFER_MAX - uint (head q))"

text \<open>The first argument of \<open>queue_buffer_removeData\<close> is the indeterminate content of its
  local \<open>a_queue\<close>, which it returns unset when the queue is empty.\<close>

definition queue_buffer_removeData ::
  "def_queue_buffer \<Rightarrow> queue_state \<Rightarrow> (def_queue_buffer \<times> queue_state) option" where
  "queue_buffer_removeData a_queue q =
     (if queue_buffer_isEmpty q then Some (a_queue, q)
      else do {
        a \<leftarrow> arr_get (queue_buffer q) (unat (head q));
        let h = head q + 1;
        let h = (if QUEUE_BUFFER_MAX \<le> unat h then 0 else h);
        Some (a, q\<lparr>head := h, itemCount := itemCount q - 1\<rparr>)
      })"

definition queue_buffer_insert ::
  "def_queue_buffer \<Rightarrow> bool \<Rightarrow> queue_state \<Rightarrow> queue_state option" where
  "queue_buffer_insert data_queue keep_new q = do {
     q \<leftarrow> (if queue_buffer_isFull q \<and> keep_new
          then map_option snd (queue_buffer_removeData zero_sample q) else Some q);
     if \<not> queue_buffer_isFull q
     then do {
       buf \<leftarrow> arr_set (queue_buffer q) (unat (tail q)) data_queue;
       let t = tail q + 1;
       let t = (if QUEUE_BUFFER_MAX \<le> unat t then 0 else t);
       Some (q\<lparr>queue_buffer := buf, tail := t, itemCount := itemCount q + 1\<rparr>)
     }
     else Some q
   }"

section \<open>Abstraction and invariant\<close>

text \<open>The samples the queue holds, oldest first.\<close>

definition queue_len :: "queue_state \<Rightarrow> nat" where
  "queue_len q = (unat (tail q) + QUEUE_BUFFER_MAX - unat (head q)) mod QUEUE_BUFFER_MAX"

definition queue_items :: "queue_state \<Rightarrow> def_queue_buffer list" where
  "queue_items q = ring_slice (queue_buffer q) (unat (head q)) (queue_len q)"

definition queue_inv :: "queue_state \<Rightarrow> bool" where
  "queue_inv q \<longleftrightarrow> length (queue_buffer q) = QUEUE_BUFFER_MAX \<and>
     unat (head q) < QUEUE_BUFFER_MAX \<and> unat (tail q) < QUEUE_BUFFER_MAX \<and>
     unat (itemCount q) = queue_len q"

lemmas queue_defs = queue_inv_def queue_items_def queue_len_def QUEUE_BUFFER_MAX_def

lemma length_queue_items [simp]: "length (queue_items q) = queue_len q"
  by (simp add: queue_items_def)

lemma queue_inv_init: "queue_inv queue_buffer_init"
  by (simp add: queue_defs queue_buffer_init_def)

lemma queue_items_init: "queue_items queue_buffer_init = []"
  by (simp add: queue_defs queue_buffer_init_def)

text \<open>The increment with wrap-around that both indices use.\<close>

lemma unat_inc_wrap:
  fixes h :: u8
  assumes "unat h < 6"
  shows "unat (if 6 \<le> unat (h + 1) then 0 else h + 1) = Suc (unat h) mod 6"
proof -
  have "unat (h + 1) = Suc (unat h)" using assms by (simp add: unat_word_ariths)
  moreover have "unat h = 5 \<or> unat h < 5" using assms by arith
  ultimately show ?thesis by auto
qed

lemma queue_len_less: "queue_len q < QUEUE_BUFFER_MAX"
  by (simp add: queue_len_def QUEUE_BUFFER_MAX_def)

lemma isEmpty_iff: "queue_inv q \<Longrightarrow> queue_buffer_isEmpty q \<longleftrightarrow> queue_len q = 0"
  unfolding queue_buffer_isEmpty_def word_unat_eq_iff queue_defs
  by (elim conjE) (simp add: mod_if; arith)

lemma isFull_iff: "queue_inv q \<Longrightarrow> queue_buffer_isFull q \<longleftrightarrow> queue_len q = QUEUE_BUFFER_MAX - 1"
proof -
  assume "queue_inv q"
  then have t: "unat (tail q) < 6" and h: "unat (head q) < 6" by (auto simp: queue_defs)
  have "queue_buffer_isFull q \<longleftrightarrow> unat (head q) = Suc (unat (tail q)) mod 6"
    unfolding queue_buffer_isFull_def Let_def QUEUE_BUFFER_MAX_def
    by (subst word_unat_eq_iff, subst unat_inc_wrap [OF t]) simp
  also have "\<dots> \<longleftrightarrow> (unat (tail q) + 6 - unat (head q)) mod 6 = 5"
    using t h by (simp add: mod_if; arith)
  finally show ?thesis by (simp add: queue_len_def QUEUE_BUFFER_MAX_def)
qed

section \<open>What the operations do to the held samples\<close>

lemma peek_items:
  assumes "queue_inv q" "queue_len q \<noteq> 0"
  shows "queue_buffer_peek q = Some (hd (queue_items q))"
proof -
  obtain n where "queue_len q = Suc n" using assms(2) not0_implies_Suc by blast
  with assms(1) show ?thesis
    by (simp add: queue_buffer_peek_def queue_items_def ring_slice_Suc_head queue_inv_def)
qed

lemma removeData_nonempty:
  assumes "queue_inv q" "queue_len q \<noteq> 0"
  shows "\<exists>q'. queue_buffer_removeData a q = Some (hd (queue_items q), q') \<and> queue_inv q' \<and>
    queue_items q' = tl (queue_items q)"
proof -
  define h where "h = (if 6 \<le> unat (head q + 1) then 0 else head q + 1)"
  define q' where "q' = q\<lparr>head := h, itemCount := itemCount q - 1\<rparr>"
  have len: "length (queue_buffer q) = 6" and hd6: "unat (head q) < 6" and tl6: "unat (tail q) < 6"
    and cnt: "unat (itemCount q) = queue_len q"
    using assms(1) by (auto simp: queue_inv_def QUEUE_BUFFER_MAX_def)
  have h: "unat h = Suc (unat (head q)) mod 6"
    unfolding h_def by (rule unat_inc_wrap [OF hd6])
  obtain n where n: "queue_len q = Suc n" using assms(2) not0_implies_Suc by blast
  have n': "queue_len q' = n"
    using n h hd6 tl6 unfolding q'_def queue_len_def QUEUE_BUFFER_MAX_def
    by (simp add: mod_if split: if_splits; arith)
  have "unat (itemCount q - 1) = n"
    using cnt n by (simp add: unat_sub_if_size unat_word_ariths word_le_nat_alt unat_minus_one)
  then have "queue_inv q'"
    using n' h len tl6 by (simp add: queue_inv_def q'_def QUEUE_BUFFER_MAX_def)
  moreover have "queue_items q' = tl (queue_items q)"
    using n n' h len by (simp add: queue_items_def q'_def ring_slice_Suc_head)
  moreover have "queue_buffer_removeData a q = Some (hd (queue_items q), q')"
    using assms n len hd6
    by (simp add: queue_buffer_removeData_def isEmpty_iff queue_items_def ring_slice_Suc_head
        h_def [symmetric] q'_def Let_def QUEUE_BUFFER_MAX_def)
  ultimately show ?thesis by blast
qed

lemma removeData_empty:
  "queue_inv q \<Longrightarrow> queue_len q = 0 \<Longrightarrow> queue_buffer_removeData a q = Some (a, q)"
  by (simp add: queue_buffer_removeData_def isEmpty_iff)

lemma insert_not_full:
  assumes "queue_inv q" "queue_len q < 5"
  shows "\<exists>q'. queue_buffer_insert x k q = Some q' \<and> queue_inv q' \<and>
    queue_items q' = queue_items q @ [x]"
proof -
  define t where "t = (if 6 \<le> unat (tail q + 1) then 0 else tail q + 1)"
  define q' where "q' = q\<lparr>queue_buffer := (queue_buffer q)[unat (tail q) := x], tail := t,
    itemCount := itemCount q + 1\<rparr>"
  have len: "length (queue_buffer q) = 6" and hd6: "unat (head q) < 6" and tl6: "unat (tail q) < 6"
    and cnt: "unat (itemCount q) = queue_len q"
    using assms(1) by (auto simp: queue_inv_def QUEUE_BUFFER_MAX_def)
  have nf: "\<not> queue_buffer_isFull q" using assms by (simp add: isFull_iff QUEUE_BUFFER_MAX_def)
  have t: "unat t = Suc (unat (tail q)) mod 6"
    unfolding t_def by (rule unat_inc_wrap [OF tl6])
  have n': "queue_len q' = Suc (queue_len q)"
    using t hd6 tl6 assms(2) unfolding q'_def queue_len_def QUEUE_BUFFER_MAX_def
    by (simp add: mod_if split: if_splits; arith)
  have pos: "(unat (head q) + queue_len q) mod 6 = unat (tail q)"
    using hd6 tl6 unfolding queue_len_def QUEUE_BUFFER_MAX_def by (simp add: mod_if; arith)
  have "unat (itemCount q + 1) = Suc (queue_len q)"
    using cnt assms(2) by (simp add: unat_word_ariths)
  then have "queue_inv q'"
    using n' t len hd6 by (simp add: queue_inv_def q'_def QUEUE_BUFFER_MAX_def)
  moreover have "queue_items q' = queue_items q @ [x]"
    using ring_slice_snoc [of "queue_len q" "queue_buffer q" "unat (head q)" x] n' len pos assms(2)
    by (simp add: queue_items_def q'_def)
  moreover have "queue_buffer_insert x k q = Some q'"
    using nf len tl6
    by (simp add: queue_buffer_insert_def t_def [symmetric] q'_def Let_def QUEUE_BUFFER_MAX_def)
  ultimately show ?thesis by blast
qed

lemma insert_full_ignored:
  "queue_inv q \<Longrightarrow> queue_len q = 5 \<Longrightarrow> queue_buffer_insert x False q = Some q"
  by (simp add: queue_buffer_insert_def isFull_iff QUEUE_BUFFER_MAX_def)

lemma insert_full_keep:
  assumes "queue_inv q" "queue_len q = 5"
  shows "\<exists>q'. queue_buffer_insert x True q = Some q' \<and> queue_inv q' \<and>
    queue_items q' = tl (queue_items q) @ [x]"
proof -
  obtain q1 where 1: "queue_buffer_removeData zero_sample q = Some (hd (queue_items q), q1)"
    "queue_inv q1" "queue_items q1 = tl (queue_items q)"
    using removeData_nonempty [OF assms(1), of zero_sample] assms(2) by auto
  have len: "queue_len q1 = 4"
    using arg_cong [OF 1(3), of length] assms(2) by simp
  then have nf: "\<not> queue_buffer_isFull q1" using 1(2) by (simp add: isFull_iff QUEUE_BUFFER_MAX_def)
  have "queue_buffer_insert x True q = queue_buffer_insert x True q1"
    using 1(1) nf assms by (simp add: queue_buffer_insert_def isFull_iff QUEUE_BUFFER_MAX_def)
  then show ?thesis using insert_not_full [OF 1(2), of x True] 1(3) len by simp
qed

section \<open>The ring buffer is a bounded FIFO\<close>

interpretation ring: bounded_fifo queue_inv queue_items 5 queue_buffer_isEmpty queue_buffer_isFull
  queue_buffer_peek queue_buffer_insert queue_buffer_removeData
proof unfold_locales
  fix q x k a
  assume inv: "queue_inv q"
  have le: "queue_len q \<le> 5" using queue_len_less [of q] by (simp add: QUEUE_BUFFER_MAX_def)
  show "length (queue_items q) \<le> 5" using le by simp
  show "queue_buffer_isEmpty q \<longleftrightarrow> queue_items q = []"
    using inv by (metis isEmpty_iff length_0_conv length_queue_items)
  show "queue_buffer_isFull q \<longleftrightarrow> length (queue_items q) = 5"
    using inv by (simp add: isFull_iff QUEUE_BUFFER_MAX_def)
  show "queue_buffer_peek q \<noteq> None"
    using inv by (simp add: queue_buffer_peek_def queue_inv_def)
  show "\<exists>q'. queue_buffer_insert x k q = Some q' \<and> queue_inv q' \<and>
      queue_items q' = fifo_insert 5 x k (queue_items q)"
  proof (cases "queue_len q < 5")
    case True
    then show ?thesis using insert_not_full [OF inv True, of x k] by (simp add: fifo_insert_def)
  next
    case False
    then have "queue_len q = 5" using le by simp
    then show ?thesis
      using insert_full_keep [OF inv, of x] insert_full_ignored [OF inv, of x] inv
      by (cases k) (auto simp: fifo_insert_def)
  qed
  show "queue_items q \<noteq> [] \<Longrightarrow> \<exists>q'. queue_buffer_removeData a q = Some (hd (queue_items q), q') \<and>
      queue_inv q' \<and> queue_items q' = tl (queue_items q)"
    using removeData_nonempty [OF inv, of a] by (metis length_0_conv length_queue_items)
  show "queue_items q \<noteq> [] \<Longrightarrow> queue_buffer_peek q = Some (hd (queue_items q))"
    using peek_items [OF inv] by (metis length_0_conv length_queue_items)
  show "queue_items q = [] \<Longrightarrow> queue_buffer_removeData a q = Some (a, q)"
    using removeData_empty [OF inv, of a] by (metis length_0_conv length_queue_items)
qed simp

lemma queue_inv_insert [inv_intros]:
  "queue_inv q \<Longrightarrow> queue_buffer_insert x k q = Some q' \<Longrightarrow> queue_inv q'"
  using ring.ins_items [of q x k] by auto

lemma queue_inv_removeData [inv_intros]:
  "queue_inv q \<Longrightarrow> queue_buffer_removeData a q = Some (x, q') \<Longrightarrow> queue_inv q'"
  using ring.del_items [of q a] ring.del_empty [of q a] by (cases "queue_items q = []") auto

section \<open>Properties\<close>

text \<open>C1: From the initial queue, every sequence of insertions (with either flag) and removals runs
  without leaving the array, and hands out exactly the samples that a FIFO list of at most five
  elements hands out: the ring buffer implements that list.\<close>

theorem queue_implements_fifo:
  "\<exists>outs q. fifo_run queue_buffer_insert queue_buffer_removeData junk cs queue_buffer_init = Some (outs, q) \<and>
     queue_inv q \<and> spec_run 5 junk cs [] = (outs, queue_items q)"
  using ring.run_refines [OF queue_inv_init, of junk cs] by (simp add: queue_items_init)

text \<open>The size the queue reports is the number of samples it holds, except when it is empty: then
  it reports 6.\<close>

theorem queue_size_reported:
  assumes "queue_inv q"
  shows "queue_buffer_size q = (if queue_buffer_isEmpty q then 6 else int (length (queue_items q)))"
proof -
  have b: "unat (head q) < 6" "unat (tail q) < 6" using assms by (simp_all add: queue_defs)
  have u: "uint (head q) = int (unat (head q))" "uint (tail q) = int (unat (tail q))" by simp_all
  show ?thesis
    unfolding queue_buffer_size_def queue_buffer_isEmpty_def length_queue_items queue_len_def u
      word_less_nat_alt word_unat_eq_iff QUEUE_BUFFER_MAX_def
    using b by (auto simp: mod_if)
qed

theorem queue_size_reported_witness: "queue_buffer_size queue_buffer_init = 6"
  using queue_size_reported [OF queue_inv_init]
  by (simp add: queue_buffer_isEmpty_def queue_buffer_init_def)

text \<open>A full queue, for concrete instances.\<close>

definition five_samples :: queue_state where
  "five_samples = \<lparr>queue_buffer = map (\<lambda>i. zero_sample\<lparr>mv1 := of_nat i\<rparr>) [0..<6], head = 1, tail = 0, itemCount = 5\<rparr>"

lemma five_samples_ok:
  "queue_inv five_samples" "queue_items five_samples = map (\<lambda>i. zero_sample\<lparr>mv1 := of_nat i\<rparr>) [1, 2, 3, 4, 5]"
  by (simp_all add: five_samples_def queue_defs ring_slice_def upt_rec)

text \<open>The reader of the queue copies the head, sends it, and then removes the head. If a sample is
  inserted in between and the queue is full, the insertion drops the sample that was sent and the
  removal takes the next one, which nobody has read: one sample is lost.\<close>

theorem insert_before_remove_loses_sample:
  assumes "queue_inv q" "queue_items q = y # z # ys" "length ys = 3"
  shows "\<exists>q1 q2. queue_buffer_peek q = Some y \<and> queue_buffer_insert x True q = Some q1 \<and>
    queue_buffer_removeData junk q1 = Some (z, q2) \<and> queue_items q2 = ys @ [x]"
  using ring.insert_between_full [OF assms(1) _ assms(2), of x junk] ring.is_full_iff [OF assms(1)] assms(2,3)
  by simp

theorem insert_before_remove_loses_sample_witness:
  "\<exists>q1 q2. queue_buffer_peek five_samples = Some (zero_sample\<lparr>mv1 := 1\<rparr>) \<and>
     queue_buffer_insert zero_sample True five_samples = Some q1 \<and>
     queue_buffer_removeData zero_sample q1 = Some (zero_sample\<lparr>mv1 := 2\<rparr>, q2) \<and>
     queue_items q2 = map (\<lambda>i. zero_sample\<lparr>mv1 := of_nat i\<rparr>) [3, 4, 5] @ [zero_sample]"
  using insert_before_remove_loses_sample [OF five_samples_ok(1), of "zero_sample\<lparr>mv1 := 1\<rparr>"
      "zero_sample\<lparr>mv1 := 2\<rparr>" "map (\<lambda>i. zero_sample\<lparr>mv1 := of_nat i\<rparr>) [3, 4, 5]" zero_sample zero_sample]
  by (simp add: five_samples_ok(2))

end
