(* ===== verification/C_Double.thy ===== *)
theory C_Double
  imports Prelude
begin

text \<open>
  The arithmetic of non-negative C \<^verbatim>\<open>double\<close> values that the timer code uses: decimal
  literals, the conversion of an integer, multiplication, and the conversion to an integer by
  truncation. A value is a significand and a binary exponent; every operation rounds to 53 bits,
  to nearest with ties to even (IEEE 754 binary64, without its exponent limits, which these values
  do not reach).
\<close>

type_synonym dbl = "nat \<times> int"

fun bit_len :: "nat \<Rightarrow> nat" where
  "bit_len n = (if n = 0 then 0 else Suc (bit_len (n div 2)))"

declare bit_len.simps [simp del]

definition round53 :: "nat \<Rightarrow> int \<Rightarrow> dbl" where
  "round53 m e =
     (if bit_len m \<le> 53 then (m, e)
      else let s = bit_len m - 53;
               q = m div 2 ^ s;
               r = m mod 2 ^ s;
               half = 2 ^ (s - 1)
           in (if half < r \<or> (r = half \<and> odd q) then q + 1 else q, e + int s))"

definition dbl_of_nat :: "nat \<Rightarrow> dbl" where
  "dbl_of_nat n = round53 n 0"

text \<open>The literal \<open>num / den\<close>: 64 more bits of the quotient and a sticky bit for the rest.\<close>

definition dbl_literal :: "nat \<Rightarrow> nat \<Rightarrow> dbl" where
  "dbl_literal num den =
     (let q = num * 2 ^ 64 div den; sticky = (if den dvd num * 2 ^ 64 then 0 else 1)
      in round53 (2 * q + sticky) (- 65))"

definition dbl_mul :: "dbl \<Rightarrow> dbl \<Rightarrow> dbl" where
  "dbl_mul x y = round53 (fst x * fst y) (snd x + snd y)"

definition dbl_trunc :: "dbl \<Rightarrow> nat" where
  "dbl_trunc x = (if 0 \<le> snd x then fst x * 2 ^ nat (snd x) else fst x div 2 ^ nat (- snd x))"

lemma bit_len_le: "m < 2 ^ k \<Longrightarrow> bit_len m \<le> k"
proof (induction m arbitrary: k rule: bit_len.induct)
  case (1 m)
  show ?case
  proof (cases "m = 0")
    case True
    then show ?thesis by (simp add: bit_len.simps [of 0])
  next
    case False
    then obtain k' where k: "k = Suc k'" using "1.prems" by (cases k) auto
    then have "bit_len (m div 2) \<le> k'" using "1.IH" [OF False] "1.prems" by simp
    then show ?thesis using False k by (simp add: bit_len.simps [of m])
  qed
qed

text \<open>Products that fit 53 bits are exact.\<close>

lemma dbl_mul_exact:
  assumes "a < 2 ^ 53" "b < 2 ^ 53" "a * b < 2 ^ 53"
  shows "dbl_trunc (dbl_mul (dbl_of_nat a) (dbl_of_nat b)) = a * b"
  using assms by (simp add: dbl_mul_def dbl_of_nat_def round53_def bit_len_le dbl_trunc_def)

end
