(* ===== verification/Timer_Group.thy ===== *)
theory Timer_Group
  imports C_Double
begin

text \<open>
  The hardware timer of \<^verbatim>\<open>main/timer_group.c\<close>, which ends a test of the emergency light. The
  registers of timer group 0 the code touches, the queue of timer events and the static flag
  \<open>end_of_test\<close> are the record \<open>tg_state\<close>.

  Two facts of the ESP32 hardware are part of the state's operations: writing the \<open>update\<close>
  register copies the running counter into \<open>cnt_high\<close> and \<open>cnt_low\<close> (\<open>hw_update\<close>), and
  writing a one to \<open>int_clr_timers\<close> clears that bit of the interrupt status. The base clock
  \<^verbatim>\<open>TIMER_BASE_CLK\<close> of the ESP-IDF is the argument \<open>base_clk\<close>.
\<close>

unbundle bit_operations_syntax

section \<open>Registers, events and state\<close>

record hw_timer =
  counter :: u64
  cnt_high :: u32
  cnt_low :: u32
  alarm_high :: u32
  alarm_low :: u32
  alarm_en :: bool
  counter_en :: bool
  auto_reload :: bool
  divider :: nat
  count_up :: bool
  level_intr :: bool
  intr_en :: bool
  isr_arg :: "nat option"

record timer_event_t =
  evt_type :: int
  timer_group :: nat
  timer_idx :: nat
  timer_counter_value :: u64

text \<open>Where the event task stands: at the receiving of an event; with one, before it reads the counter for its
  messages; after that, before it sets the flag.\<close>

datatype evt_pc = Ev_Receive | Ev_Time timer_event_t | Ev_Flag timer_event_t

record tg_state =
  int_st :: u32
  hw_timers :: "hw_timer list"
  timer_queue :: "timer_event_t list"
  end_of_test :: bool
  evt_task :: evt_pc

definition TIMER_DIVIDER :: nat where
  "TIMER_DIVIDER = 16"

definition TIMER_SCALE :: "nat \<Rightarrow> nat" where
  "TIMER_SCALE base_clk = base_clk div TIMER_DIVIDER"

definition TIMER_INTERVAL0_SEC :: dbl where
  "TIMER_INTERVAL0_SEC = dbl_literal 34179 10000"

definition TEST_WITHOUT_RELOAD :: int where
  "TEST_WITHOUT_RELOAD = 0"

definition TEST_WITH_RELOAD :: int where
  "TEST_WITH_RELOAD = 1"

definition TIMER_QUEUE_LEN :: nat where
  "TIMER_QUEUE_LEN = 10"

definition hw_timer_reset :: hw_timer where
  "hw_timer_reset = \<lparr>counter = 0, cnt_high = 0, cnt_low = 0, alarm_high = 0, alarm_low = 0,
     alarm_en = False, counter_en = False, auto_reload = False, divider = 0, count_up = False, level_intr = False,
     intr_en = False, isr_arg = None\<rparr>"

text \<open>The state before \<^verbatim>\<open>app_main\<close>: \<open>end_of_test\<close> is statically true.\<close>

definition tg_reset :: tg_state where
  "tg_reset = \<lparr>int_st = 0, hw_timers = [hw_timer_reset, hw_timer_reset], timer_queue = [],
     end_of_test = True, evt_task = Ev_Receive\<rparr>"

section \<open>Counter and alarm registers\<close>

definition cnt_value :: "hw_timer \<Rightarrow> u64" where
  "cnt_value t = push_bit 32 (ucast (cnt_high t)) OR ucast (cnt_low t)"

definition alarm_value :: "hw_timer \<Rightarrow> u64" where
  "alarm_value t = push_bit 32 (ucast (alarm_high t)) OR ucast (alarm_low t)"

definition hw_update :: "hw_timer \<Rightarrow> hw_timer" where
  "hw_update t = t\<lparr>cnt_high := ucast (drop_bit 32 (counter t)), cnt_low := ucast (counter t)\<rparr>"

definition set_alarm :: "u64 \<Rightarrow> hw_timer \<Rightarrow> hw_timer" where
  "set_alarm v t = t\<lparr>alarm_high := ucast (drop_bit 32 v), alarm_low := ucast v\<rparr>"

text \<open>\<open>(uint64_t) (seconds * TIMER_SCALE)\<close>\<close>

definition timer_ticks :: "nat \<Rightarrow> dbl \<Rightarrow> u64" where
  "timer_ticks base_clk sec = of_nat (dbl_trunc (dbl_mul sec (dbl_of_nat (TIMER_SCALE base_clk))))"

lemma join_halves: "push_bit 32 (ucast (ucast (drop_bit 32 (v :: u64)) :: u32)) OR ucast (ucast v :: u32) = v"
  by (rule bit_word_eqI) (auto simp: bit_simps)

lemma cnt_value_update [simp]: "cnt_value (hw_update t) = counter t"
  by (simp add: cnt_value_def hw_update_def join_halves)

lemma alarm_value_set [simp]: "alarm_value (set_alarm v t) = v"
  by (simp add: alarm_value_def set_alarm_def join_halves)

section \<open>The operations\<close>

definition timer_queue_send :: "timer_event_t \<Rightarrow> tg_state \<Rightarrow> tg_state" where
  "timer_queue_send evt s =
     (if length (timer_queue s) < TIMER_QUEUE_LEN then s\<lparr>timer_queue := timer_queue s @ [evt]\<rparr> else s)"

definition put_timer :: "nat \<Rightarrow> hw_timer \<Rightarrow> tg_state \<Rightarrow> tg_state option" where
  "put_timer i t s = map_option (\<lambda>ts. s\<lparr>hw_timers := ts\<rparr>) (arr_set (hw_timers s) i t)"

definition timer_group0_isr :: "nat \<Rightarrow> nat \<Rightarrow> tg_state \<Rightarrow> tg_state option" where
  "timer_group0_isr base_clk idx s = do {
     let intr_status = int_st s;
     t \<leftarrow> arr_get (hw_timers s) idx;
     let t = hw_update t;
     let v = cnt_value t;
     let (evt_t, clr, t) =
       (if intr_status AND push_bit idx 1 \<noteq> 0 \<and> idx = 0 then
          (TEST_WITHOUT_RELOAD, 1,
           (set_alarm (v + timer_ticks base_clk TIMER_INTERVAL0_SEC) t)\<lparr>counter_en := False\<rparr>)
        else if intr_status AND push_bit idx 1 \<noteq> 0 \<and> idx = 1 then (TEST_WITH_RELOAD, 2, t)
        else (- 1, 0, t));
     let t = t\<lparr>alarm_en := True\<rparr>;
     s \<leftarrow> put_timer idx t (s\<lparr>int_st := int_st s AND NOT clr\<rparr>);
     Some (timer_queue_send
       \<lparr>evt_type = evt_t, timer_group = 0, timer_idx = idx, timer_counter_value = v\<rparr> s)
   }"

definition example_tg0_timer_init :: "nat \<Rightarrow> nat \<Rightarrow> bool \<Rightarrow> dbl \<Rightarrow> tg_state \<Rightarrow> tg_state option" where
  "example_tg0_timer_init base_clk idx reload timer_interval_sec s = do {
     t \<leftarrow> arr_get (hw_timers s) idx;
     let t = t\<lparr>divider := TIMER_DIVIDER, count_up := True, counter_en := False, alarm_en := True, level_intr := True,
       auto_reload := reload\<rparr>;
     let t = t\<lparr>counter := 0\<rparr>;
     let t = set_alarm (timer_ticks base_clk timer_interval_sec) t;
     let t = t\<lparr>intr_en := True\<rparr>;
     let t = t\<lparr>isr_arg := Some idx\<rparr>;
     let t = t\<lparr>counter_en := True\<rparr>;
     put_timer idx t s
   }"

definition eve_timer_trigger :: "nat \<Rightarrow> dbl \<Rightarrow> tg_state \<Rightarrow> tg_state option" where
  "eve_timer_trigger base_clk alarm_time s = do {
     t \<leftarrow> arr_get (hw_timers s) 0;
     let v = cnt_value t;
     let s = s\<lparr>int_st := int_st s AND NOT 1\<rparr>;
     let t = (set_alarm (v + timer_ticks base_clk alarm_time) t)\<lparr>counter_en := True\<rparr>;
     s \<leftarrow> put_timer 0 t s;
     Some (s\<lparr>end_of_test := False\<rparr>)
   }"

definition end_of_test_enable_check :: "tg_state \<Rightarrow> bool" where
  "end_of_test_enable_check s = end_of_test s"

text \<open>
  The event task. \<open>get_cv\<close> is the driver's \<^verbatim>\<open>timer_get_counter_value\<close>; the value it reads is only printed.
  One round of the loop as a whole: it blocks while the queue is empty (the state is then unchanged).
\<close>

definition evt_time :: "(nat \<Rightarrow> hw_timer list \<Rightarrow> hw_timer list) \<Rightarrow> timer_event_t \<Rightarrow> tg_state \<Rightarrow> tg_state" where
  "evt_time get_cv evt s = s\<lparr>hw_timers := get_cv (timer_idx evt) (hw_timers s)\<rparr>"

definition evt_flag :: "timer_event_t \<Rightarrow> tg_state \<Rightarrow> tg_state" where
  "evt_flag evt s = (if timer_idx evt = 0 then s\<lparr>end_of_test := True\<rparr> else s)"

definition timer_example_evt_task :: "(nat \<Rightarrow> hw_timer list \<Rightarrow> hw_timer list) \<Rightarrow> tg_state \<Rightarrow> tg_state" where
  "timer_example_evt_task get_cv s =
     (case timer_queue s of
        [] \<Rightarrow> s
      | evt # evts \<Rightarrow> evt_flag evt (evt_time get_cv evt (s\<lparr>timer_queue := evts\<rparr>)))"

text \<open>And step by step, as the other tasks and the interrupt see it.\<close>

definition evt_step :: "(nat \<Rightarrow> hw_timer list \<Rightarrow> hw_timer list) \<Rightarrow> tg_state \<Rightarrow> tg_state" where
  "evt_step get_cv s =
     (case evt_task s of
        Ev_Receive \<Rightarrow> (case timer_queue s of [] \<Rightarrow> s | evt # evts \<Rightarrow> s\<lparr>timer_queue := evts, evt_task := Ev_Time evt\<rparr>)
      | Ev_Time evt \<Rightarrow> (evt_time get_cv evt s)\<lparr>evt_task := Ev_Flag evt\<rparr>
      | Ev_Flag evt \<Rightarrow> (evt_flag evt s)\<lparr>evt_task := Ev_Receive\<rparr>)"

text \<open>Undisturbed, three steps are a round.\<close>

lemma evt_round_steps:
  "evt_task s = Ev_Receive \<Longrightarrow> timer_queue s \<noteq> [] \<Longrightarrow> (evt_step get_cv ^^ 3) s = timer_example_evt_task get_cv s"
  by (cases "timer_queue s") (simp_all add: numeral_3_eq_3 evt_step_def timer_example_evt_task_def evt_time_def evt_flag_def)

text \<open>The events still to be handled: the one the task holds, and the queued ones.\<close>

definition evt_pending :: "tg_state \<Rightarrow> timer_event_t list" where
  "evt_pending s = (case evt_task s of Ev_Receive \<Rightarrow> [] | Ev_Time evt \<Rightarrow> [evt] | Ev_Flag evt \<Rightarrow> [evt]) @ timer_queue s"

lemma evt_pending_frame [simp]:
  "evt_pending (s\<lparr>hw_timers := ts\<rparr>) = evt_pending s" "evt_pending (s\<lparr>end_of_test := b\<rparr>) = evt_pending s"
  "evt_pending (s\<lparr>int_st := w\<rparr>) = evt_pending s"
  by (simp_all add: evt_pending_def)

lemma evt_pending_idle: "evt_pending s = [] \<longleftrightarrow> evt_task s = Ev_Receive \<and> timer_queue s = []"
  by (auto simp: evt_pending_def split: evt_pc.splits)

definition app_timer :: "nat \<Rightarrow> tg_state \<Rightarrow> tg_state option" where
  "app_timer base_clk s =
     example_tg0_timer_init base_clk 0 (TEST_WITHOUT_RELOAD \<noteq> 0) TIMER_INTERVAL0_SEC (s\<lparr>timer_queue := []\<rparr>)"

text \<open>The hardware between two operations: a running counter advances.\<close>

definition hw_elapse :: "u64 \<Rightarrow> tg_state \<Rightarrow> tg_state" where
  "hw_elapse n s =
     s\<lparr>hw_timers := map (\<lambda>t. if counter_en t then t\<lparr>counter := counter t + n\<rparr> else t) (hw_timers s)\<rparr>"

text \<open>A running timer of which the interrupt of timer 0 is to be expected.\<close>

definition alarm_ready :: "hw_timer \<Rightarrow> bool" where
  "alarm_ready t \<longleftrightarrow> alarm_en t \<and> intr_en t \<and> isr_arg t = Some 0"

text \<open>The hardware raises the interrupt of timer 0 when its alarm value is reached, and disarms the
  alarm until it is enabled again.\<close>

definition hw_alarm :: "tg_state \<Rightarrow> tg_state" where
  "hw_alarm s = s\<lparr>int_st := int_st s OR 1,
     hw_timers := (hw_timers s)[0 := (hw_timers s ! 0)\<lparr>alarm_en := False\<rparr>]\<rparr>"

lemmas tg_defs = timer_queue_send_def put_timer_def timer_group0_isr_def
  example_tg0_timer_init_def eve_timer_trigger_def end_of_test_enable_check_def
  evt_time_def evt_flag_def timer_example_evt_task_def app_timer_def

section \<open>Correctness\<close>

definition tg_inv :: "tg_state \<Rightarrow> bool" where
  "tg_inv s \<longleftrightarrow> length (hw_timers s) = 2 \<and> length (timer_queue s) \<le> TIMER_QUEUE_LEN"

lemma tg_inv_reset: "tg_inv tg_reset"
  by (simp add: tg_inv_def tg_reset_def)

lemma put_timer_ok: "tg_inv s \<Longrightarrow> i < 2 \<Longrightarrow> put_timer i t s = Some (s\<lparr>hw_timers := (hw_timers s)[i := t]\<rparr>)"
  by (simp add: put_timer_def tg_inv_def)

text \<open>What the trigger leaves in the registers of timer 0.\<close>

lemma trigger_effect:
  assumes "tg_inv s"
  shows "\<exists>s'. eve_timer_trigger base_clk sec s = Some s' \<and> tg_inv s' \<and> \<not> end_of_test s' \<and>
    timer_queue s' = timer_queue s \<and> evt_task s' = evt_task s \<and>
    alarm_value (hw_timers s' ! 0) = cnt_value (hw_timers s ! 0) + timer_ticks base_clk sec \<and>
    counter_en (hw_timers s' ! 0) \<and> counter (hw_timers s' ! 0) = counter (hw_timers s ! 0) \<and>
    cnt_value (hw_timers s' ! 0) = cnt_value (hw_timers s ! 0) \<and>
    alarm_ready (hw_timers s' ! 0) = alarm_ready (hw_timers s ! 0) \<and>
    alarm_en (hw_timers s' ! 0) = alarm_en (hw_timers s ! 0)"
  using assms
  by (simp add: alarm_ready_def eve_timer_trigger_def put_timer_def tg_inv_def Let_def set_alarm_def alarm_value_def
      cnt_value_def join_halves)

text \<open>The interrupt of timer 0: the timer stops, its counter is latched, and one event is queued.\<close>

lemma isr_effect:
  assumes "tg_inv s" "int_st s AND 1 \<noteq> 0"
  shows "\<exists>s'. timer_group0_isr base_clk 0 s = Some s' \<and> tg_inv s' \<and>
    end_of_test s' = end_of_test s \<and> int_st s' AND 1 = 0 \<and>
    evt_task s' = evt_task s \<and> \<not> counter_en (hw_timers s' ! 0) \<and> alarm_en (hw_timers s' ! 0) \<and>
    intr_en (hw_timers s' ! 0) = intr_en (hw_timers s ! 0) \<and> isr_arg (hw_timers s' ! 0) = isr_arg (hw_timers s ! 0) \<and>
    cnt_value (hw_timers s' ! 0) = counter (hw_timers s ! 0) \<and>
    counter (hw_timers s' ! 0) = counter (hw_timers s ! 0) \<and>
    alarm_value (hw_timers s' ! 0) = counter (hw_timers s ! 0) + timer_ticks base_clk TIMER_INTERVAL0_SEC \<and>
    timer_queue s' = (if length (timer_queue s) < TIMER_QUEUE_LEN
      then timer_queue s @ [\<lparr>evt_type = 0, timer_group = 0, timer_idx = 0,
        timer_counter_value = counter (hw_timers s ! 0)\<rparr>] else timer_queue s)"
  using assms
  by (simp add: timer_group0_isr_def put_timer_def tg_inv_def Let_def timer_queue_send_def
      TEST_WITHOUT_RELOAD_def set_alarm_def alarm_value_def hw_update_def cnt_value_def join_halves)

lemma evt_task_effect:
  assumes "tg_inv s" "\<And>i ts. length (get_cv i ts) = length ts"
  shows "tg_inv (timer_example_evt_task get_cv s)"
    and "end_of_test (timer_example_evt_task get_cv s) \<longleftrightarrow>
      end_of_test s \<or> (\<exists>e es. timer_queue s = e # es \<and> timer_idx e = 0)"
    and "timer_queue (timer_example_evt_task get_cv s) = tl (timer_queue s)"
  using assms by (auto simp: timer_example_evt_task_def evt_time_def evt_flag_def tg_inv_def split: list.splits)

lemma evt_step_inv: "tg_inv s \<Longrightarrow> (\<And>i ts. length (get_cv i ts) = length ts) \<Longrightarrow> tg_inv (evt_step get_cv s)"
  by (auto simp: evt_step_def evt_time_def evt_flag_def tg_inv_def split: evt_pc.splits list.splits)

lemma evt_step_pending: "set (evt_pending (evt_step get_cv s)) \<subseteq> set (evt_pending s)"
  by (auto simp: evt_step_def evt_time_def evt_flag_def evt_pending_def split: evt_pc.splits list.splits)

lemma evt_step_idle: "evt_pending s = [] \<Longrightarrow> evt_step get_cv s = s"
  by (auto simp: evt_step_def evt_pending_def split: evt_pc.splits)

lemma timer_ticks_60: "timer_ticks 80000000 (dbl_of_nat 60) = 300000000"
  by (simp add: timer_ticks_def TIMER_SCALE_def TIMER_DIVIDER_def dbl_mul_exact)

section \<open>Properties\<close>

text \<open>After an alarm the timer stands still until the next trigger, however long that takes. The
  trigger then sets the alarm 300,000,000 ticks ahead of the counter (60 s at 80 MHz divided by
  16), starts the timer and clears \<open>end_of_test\<close>: the test lasts 60 seconds.\<close>

theorem test_lasts_60_seconds:
  assumes "tg_inv s" "int_st s AND 1 \<noteq> 0"
  shows "\<exists>s1 s2. timer_group0_isr 80000000 0 s = Some s1 \<and>
    eve_timer_trigger 80000000 (dbl_of_nat 60) (hw_elapse n s1) = Some s2 \<and>
    alarm_value (hw_timers s2 ! 0) = counter (hw_timers s2 ! 0) + 300000000 \<and>
    alarm_en (hw_timers s2 ! 0) \<and> counter_en (hw_timers s2 ! 0) \<and> \<not> end_of_test s2"
proof -
  obtain s1 where 1: "timer_group0_isr 80000000 0 s = Some s1" "tg_inv s1" "\<not> counter_en (hw_timers s1 ! 0)"
    "alarm_en (hw_timers s1 ! 0)" "cnt_value (hw_timers s1 ! 0) = counter (hw_timers s1 ! 0)"
    using isr_effect [OF assms, of 80000000] by auto
  have still: "hw_timers (hw_elapse n s1) ! 0 = hw_timers s1 ! 0" "tg_inv (hw_elapse n s1)"
    using 1(2,3) by (simp_all add: hw_elapse_def tg_inv_def)
  show ?thesis
    using trigger_effect [OF still(2), of 80000000 "dbl_of_nat 60"] 1 still(1) by (auto simp: timer_ticks_60)
qed

theorem test_lasts_60_seconds_witness:
  "\<exists>s1 s2. timer_group0_isr 80000000 0 (hw_alarm tg_reset) = Some s1 \<and>
     eve_timer_trigger 80000000 (dbl_of_nat 60) (hw_elapse 7 s1) = Some s2 \<and>
     alarm_value (hw_timers s2 ! 0) = counter (hw_timers s2 ! 0) + 300000000"
  using test_lasts_60_seconds [of "hw_alarm tg_reset" 7]
  by (auto simp: hw_alarm_def tg_reset_def tg_inv_def)

text \<open>C29: A second trigger while the timer runs reads the same latched counter value as the first,
  because nothing copies the running counter in between: the alarm does not move, and the test is
  not extended.\<close>

theorem retrigger_does_not_extend:
  assumes "tg_inv s"
  shows "\<exists>s1 s2. eve_timer_trigger base_clk sec s = Some s1 \<and>
    eve_timer_trigger base_clk sec (hw_elapse n s1) = Some s2 \<and>
    alarm_value (hw_timers s2 ! 0) = alarm_value (hw_timers s1 ! 0) \<and>
    counter (hw_timers s2 ! 0) = counter (hw_timers s1 ! 0) + n"
proof -
  obtain s1 where 1: "eve_timer_trigger base_clk sec s = Some s1" "tg_inv s1" "counter_en (hw_timers s1 ! 0)"
    "alarm_value (hw_timers s1 ! 0) = cnt_value (hw_timers s ! 0) + timer_ticks base_clk sec"
    "cnt_value (hw_timers s1 ! 0) = cnt_value (hw_timers s ! 0)"
    using trigger_effect [OF assms] by blast
  have run: "hw_timers (hw_elapse n s1) ! 0 = (hw_timers s1 ! 0)\<lparr>counter := counter (hw_timers s1 ! 0) + n\<rparr>"
    "tg_inv (hw_elapse n s1)"
    using 1(2,3) by (simp_all add: hw_elapse_def tg_inv_def)
  have "cnt_value (hw_timers (hw_elapse n s1) ! 0) = cnt_value (hw_timers s1 ! 0)"
    by (simp add: run(1) cnt_value_def)
  then show ?thesis
    using trigger_effect [OF run(2), of base_clk sec] 1 run(1) by auto
qed

theorem retrigger_does_not_extend_witness:
  "\<exists>s1 s2. eve_timer_trigger 80000000 (dbl_of_nat 60) tg_reset = Some s1 \<and>
     eve_timer_trigger 80000000 (dbl_of_nat 60) (hw_elapse 250000000 s1) = Some s2 \<and>
     alarm_value (hw_timers s2 ! 0) = alarm_value (hw_timers s1 ! 0)"
  using retrigger_does_not_extend [OF tg_inv_reset, of 80000000 "dbl_of_nat 60" 250000000] by blast

end
