(* ===== verification/Lamp_Interface.thy ===== *)
theory Lamp_Interface
  imports Prelude
begin

text \<open>
  The contract of the emergency light's test switch, as the Azure task (commands), the timer
  event task and the LED task (the manager) use it. \<open>lit\<close> says that the switch is on,
  \<open>ended\<close> that the time of the test is over. The model of \<^verbatim>\<open>gpio_ctrl.c\<close> interprets it.
\<close>

datatype lamp_event = Cmd_On | Cmd_Off | Timer_Done | Manager_Tick

fun lamp_step ::
  "(bool \<Rightarrow> 's \<Rightarrow> 's option) \<Rightarrow> ('s \<Rightarrow> 's option) \<Rightarrow> ('s \<Rightarrow> 's option) \<Rightarrow> lamp_event \<Rightarrow> 's \<Rightarrow> 's option" where
  "lamp_step button expire manager Cmd_On s = button True s"
| "lamp_step button expire manager Cmd_Off s = button False s"
| "lamp_step button expire manager Timer_Done s = expire s"
| "lamp_step button expire manager Manager_Tick s = manager s"

fun lamp_run ::
  "(bool \<Rightarrow> 's \<Rightarrow> 's option) \<Rightarrow> ('s \<Rightarrow> 's option) \<Rightarrow> ('s \<Rightarrow> 's option) \<Rightarrow> lamp_event list \<Rightarrow> 's \<Rightarrow> 's option" where
  "lamp_run button expire manager [] s = Some s"
| "lamp_run button expire manager (e # es) s =
     Option.bind (lamp_step button expire manager e s) (lamp_run button expire manager es)"

text \<open>The same events on the pair of the two observations.\<close>

fun lamp_spec :: "lamp_event \<Rightarrow> bool \<times> bool \<Rightarrow> bool \<times> bool" where
  "lamp_spec Cmd_On (l, e) = (True, False)"
| "lamp_spec Cmd_Off (l, e) = (False, e)"
| "lamp_spec Timer_Done (l, e) = (l, True)"
| "lamp_spec Manager_Tick (l, e) = (l \<and> \<not> e, e)"

lemma lamp_spec_stays_lit:
  "set es \<subseteq> {Cmd_On, Manager_Tick} \<Longrightarrow> fold lamp_spec es (True, False) = (True, False)"
  by (induction es) auto

lemma lamp_spec_ended:
  "Cmd_On \<notin> set es \<Longrightarrow> \<exists>l'. fold lamp_spec es (l, True) = (l', True) \<and> (l' \<longrightarrow> l \<and> Manager_Tick \<notin> set es)"
proof (induction es arbitrary: l)
  case (Cons e es)
  obtain l1 where l1: "lamp_spec e (l, True) = (l1, True)" "l1 \<longrightarrow> l \<and> e \<noteq> Manager_Tick"
    using Cons.prems by (cases e) auto
  obtain l' where "fold lamp_spec es (l1, True) = (l', True)" "l' \<longrightarrow> l1 \<and> Manager_Tick \<notin> set es"
    using Cons.IH [of l1] Cons.prems by auto
  then show ?case using l1 by auto
qed simp

locale test_lamp =
  fixes inv :: "'s \<Rightarrow> bool"
    and lit :: "'s \<Rightarrow> bool"
    and ended :: "'s \<Rightarrow> bool"
    and button :: "bool \<Rightarrow> 's \<Rightarrow> 's option"
    and expire :: "'s \<Rightarrow> 's option"
    and manager :: "'s \<Rightarrow> 's option"
  assumes button_on: "inv s \<Longrightarrow> \<exists>s'. button True s = Some s' \<and> inv s' \<and> lit s' \<and> \<not> ended s'"
    and button_off: "inv s \<Longrightarrow> \<exists>s'. button False s = Some s' \<and> inv s' \<and> \<not> lit s' \<and> ended s' = ended s"
    and expire_ended: "inv s \<Longrightarrow> \<exists>s'. expire s = Some s' \<and> inv s' \<and> ended s' \<and> lit s' = lit s"
    and manager_switches_off: "inv s \<Longrightarrow> \<exists>s'. manager s = Some s' \<and> inv s' \<and>
      lit s' = (lit s \<and> \<not> ended s) \<and> ended s' = ended s"
begin

lemma step_refines:
  assumes "inv s"
  shows "\<exists>s'. lamp_step button expire manager e s = Some s' \<and> inv s' \<and>
    (lit s', ended s') = lamp_spec e (lit s, ended s)"
  using button_on [OF assms] button_off [OF assms] expire_ended [OF assms] manager_switches_off [OF assms]
  by (cases e) auto

theorem run_refines:
  "inv s \<Longrightarrow> \<exists>s'. lamp_run button expire manager es s = Some s' \<and> inv s' \<and>
    (lit s', ended s') = fold lamp_spec es (lit s, ended s)"
proof (induction es arbitrary: s)
  case (Cons e es)
  obtain s1 where 1: "lamp_step button expire manager e s = Some s1" "inv s1"
    "(lit s1, ended s1) = lamp_spec e (lit s, ended s)"
    using step_refines [OF Cons.prems] by blast
  then show ?case using Cons.IH [OF 1(2)] by auto
qed simp

theorem stays_lit:
  assumes "inv s" "set es \<subseteq> {Cmd_On, Manager_Tick}"
  shows "\<exists>s'. lamp_run button expire manager (Cmd_On # es) s = Some s' \<and> inv s' \<and> lit s'"
  using run_refines [OF assms(1), of "Cmd_On # es"] lamp_spec_stays_lit [OF assms(2)] by auto

theorem goes_off:
  assumes "inv s" "Cmd_On \<notin> set es" "Manager_Tick \<in> set es"
  shows "\<exists>s'. lamp_run button expire manager (es0 @ Timer_Done # es) s = Some s' \<and> inv s' \<and> \<not> lit s'"
proof -
  obtain l e where le: "fold lamp_spec es0 (lit s, ended s) = (l, e)" by force
  show ?thesis
    using run_refines [OF assms(1), of "es0 @ Timer_Done # es"] lamp_spec_ended [OF assms(2), of l] assms(3) le
    by auto
qed

end

end
