(* ===== verification/Gpio_Ctrl.thy ===== *)
theory Gpio_Ctrl
  imports Timer_Group Lamp_Interface
begin

text \<open>
  The LEDs and the emergency light's test switch of \<^verbatim>\<open>main/gpio_ctrl.c\<close>. The state \<open>el_state\<close>
  holds the timer, the output levels of the pins and the static \<open>status_el_gi\<close>; the functions
  of the file run in the LED task (\<open>led_flash_control\<close>) and in the Azure task (the button).
\<close>

section \<open>State and operations\<close>

definition GPIO_OUTPUT_IO_0 :: nat where "GPIO_OUTPUT_IO_0 = 0"
definition GPIO_OUTPUT_IO_1 :: nat where "GPIO_OUTPUT_IO_1 = 4"
definition GPIO_OUTPUT_IO_2 :: nat where "GPIO_OUTPUT_IO_2 = 16"
definition GPIO_OUTPUT_IO_TEST_BUTTON :: nat where "GPIO_OUTPUT_IO_TEST_BUTTON = 2"
definition TIMER_EL_TEST_TIMEOUT_SEC :: nat where "TIMER_EL_TEST_TIMEOUT_SEC = 60"

definition GPIO_OUTPUT_PIN_SEL :: u64 where
  "GPIO_OUTPUT_PIN_SEL = push_bit GPIO_OUTPUT_IO_0 1 OR push_bit GPIO_OUTPUT_IO_1 1 OR
     push_bit GPIO_OUTPUT_IO_2 1 OR push_bit GPIO_OUTPUT_IO_TEST_BUTTON 1"

lemmas gpio_pins = GPIO_OUTPUT_IO_0_def GPIO_OUTPUT_IO_1_def GPIO_OUTPUT_IO_2_def
  GPIO_OUTPUT_IO_TEST_BUTTON_def

record el_state =
  tg :: tg_state
  gpio_out :: "nat \<Rightarrow> u32"
  gpio_outputs :: u64
  status_el_gi :: u8

definition gpio_set_level :: "nat \<Rightarrow> u32 \<Rightarrow> el_state \<Rightarrow> el_state" where
  "gpio_set_level pin v s = s\<lparr>gpio_out := (gpio_out s)(pin := v)\<rparr>"

text \<open>The configuration makes the four pins outputs; the driver keeps their levels.\<close>

definition gpio_ini :: "el_state \<Rightarrow> el_state" where
  "gpio_ini s = s\<lparr>gpio_outputs := gpio_outputs s OR GPIO_OUTPUT_PIN_SEL, status_el_gi := 0\<rparr>"

definition el_reset :: el_state where
  "el_reset = \<lparr>tg = tg_reset, gpio_out = (\<lambda>_. 0), gpio_outputs = 0, status_el_gi = 0\<rparr>"

definition app_emergency_light_test_button :: "nat \<Rightarrow> bool \<Rightarrow> el_state \<Rightarrow> el_state option" where
  "app_emergency_light_test_button base_clk on s =
     (if on then do {
        let s = gpio_set_level GPIO_OUTPUT_IO_TEST_BUTTON 1 s;
        let s = s\<lparr>status_el_gi := 1\<rparr>;
        t \<leftarrow> eve_timer_trigger base_clk (dbl_of_nat TIMER_EL_TEST_TIMEOUT_SEC) (tg s);
        Some (s\<lparr>tg := t\<rparr>)
      }
      else do {
        let s = gpio_set_level GPIO_OUTPUT_IO_TEST_BUTTON 0 s;
        Some (s\<lparr>status_el_gi := 0\<rparr>)
      })"

definition app_emergency_light_read_status :: "el_state \<Rightarrow> u8" where
  "app_emergency_light_read_status s = status_el_gi s"

definition app_el_test_manager :: "nat \<Rightarrow> el_state \<Rightarrow> el_state option" where
  "app_el_test_manager base_clk s =
     (if end_of_test_enable_check (tg s) then app_emergency_light_test_button base_clk False s
      else Some s)"

text \<open>
  One round of the LED task. The three connection checks are read one after the other; the
  round returns the levels of the 100 ms in which an LED may be lit (its pin low), and the state
  after the manager ran. The counter is a non-negative \<open>int\<close>.
\<close>

definition led_on_phase :: "nat \<Rightarrow> bool \<Rightarrow> bool \<Rightarrow> bool \<Rightarrow> el_state \<Rightarrow> el_state" where
  "led_on_phase cnt ble wifi iothub s =
     (let s = (if ble \<and> cnt mod 3 = 0 then gpio_set_level GPIO_OUTPUT_IO_0 0 s else s);
          s = (if wifi \<and> cnt mod 3 = 1 then gpio_set_level GPIO_OUTPUT_IO_1 0 s else s);
          s = (if \<not> iothub \<and> cnt mod 3 = 2 then gpio_set_level GPIO_OUTPUT_IO_2 0 s else s)
      in s)"

definition led_off_phase :: "el_state \<Rightarrow> el_state" where
  "led_off_phase s =
     gpio_set_level GPIO_OUTPUT_IO_2 1 (gpio_set_level GPIO_OUTPUT_IO_1 1 (gpio_set_level GPIO_OUTPUT_IO_0 1 s))"

definition led_flash_lights :: "nat \<Rightarrow> bool \<Rightarrow> bool \<Rightarrow> bool \<Rightarrow> el_state \<Rightarrow> (nat \<Rightarrow> u32) \<times> nat \<times> el_state" where
  "led_flash_lights cnt ble wifi iothub s =
     (let s1 = led_on_phase cnt ble wifi iothub s; s2 = led_off_phase s1; cnt = cnt + 1 in (gpio_out s1, cnt, s2))"

definition led_flash_iteration ::
  "nat \<Rightarrow> nat \<Rightarrow> bool \<Rightarrow> bool \<Rightarrow> bool \<Rightarrow> el_state \<Rightarrow> ((nat \<Rightarrow> u32) \<times> nat \<times> el_state) option" where
  "led_flash_iteration base_clk cnt ble wifi iothub s =
     (let (levels, cnt, s) = led_flash_lights cnt ble wifi iothub s
      in map_option (\<lambda>s. (levels, cnt, s)) (app_el_test_manager base_clk s))"

lemmas el_defs = gpio_set_level_def app_emergency_light_test_button_def app_el_test_manager_def
  end_of_test_enable_check_def led_on_phase_def led_off_phase_def led_flash_lights_def led_flash_iteration_def gpio_pins

text \<open>The alarm of timer 0 as the light sees it: the interrupt, then the event task until the
  queue of events is empty.\<close>

fun drain_events :: "(nat \<Rightarrow> hw_timer list \<Rightarrow> hw_timer list) \<Rightarrow> nat \<Rightarrow> tg_state \<Rightarrow> tg_state" where
  "drain_events get_cv 0 t = t"
| "drain_events get_cv (Suc n) t = drain_events get_cv n (timer_example_evt_task get_cv t)"

definition el_alarm ::
  "nat \<Rightarrow> (nat \<Rightarrow> hw_timer list \<Rightarrow> hw_timer list) \<Rightarrow> el_state \<Rightarrow> el_state option" where
  "el_alarm base_clk get_cv s =
     map_option (\<lambda>t. s\<lparr>tg := drain_events get_cv (length (timer_queue t)) t\<rparr>)
       (timer_group0_isr base_clk 0 (hw_alarm (tg s)))"

section \<open>Invariant\<close>

text \<open>The pin and the status agree, and every queued event is of timer 0 (timer 1 is never
  started).\<close>

definition el_inv :: "el_state \<Rightarrow> bool" where
  "el_inv s \<longleftrightarrow> tg_inv (tg s) \<and> (\<forall>e \<in> set (evt_pending (tg s)). timer_idx e = 0) \<and>
     status_el_gi s \<in> {0, 1} \<and> gpio_out s GPIO_OUTPUT_IO_TEST_BUTTON = ucast (status_el_gi s)"

definition el_lit :: "el_state \<Rightarrow> bool" where
  "el_lit s \<longleftrightarrow> gpio_out s GPIO_OUTPUT_IO_TEST_BUTTON = 1"

definition el_ended :: "el_state \<Rightarrow> bool" where
  "el_ended s \<longleftrightarrow> end_of_test (tg s)"

lemma el_inv_reset: "el_inv (gpio_ini el_reset)"
  by (simp add: el_inv_def gpio_ini_def el_reset_def tg_inv_reset) (simp add: tg_reset_def evt_pending_def)

lemma el_lit_status: "el_inv s \<Longrightarrow> el_lit s \<longleftrightarrow> status_el_gi s = 1"
  by (auto simp: el_inv_def el_lit_def)

lemma button_on_ok:
  assumes "el_inv s"
  shows "\<exists>s'. app_emergency_light_test_button base_clk True s = Some s' \<and> el_inv s' \<and> el_lit s' \<and> \<not> el_ended s'"
  using trigger_effect [of "tg s" base_clk "dbl_of_nat TIMER_EL_TEST_TIMEOUT_SEC"] assms
  by (auto simp: el_defs el_inv_def el_lit_def el_ended_def evt_pending_def)

lemma button_off_ok:
  assumes "el_inv s"
  shows "\<exists>s'. app_emergency_light_test_button base_clk False s = Some s' \<and> el_inv s' \<and> \<not> el_lit s' \<and>
    el_ended s' = el_ended s \<and> tg s' = tg s"
  using assms by (auto simp: el_defs el_inv_def el_lit_def el_ended_def)

lemma manager_ok:
  assumes "el_inv s"
  shows "\<exists>s'. app_el_test_manager base_clk s = Some s' \<and> el_inv s' \<and>
    el_lit s' = (el_lit s \<and> \<not> el_ended s) \<and> el_ended s' = el_ended s"
  using button_off_ok [OF assms] assms
  by (cases "end_of_test (tg s)") (auto simp: app_el_test_manager_def end_of_test_enable_check_def el_ended_def)

lemma lights_ok:
  assumes "led_flash_lights cnt ble wifi iothub s = (levels, n, s')"
  shows "tg s' = tg s" "el_inv s' = el_inv s" "el_lit s' = el_lit s" "el_ended s' = el_ended s" "status_el_gi s' = status_el_gi s"
proof -
  have s': "s' = led_off_phase (led_on_phase cnt ble wifi iothub s)" using assms by (simp add: led_flash_lights_def Let_def)
  show t: "tg s' = tg s" "status_el_gi s' = status_el_gi s"
    by (simp_all add: s' led_on_phase_def led_off_phase_def gpio_set_level_def Let_def)
  have "gpio_out s' GPIO_OUTPUT_IO_TEST_BUTTON = gpio_out s GPIO_OUTPUT_IO_TEST_BUTTON"
    by (simp add: s' led_on_phase_def led_off_phase_def gpio_set_level_def gpio_pins Let_def)
  then show "el_inv s' = el_inv s" "el_lit s' = el_lit s" "el_ended s' = el_ended s"
    by (simp_all only: el_inv_def el_lit_def el_ended_def t)
qed

lemma drain_events_task [simp]: "evt_task (drain_events get_cv n t) = evt_task t"
  by (induction n arbitrary: t)
    (simp_all add: timer_example_evt_task_def evt_time_def evt_flag_def split: list.splits)

lemma drain_events_ended:
  assumes "\<And>i ts. length (get_cv i ts) = length ts"
  shows "tg_inv t \<Longrightarrow> n = length (timer_queue t) \<Longrightarrow> \<forall>e \<in> set (timer_queue t). timer_idx e = 0 \<Longrightarrow>
    tg_inv (drain_events get_cv n t) \<and> timer_queue (drain_events get_cv n t) = [] \<and>
    (end_of_test (drain_events get_cv n t) \<longleftrightarrow> end_of_test t \<or> timer_queue t \<noteq> [])"
proof (induction n arbitrary: t)
  case (Suc n)
  let ?t = "timer_example_evt_task get_cv t"
  obtain e es where q: "timer_queue t = e # es" using Suc.prems(2) by (cases "timer_queue t") auto
  have "end_of_test ?t" "tg_inv ?t" "timer_queue ?t = es"
    using evt_task_effect [where get_cv = get_cv, OF Suc.prems(1) assms] q Suc.prems(3) by auto
  then show ?case using Suc.IH [of ?t] Suc.prems q by simp
qed simp

lemma alarm_ok:
  assumes "el_inv s" "\<And>i ts. length (get_cv i ts) = length ts"
  shows "\<exists>s'. el_alarm base_clk get_cv s = Some s' \<and> el_inv s' \<and> el_ended s' \<and> el_lit s' = el_lit s"
proof -
  let ?t = "hw_alarm (tg s)"
  have "tg_inv ?t" "int_st ?t AND 1 \<noteq> 0"
    using assms(1) by (auto simp: el_inv_def tg_inv_def hw_alarm_def or_one_and_one)
  then obtain t where t: "timer_group0_isr base_clk 0 ?t = Some t" "tg_inv t" "evt_task t = evt_task ?t"
    "timer_queue t = (if length (timer_queue ?t) < TIMER_QUEUE_LEN
      then timer_queue ?t @ [\<lparr>evt_type = 0, timer_group = 0, timer_idx = 0,
        timer_counter_value = Timer_Group.counter (hw_timers ?t ! 0)\<rparr>] else timer_queue ?t)"
    using isr_effect [of ?t base_clk] by blast
  have ne: "timer_queue t \<noteq> []" using t(4) by (auto simp: TIMER_QUEUE_LEN_def)
  have idx: "\<forall>e \<in> set (timer_queue t). timer_idx e = 0"
    using t(4) assms(1) by (auto simp: el_inv_def hw_alarm_def evt_pending_def)
  show ?thesis
    using drain_events_ended [where get_cv = get_cv, OF assms(2) t(2) refl idx] ne t(1,3) assms(1)
    by (auto simp: el_alarm_def el_inv_def el_lit_def el_ended_def evt_pending_def hw_alarm_def)
qed

section \<open>The light implements the interface\<close>

text \<open>The driver call of the event task returns the timers it was given.\<close>

definition get_cv_id :: "nat \<Rightarrow> hw_timer list \<Rightarrow> hw_timer list" where
  "get_cv_id i ts = (if i < length ts then ts[i := hw_update (ts ! i)] else ts)"

lemma length_get_cv_id: "length (get_cv_id i ts) = length ts"
  by (simp add: get_cv_id_def)

text \<open>The same on its own: the interrupt, when the armed timer reaches its alarm, and a step of the event
  task.\<close>

definition el_armed :: "el_state \<Rightarrow> bool" where
  "el_armed s \<longleftrightarrow> (let t = hw_timers (tg s) ! 0 in counter_en t \<and> alarm_ready t)"

definition el_isr :: "nat \<Rightarrow> el_state \<Rightarrow> el_state option" where
  "el_isr base_clk s =
     (if el_armed s then map_option (\<lambda>t. s\<lparr>tg := t\<rparr>) (timer_group0_isr base_clk 0 (hw_alarm (tg s))) else Some s)"

definition el_evt :: "el_state \<Rightarrow> el_state" where
  "el_evt s = s\<lparr>tg := evt_step get_cv_id (tg s)\<rparr>"

text \<open>The interrupt never sets the flag, and leaves an event to be handled.\<close>

lemma isr_ok:
  assumes "el_inv s"
  shows "\<exists>s'. el_isr base_clk s = Some s' \<and> el_inv s' \<and> el_lit s' = el_lit s \<and> el_ended s' = el_ended s \<and>
    gpio_out s' = gpio_out s \<and> status_el_gi s' = status_el_gi s \<and> evt_task (tg s') = evt_task (tg s) \<and>
    (el_armed s \<longrightarrow> timer_queue (tg s') \<noteq> [] \<and> (timer_queue (tg s) = [] \<longrightarrow> length (timer_queue (tg s')) = 1) \<and> alarm_ready (hw_timers (tg s') ! 0) \<and> \<not> counter_en (hw_timers (tg s') ! 0) \<and>
       cnt_value (hw_timers (tg s') ! 0) = counter (hw_timers (tg s) ! 0) \<and>
       counter (hw_timers (tg s') ! 0) = counter (hw_timers (tg s) ! 0))"
proof (cases "el_armed s")
  case True
  let ?t = "hw_alarm (tg s)"
  have t0: "hw_timers ?t ! 0 = (hw_timers (tg s) ! 0)\<lparr>alarm_en := False\<rparr>"
    using assms by (cases "hw_timers (tg s)") (auto simp: el_inv_def tg_inv_def hw_alarm_def)
  have "tg_inv ?t" "int_st ?t AND 1 \<noteq> 0"
    using assms by (auto simp: el_inv_def tg_inv_def hw_alarm_def or_one_and_one)
  from isr_effect [OF this, of base_clk] obtain t where t: "timer_group0_isr base_clk 0 ?t = Some t" "tg_inv t"
    "end_of_test t = end_of_test ?t" "evt_task t = evt_task ?t" "\<not> counter_en (hw_timers t ! 0)" "alarm_en (hw_timers t ! 0)"
    "intr_en (hw_timers t ! 0) = intr_en (hw_timers ?t ! 0)" "isr_arg (hw_timers t ! 0) = isr_arg (hw_timers ?t ! 0)"
    "cnt_value (hw_timers t ! 0) = counter (hw_timers ?t ! 0)" "counter (hw_timers t ! 0) = counter (hw_timers ?t ! 0)"
    "timer_queue t = (if length (timer_queue ?t) < TIMER_QUEUE_LEN
      then timer_queue ?t @ [\<lparr>evt_type = 0, timer_group = 0, timer_idx = 0,
        timer_counter_value = counter (hw_timers ?t ! 0)\<rparr>] else timer_queue ?t)"
    by blast
  have ready: "alarm_ready (hw_timers t ! 0)"
    using True t(6-8) by (simp add: el_armed_def alarm_ready_def t0 Let_def)
  have ne: "timer_queue t \<noteq> []" "timer_queue (tg s) = [] \<Longrightarrow> length (timer_queue t) = 1"
    using t(11) by (auto simp: TIMER_QUEUE_LEN_def hw_alarm_def)
  have "\<forall>e \<in> set (evt_pending t). timer_idx e = 0"
    using t(4,11) assms by (auto simp: el_inv_def hw_alarm_def evt_pending_def)
  then show ?thesis
    using True ne ready t(1-5,9,10) assms
    by (simp add: el_isr_def el_inv_def el_lit_def el_ended_def hw_alarm_def [of "tg s", THEN arg_cong, of evt_task]
        hw_alarm_def [of "tg s", THEN arg_cong, of end_of_test] t0)
qed (use assms in \<open>simp add: el_isr_def\<close>)

lemma evt_ok:
  assumes "el_inv s"
  shows "el_inv (el_evt s)" and "el_lit (el_evt s) = el_lit s" and "el_ended s \<Longrightarrow> el_ended (el_evt s)"
proof -
  have "set (evt_pending (evt_step get_cv_id (tg s))) \<subseteq> set (evt_pending (tg s))" by (rule evt_step_pending)
  then show "el_inv (el_evt s)"
    using assms evt_step_inv [of "tg s" get_cv_id] length_get_cv_id by (auto simp: el_inv_def el_evt_def)
  show "el_lit (el_evt s) = el_lit s" by (simp add: el_lit_def el_evt_def)
  show "el_ended s \<Longrightarrow> el_ended (el_evt s)"
    by (auto simp: el_ended_def el_evt_def evt_step_def evt_time_def evt_flag_def split: evt_pc.splits list.splits)
qed

lemma evt_idle: "evt_pending (tg s) = [] \<Longrightarrow> el_evt s = s"
  by (simp add: el_evt_def evt_step_idle)

interpretation light: test_lamp el_inv el_lit el_ended "app_emergency_light_test_button base_clk"
  "el_alarm base_clk get_cv_id" "app_el_test_manager base_clk" for base_clk
proof unfold_locales
  fix s
  assume inv: "el_inv s"
  show "\<exists>s'. app_emergency_light_test_button base_clk True s = Some s' \<and> el_inv s' \<and> el_lit s' \<and> \<not> el_ended s'"
    by (rule button_on_ok [OF inv])
  show "\<exists>s'. app_emergency_light_test_button base_clk False s = Some s' \<and> el_inv s' \<and> \<not> el_lit s' \<and>
      el_ended s' = el_ended s"
    using button_off_ok [OF inv] by blast
  show "\<exists>s'. el_alarm base_clk get_cv_id s = Some s' \<and> el_inv s' \<and> el_ended s' \<and> el_lit s' = el_lit s"
    by (rule alarm_ok [OF inv length_get_cv_id])
  show "\<exists>s'. app_el_test_manager base_clk s = Some s' \<and> el_inv s' \<and>
      el_lit s' = (el_lit s \<and> \<not> el_ended s) \<and> el_ended s' = el_ended s"
    by (rule manager_ok [OF inv])
qed

section \<open>Properties\<close>

text \<open>C12: Any sequence of commands, timer alarms (each with the handling of its event) and runs of the manager, from
  the start of the program, runs without leaving an array, and the light does what the interface says: a command switches
  it, an alarm ends the test, and the manager switches the light off after the end of the test.
  The test pin always shows the status that the ADC task reports.\<close>

theorem light_follows_commands:
  "\<exists>s. lamp_run (app_emergency_light_test_button base_clk) (el_alarm base_clk get_cv_id)
      (app_el_test_manager base_clk) es (gpio_ini el_reset) = Some s \<and>
    (el_lit s, el_ended s) = fold lamp_spec es (False, True) \<and>
    gpio_out s GPIO_OUTPUT_IO_TEST_BUTTON = ucast (app_emergency_light_read_status s)"
proof -
  have "el_lit (gpio_ini el_reset) = False" "el_ended (gpio_ini el_reset) = True"
    by (simp_all add: el_lit_def el_ended_def gpio_ini_def el_reset_def tg_reset_def)
  then show ?thesis
    using light.run_refines [OF el_inv_reset, of base_clk es]
    by (auto simp: el_inv_def app_emergency_light_read_status_def)
qed

text \<open>A test ends by itself: if the timer's alarm is followed by at least one run of the manager and
  by no further \<^verbatim>\<open>TEST ON\<close>, the light is off and its status is 0.\<close>

theorem light_goes_off:
  assumes "Cmd_On \<notin> set es" "Manager_Tick \<in> set es"
  shows "\<exists>s. lamp_run (app_emergency_light_test_button base_clk) (el_alarm base_clk get_cv_id)
      (app_el_test_manager base_clk) (es0 @ Timer_Done # es) (gpio_ini el_reset) = Some s \<and>
    gpio_out s GPIO_OUTPUT_IO_TEST_BUTTON = 0 \<and> status_el_gi s = 0"
proof -
  obtain s where s: "lamp_run (app_emergency_light_test_button base_clk) (el_alarm base_clk get_cv_id)
      (app_el_test_manager base_clk) (es0 @ Timer_Done # es) (gpio_ini el_reset) = Some s" "el_inv s" "\<not> el_lit s"
    using light.goes_off [OF el_inv_reset assms] by blast
  then have "status_el_gi s = 0" using el_lit_status [OF s(2)] by (auto simp: el_inv_def)
  then show ?thesis using s by (auto simp: el_inv_def)
qed

theorem light_goes_off_witness:
  "\<exists>s. lamp_run (app_emergency_light_test_button 80000000) (el_alarm 80000000 get_cv_id)
      (app_el_test_manager 80000000) [Cmd_On, Manager_Tick, Timer_Done, Manager_Tick] (gpio_ini el_reset) = Some s \<and>
    status_el_gi s = 0"
  using light_goes_off [of "[Manager_Tick]" 80000000 "[Cmd_On, Manager_Tick]"] by auto

text \<open>A test is not cut short: after \<^verbatim>\<open>TEST ON\<close>, and until the timer's alarm or \<^verbatim>\<open>TEST OFF\<close>, the
  manager never switches the light off.\<close>

theorem light_stays_lit:
  assumes "el_inv s" "set es \<subseteq> {Cmd_On, Manager_Tick}"
  shows "\<exists>s'. lamp_run (app_emergency_light_test_button base_clk) (el_alarm base_clk get_cv_id)
      (app_el_test_manager base_clk) (Cmd_On # es) s = Some s' \<and> el_inv s' \<and>
    gpio_out s' GPIO_OUTPUT_IO_TEST_BUTTON = 1"
  using light.stays_lit [OF assms] by (auto simp: el_lit_def)

theorem light_stays_lit_witness:
  "\<exists>s'. lamp_run (app_emergency_light_test_button 80000000) (el_alarm 80000000 get_cv_id)
      (app_el_test_manager 80000000) [Cmd_On, Manager_Tick, Manager_Tick] (gpio_ini el_reset) = Some s' \<and>
    gpio_out s' GPIO_OUTPUT_IO_TEST_BUTTON = 1"
  using light_stays_lit [OF el_inv_reset, of "[Manager_Tick, Manager_Tick]" 80000000] by auto

text \<open>In a round of the LED task only the LED of the round's slot can be switched on (its pin low),
  and only under its condition; after the round all three are off, and the light is on only if it
  was on and its test has not ended.\<close>

theorem led_round:
  assumes "el_inv s"
  shows "\<exists>levels s'. led_flash_iteration base_clk cnt ble wifi iothub s = Some (levels, cnt + 1, s') \<and> el_inv s' \<and>
    levels GPIO_OUTPUT_IO_0 = (if ble \<and> cnt mod 3 = 0 then 0 else gpio_out s GPIO_OUTPUT_IO_0) \<and>
    levels GPIO_OUTPUT_IO_1 = (if wifi \<and> cnt mod 3 = 1 then 0 else gpio_out s GPIO_OUTPUT_IO_1) \<and>
    levels GPIO_OUTPUT_IO_2 = (if \<not> iothub \<and> cnt mod 3 = 2 then 0 else gpio_out s GPIO_OUTPUT_IO_2) \<and>
    gpio_out s' GPIO_OUTPUT_IO_0 = 1 \<and> gpio_out s' GPIO_OUTPUT_IO_1 = 1 \<and> gpio_out s' GPIO_OUTPUT_IO_2 = 1 \<and>
    el_lit s' = (el_lit s \<and> \<not> el_ended s)"
proof -
  let ?s1 = "led_on_phase cnt ble wifi iothub s" let ?s2 = "led_off_phase ?s1"
  have inv: "el_inv ?s2" "el_lit ?s2 = el_lit s" "el_ended ?s2 = el_ended s"
    using assms by (simp_all add: el_inv_def el_lit_def el_ended_def led_on_phase_def led_off_phase_def
        gpio_set_level_def gpio_pins Let_def)
  obtain s' where s': "app_el_test_manager base_clk ?s2 = Some s'" "el_inv s'" "el_lit s' = (el_lit s \<and> \<not> el_ended s)"
    using manager_ok [OF inv(1), of base_clk] inv(2,3) by auto
  have pins: "gpio_out s' p = 1" if "p \<in> {0, 4, 16}" for p
    using s'(1) that
    by (auto simp: app_el_test_manager_def app_emergency_light_test_button_def led_off_phase_def
        gpio_set_level_def gpio_pins Let_def split: if_splits)
  show ?thesis
    using s' pins
    by (auto simp: led_flash_iteration_def led_flash_lights_def led_on_phase_def gpio_set_level_def gpio_pins Let_def)
qed

theorem led_round_witness:
  "\<exists>levels s'. led_flash_iteration 80000000 5 True True False (gpio_ini el_reset) = Some (levels, 6, s') \<and>
     levels GPIO_OUTPUT_IO_2 = 0 \<and> gpio_out s' GPIO_OUTPUT_IO_2 = 1"
  using led_round [OF el_inv_reset, of 80000000 5 True True False] by auto

end
