(* ===== verification/C_Time.thy ===== *)
theory C_Time
  imports Prelude
begin

text \<open>
  What the program uses of \<^verbatim>\<open>stdio.h\<close> and \<^verbatim>\<open>time.h\<close>: decimal output, the broken-down time of the
  Gregorian calendar, local time under the POSIX rule \<^verbatim>\<open>AEST-10AEDT,M10.1.0,M4.1.0/3\<close> that the
  code sets, and \<^verbatim>\<open>strftime\<close> with the format of the message. A \<^verbatim>\<open>time_t\<close> is a \<open>nat\<close>: the clock of the
  board starts at zero and is only ever set forward.
\<close>

section \<open>Decimal output\<close>

definition digit :: "nat \<Rightarrow> char" where
  "digit n = ''0123456789'' ! n"

fun dec_digits :: "nat \<Rightarrow> string" where
  "dec_digits n = (if n < 10 then [digit n] else dec_digits (n div 10) @ [digit (n mod 10)])"

declare dec_digits.simps [simp del]

text \<open>\<^verbatim>\<open>%02d\<close> of a number below 100.\<close>

definition two_digits :: "nat \<Rightarrow> string" where
  "two_digits n = [digit (n div 10), digit (n mod 10)]"

definition digit_value :: "char \<Rightarrow> nat option" where
  "digit_value c = (if 48 \<le> (of_char c :: nat) \<and> (of_char c :: nat) \<le> 57 then Some (of_char c - 48) else None)"

fun read_digits :: "nat \<Rightarrow> string \<Rightarrow> nat option" where
  "read_digits acc [] = Some acc"
| "read_digits acc (c # cs) = Option.bind (digit_value c) (\<lambda>d. read_digits (10 * acc + d) cs)"

lemma digit_value_digit: "n < 10 \<Longrightarrow> digit_value (digit n) = Some n"
proof -
  assume "n < 10"
  then have "n \<in> {0, 1, 2, 3, 4, 5, 6, 7, 8, 9}" by auto
  then show ?thesis by (auto simp: digit_def digit_value_def)
qed

lemma read_two_digits: "n < 100 \<Longrightarrow> read_digits 0 (two_digits n) = Some n"
  by (simp add: two_digits_def digit_value_digit)

lemma dec_digits_length: "n < 10 ^ k \<Longrightarrow> 0 < k \<Longrightarrow> length (dec_digits n) \<le> k"
proof (induction n arbitrary: k rule: dec_digits.induct)
  case (1 n)
  show ?case
  proof (cases "n < 10")
    case True
    then show ?thesis using "1.prems" by (simp add: dec_digits.simps [of n])
  next
    case False
    with "1.prems" obtain k' where k: "k = Suc k'" "0 < k'" by (cases k; cases "k - 1") auto
    then have "length (dec_digits (n div 10)) \<le> k'" using "1.IH" [OF False] "1.prems" by simp
    then show ?thesis using False k by (simp add: dec_digits.simps [of n])
  qed
qed

lemma dec_digits_4: 
  assumes "1000 \<le> n" "n < 10000"
  shows "length (dec_digits n) = 4" "read_digits 0 (dec_digits n) = Some n"
proof -
  have "dec_digits n = [digit (n div 10 div 10 div 10), digit (n div 10 div 10 mod 10), digit (n div 10 mod 10), digit (n mod 10)]"
    using assms by (auto simp: dec_digits.simps less_eq_div_iff_mult_less_eq div_less_iff_less_mult)
  moreover have "n div 10 div 10 div 10 < 10" using assms(2) by (simp add: div_less_iff_less_mult)
  moreover have "1000 * (n div 10 div 10 div 10) + 100 * (n div 10 div 10 mod 10) + 10 * (n div 10 mod 10) + n mod 10 = n"
    using mult_div_mod_eq [of 10 n] mult_div_mod_eq [of 10 "n div 10"] mult_div_mod_eq [of 10 "n div 10 div 10"]
    by linarith
  ultimately show "length (dec_digits n) = 4" "read_digits 0 (dec_digits n) = Some n"
    by (simp_all add: digit_value_digit)
qed

section \<open>The calendar\<close>

definition leap :: "nat \<Rightarrow> bool" where
  "leap y \<longleftrightarrow> y mod 4 = 0 \<and> (y mod 100 \<noteq> 0 \<or> y mod 400 = 0)"

definition year_days :: "nat \<Rightarrow> nat" where
  "year_days y = (if leap y then 366 else 365)"

definition month_days :: "nat \<Rightarrow> nat list" where
  "month_days y = [31, if leap y then 29 else 28, 31, 30, 31, 30, 31, 31, 30, 31, 30, 31]"

text \<open>The year a day number falls in, counted from the first of January of year \<open>y\<close>, and the day
  in that year.\<close>

function year_from :: "nat \<Rightarrow> nat \<Rightarrow> nat \<times> nat" where
  "year_from y d = (if d < year_days y then (y, d) else year_from (Suc y) (d - year_days y))"
  by pat_completeness auto
termination
  by (relation "measure snd") (auto simp: year_days_def)

declare year_from.simps [simp del]

fun month_from :: "nat list \<Rightarrow> nat \<Rightarrow> nat \<Rightarrow> nat \<times> nat" where
  "month_from [] m d = (m, d)"
| "month_from (l # ls) m d = (if d < l then (m, d) else month_from ls (Suc m) (d - l))"

definition days_before_year :: "nat \<Rightarrow> nat" where
  "days_before_year y = (\<Sum>i \<leftarrow> [1970..<y]. year_days i)"

record tm =
  tm_year :: nat
  tm_mon :: nat
  tm_mday :: nat
  tm_hour :: nat
  tm_min :: nat
  tm_sec :: nat

lemma tm_eta [simp]: "\<lparr>tm_year = tm_year x, tm_mon = tm_mon x, tm_mday = tm_mday x, tm_hour = tm_hour x,
    tm_min = tm_min x, tm_sec = tm_sec x\<rparr> = (x :: tm)"
  by simp

text \<open>As in C, \<open>tm_year\<close> counts from 1900, \<open>tm_mon\<close> from 0 and \<open>tm_mday\<close> from 1.\<close>

definition gmtime_r :: "nat \<Rightarrow> tm" where
  "gmtime_r t =
     (let (y, d) = year_from 1970 (t div 86400);
          (m, d) = month_from (month_days y) 0 d;
          s = t mod 86400
      in \<lparr>tm_year = y - 1900, tm_mon = m, tm_mday = d + 1, tm_hour = s div 3600,
          tm_min = s mod 3600 div 60, tm_sec = s mod 60\<rparr>)"

text \<open>The inverse: the seconds a broken-down UTC time stands for.\<close>

definition timegm :: "tm \<Rightarrow> nat" where
  "timegm x = 86400 * (days_before_year (tm_year x + 1900) +
     sum_list (take (tm_mon x) (month_days (tm_year x + 1900))) + (tm_mday x - 1)) +
     3600 * tm_hour x + 60 * tm_min x + tm_sec x"

lemma days_before_year_Suc: "1970 \<le> y \<Longrightarrow> days_before_year (Suc y) = days_before_year y + year_days y"
  by (simp add: days_before_year_def)

lemma year_from_days:
  "1970 \<le> y \<Longrightarrow> year_from y d = (y', d') \<Longrightarrow>
   y \<le> y' \<and> d' < year_days y' \<and> days_before_year y' + d' = days_before_year y + d"
proof (induction y d rule: year_from.induct)
  case (1 y d)
  show ?case
  proof (cases "d < year_days y")
    case True
    then show ?thesis using "1.prems" by (simp add: year_from.simps [of y d])
  next
    case False
    then have "year_from (Suc y) (d - year_days y) = (y', d')"
      using "1.prems"(2) by (simp add: year_from.simps [of y d])
    then show ?thesis using "1.IH" [OF False] "1.prems"(1) False by (simp add: days_before_year_Suc)
  qed
qed

lemma month_from_days:
  "month_from ls m d = (m', d') \<Longrightarrow> d < sum_list ls \<Longrightarrow>
   m \<le> m' \<and> m' < m + length ls \<and> d' < ls ! (m' - m) \<and> sum_list (take (m' - m) ls) + d' = d"
proof (induction ls m d rule: month_from.induct)
  case (2 l ls m d)
  show ?case
  proof (cases "d < l")
    case False
    then have "Suc m \<le> m' \<and> m' < Suc m + length ls \<and> d' < ls ! (m' - Suc m) \<and>
        sum_list (take (m' - Suc m) ls) + d' = d - l"
      using 2 by simp
    moreover from this have "m' - m = Suc (m' - Suc m)" by linarith
    ultimately show ?thesis using False by auto
  qed (use 2 in simp)
qed simp

lemma sum_month_days: "sum_list (month_days y) = year_days y"
  by (simp add: month_days_def year_days_def)

lemma month_days_le: "m < 12 \<Longrightarrow> month_days y ! m \<le> 31"
proof -
  assume m: "m < 12"
  have "list_all (\<lambda>l. l \<le> 31) (month_days y)" by (simp add: month_days_def)
  moreover have "length (month_days y) = 12" by (simp add: month_days_def)
  ultimately show ?thesis using m by (simp add: list_all_length)
qed

text \<open>The fields are in their ranges, and the conversion back gives the time again.\<close>

lemma year_from_1970_lower: "fst (year_from 1970 d) \<ge> 1970"
  using year_from_days [of 1970 d] by (cases "year_from 1970 d") auto

lemma gmtime_fields:
  "tm_mon (gmtime_r t) < 12 \<and> 1 \<le> tm_mday (gmtime_r t) \<and> tm_mday (gmtime_r t) \<le> 31 \<and>
   tm_hour (gmtime_r t) < 24 \<and> tm_min (gmtime_r t) < 60 \<and> tm_sec (gmtime_r t) < 60 \<and> 70 \<le> tm_year (gmtime_r t)"
  and timegm_gmtime: "timegm (gmtime_r t) = t"
proof -
  obtain y d where y: "year_from 1970 (t div 86400) = (y, d)" by force
  obtain m k where m: "month_from (month_days y) 0 d = (m, k)" by force
  have yd: "1970 \<le> y" "d < year_days y" "days_before_year y + d = t div 86400"
    using year_from_days [OF _ y] by (simp_all add: days_before_year_def)
  have mk: "m < 12" "k < month_days y ! m" "sum_list (take m (month_days y)) + k = d"
    using month_from_days [OF m] yd(2) by (simp_all add: sum_month_days) (simp add: month_days_def)
  have g: "gmtime_r t = \<lparr>tm_year = y - 1900, tm_mon = m, tm_mday = k + 1, tm_hour = t mod 86400 div 3600,
      tm_min = t mod 86400 mod 3600 div 60, tm_sec = t mod 86400 mod 60\<rparr>"
    by (simp add: gmtime_r_def y m Let_def)
  have "k < 31" using mk(1,2) month_days_le [of m y] by linarith
  moreover have "t mod 86400 div 3600 < 24" "t mod 86400 mod 3600 div 60 < 60" "t mod 86400 mod 60 < 60"
    by (simp_all add: less_mult_imp_div_less)
  ultimately show "tm_mon (gmtime_r t) < 12 \<and> 1 \<le> tm_mday (gmtime_r t) \<and> tm_mday (gmtime_r t) \<le> 31 \<and>
      tm_hour (gmtime_r t) < 24 \<and> tm_min (gmtime_r t) < 60 \<and> tm_sec (gmtime_r t) < 60 \<and> 70 \<le> tm_year (gmtime_r t)"
    using mk(1) yd(1) by (simp add: g)
  have split: "3600 * (s div 3600) + 60 * (s mod 3600 div 60) + s mod 60 = s" for s :: nat
  proof -
    have "s mod 3600 mod 60 = s mod 60" by (simp add: mod_mod_cancel)
    then show ?thesis
      using mult_div_mod_eq [of 3600 s] mult_div_mod_eq [of 60 "s mod 3600"] by linarith
  qed
  have "timegm (gmtime_r t) = 86400 * (t div 86400) + (3600 * (t mod 86400 div 3600) +
      60 * (t mod 86400 mod 3600 div 60) + t mod 86400 mod 60)"
    using yd mk by (simp add: g timegm_def add.assoc)
  then show "timegm (gmtime_r t) = t" by (simp only: split mult_div_mod_eq)
qed

text \<open>The year of a time, bounded by the number of days.\<close>

lemma year_from_bound:
  assumes "d < days_before_year (Suc b)" "1970 \<le> b"
  shows "fst (year_from 1970 d) \<le> b"
proof (rule ccontr)
  assume "\<not> fst (year_from 1970 d) \<le> b"
  then obtain y k where y: "year_from 1970 d = (y, k)" "Suc b \<le> y" by (cases "year_from 1970 d") auto
  have "days_before_year y + k = d" using year_from_days [OF _ y(1)] by (simp add: days_before_year_def)
  moreover have "days_before_year (Suc b) \<le> days_before_year y"
    using y(2) assms(2)
  proof (induction y rule: dec_induct)
    case (step n)
    then show ?case by (simp add: days_before_year_Suc)
  qed simp
  ultimately show False using assms(1) by linarith
qed

section \<open>Sydney time\<close>

text \<open>The first Sunday of a month, as a day number; the first of January 1970 was a Thursday.\<close>

definition first_sunday :: "nat \<Rightarrow> nat \<Rightarrow> nat" where
  "first_sunday y m =
     (let d = days_before_year y + sum_list (take m (month_days y)) in d + (7 - (d + 4) mod 7) mod 7)"

text \<open>\<^verbatim>\<open>M10.1.0\<close>: summer time starts at 02:00 standard time (UTC+10); \<^verbatim>\<open>M4.1.0/3\<close>: it ends at 03:00
  summer time (UTC+11).\<close>

definition sydney_dst :: "nat \<Rightarrow> bool" where
  "sydney_dst t \<longleftrightarrow>
     (let y = fst (year_from 1970 (t div 86400)) in
        t + 11 * 3600 < 86400 * first_sunday y 3 + 3 * 3600 \<or>
        86400 * first_sunday y 9 + 2 * 3600 \<le> t + 10 * 3600)"

definition sydney_offset :: "nat \<Rightarrow> nat" where
  "sydney_offset t = (if sydney_dst t then 11 * 3600 else 10 * 3600)"

definition localtime_r :: "nat \<Rightarrow> tm" where
  "localtime_r t = gmtime_r (t + sydney_offset t)"

section \<open>The text of a time\<close>

text \<open>\<^verbatim>\<open>strftime\<close> with \<^verbatim>\<open>%Y-%m-%dT%H:%M:%SZ\<close> (the letters \<^verbatim>\<open>T\<close> and \<^verbatim>\<open>Z\<close> are literal).\<close>

definition strftime_z :: "tm \<Rightarrow> string" where
  "strftime_z x = dec_digits (tm_year x + 1900) @ ''-'' @ two_digits (tm_mon x + 1) @ ''-'' @
     two_digits (tm_mday x) @ ''T'' @ two_digits (tm_hour x) @ '':'' @ two_digits (tm_min x) @ '':'' @
     two_digits (tm_sec x) @ ''Z''"

text \<open>The reader of such a text, as RFC 3339 defines it: a \<^verbatim>\<open>Z\<close> says that the time is UTC.\<close>

definition parse_utc :: "string \<Rightarrow> nat option" where
  "parse_utc s =
     (if length s = 20 \<and> map (nth s) [4, 7, 10, 13, 16, 19] = ''--T::Z'' then do {
        y \<leftarrow> read_digits 0 (take 4 s);
        m \<leftarrow> read_digits 0 (take 2 (drop 5 s));
        d \<leftarrow> read_digits 0 (take 2 (drop 8 s));
        h \<leftarrow> read_digits 0 (take 2 (drop 11 s));
        i \<leftarrow> read_digits 0 (take 2 (drop 14 s));
        c \<leftarrow> read_digits 0 (take 2 (drop 17 s));
        Some (timegm \<lparr>tm_year = y - 1900, tm_mon = m - 1, tm_mday = d, tm_hour = h, tm_min = i, tm_sec = c\<rparr>)
      }
      else None)"

lemma length_two_digits [simp]: "length (two_digits n) = 2"
  by (simp add: two_digits_def)

lemma four_chars: "length (cs :: 'a list) = 4 \<Longrightarrow> \<exists>a b c d. cs = [a, b, c, d]"
  by (auto simp: length_Suc_conv eval_nat_numeral)

lemma strftime_parse:
  assumes "tm_year (gmtime_r t) + 1900 < 10000"
  shows "length (strftime_z (gmtime_r t)) = 20" and "parse_utc (strftime_z (gmtime_r t)) = Some t"
proof -
  note f = gmtime_fields [of t]
  let ?x = "gmtime_r t"
  have y: "length (dec_digits (tm_year ?x + 1900)) = 4"
    "read_digits 0 (dec_digits (tm_year ?x + 1900)) = Some (tm_year ?x + 1900)"
    using dec_digits_4 [of "tm_year ?x + 1900"] assms by simp_all
  obtain a b c d where cs: "dec_digits (tm_year ?x + 1900) = [a, b, c, d]"
    using four_chars [OF y(1)] by blast
  show len: "length (strftime_z ?x) = 20" using y(1) by (simp add: strftime_z_def)
  have r: "read_digits 0 (two_digits (tm_mon ?x + 1)) = Some (tm_mon ?x + 1)"
    "read_digits 0 (two_digits (tm_mday ?x)) = Some (tm_mday ?x)"
    "read_digits 0 (two_digits (tm_hour ?x)) = Some (tm_hour ?x)"
    "read_digits 0 (two_digits (tm_min ?x)) = Some (tm_min ?x)"
    "read_digits 0 (two_digits (tm_sec ?x)) = Some (tm_sec ?x)"
    using f by (simp_all add: read_two_digits)
  have s: "strftime_z ?x = [a, b, c, d] @ ''-'' @ two_digits (tm_mon ?x + 1) @ ''-'' @
     two_digits (tm_mday ?x) @ ''T'' @ two_digits (tm_hour ?x) @ '':'' @ two_digits (tm_min ?x) @ '':'' @
     two_digits (tm_sec ?x) @ ''Z''"
    by (simp add: strftime_z_def cs)
  have "parse_utc (strftime_z ?x) = Some (timegm ?x)"
    using y(2) r unfolding parse_utc_def s cs
    by (simp add: two_digits_def del: read_digits.simps)
  then show "parse_utc (strftime_z ?x) = Some t" by (simp add: timegm_gmtime)
qed

end
