(* ===== verification/Reader.thy ===== *)
theory Reader
  imports C_Time
begin

text \<open>
  Readers of text, for the notations the program's strings are in: the rule of \<^verbatim>\<open>TZ\<close> and the JSON of the
  messages. A reader consumes a prefix of the text, or fails.
\<close>

type_synonym 'a reader = "string \<Rightarrow> ('a \<times> string) option"

definition is_digit :: "char \<Rightarrow> bool" where
  "is_digit c \<longleftrightarrow> digit_value c \<noteq> None"

definition rd_char :: "char \<Rightarrow> unit reader" where
  "rd_char c s = (case s of [] \<Rightarrow> None | x # xs \<Rightarrow> if x = c then Some ((), xs) else None)"

definition rd_number :: "nat reader" where
  "rd_number s =
     (let ds = takeWhile is_digit s
      in if ds = [] then None else map_option (\<lambda>n. (n, dropWhile is_digit s)) (read_digits 0 ds))"

lemma rd_char_eq [simp]: "rd_char c (c # s) = Some ((), s)"
  by (simp add: rd_char_def)

section \<open>Decimal numbers\<close>

lemma read_digits_append: "read_digits a (xs @ ys) = Option.bind (read_digits a xs) (\<lambda>n. read_digits n ys)"
  by (induction xs arbitrary: a) (auto split: bind_splits)

lemma read_dec_digits: "read_digits 0 (dec_digits n) = Some n"
proof (induction n rule: dec_digits.induct)
  case (1 n)
  show ?case
  proof (cases "n < 10")
    case True
    then show ?thesis by (simp add: dec_digits.simps [of n] digit_value_digit)
  next
    case False
    then show ?thesis using 1 by (simp add: dec_digits.simps [of n] read_digits_append digit_value_digit)
  qed
qed

lemma is_digit_digit: "n < 10 \<Longrightarrow> is_digit (digit n)"
  by (simp add: is_digit_def digit_value_digit)

lemma dec_digits_digits: "c \<in> set (dec_digits n) \<Longrightarrow> is_digit c"
proof (induction n rule: dec_digits.induct)
  case (1 n)
  then show ?case by (cases "n < 10") (auto simp: dec_digits.simps [of n] is_digit_digit)
qed

lemma two_digits_digits: "n < 100 \<Longrightarrow> c \<in> set (two_digits n) \<Longrightarrow> is_digit c"
  by (auto simp: two_digits_def is_digit_digit)

lemma dec_digits_ne [simp]: "dec_digits n \<noteq> []"
  by (simp add: dec_digits.simps [of n])

text \<open>No number but zero starts with a zero.\<close>

lemma dec_digits_zero: "hd (dec_digits n) = CHR ''0'' \<Longrightarrow> length (dec_digits n) = 1"
proof (induction n rule: dec_digits.induct)
  case (1 n)
  show ?case
  proof (cases "n < 10")
    case True
    then show ?thesis by (simp add: dec_digits.simps [of n])
  next
    case False
    then have "hd (dec_digits (n div 10)) = CHR ''0''" using "1.prems" by (simp add: dec_digits.simps [of n])
    with "1.IH" [OF False] have "length (dec_digits (n div 10)) = 1" by simp
    then have small: "n div 10 < 10" by (cases "n div 10 < 10") (simp_all add: dec_digits.simps [of "n div 10"])
    then have "digit (n div 10) = CHR ''0''"
      using \<open>hd (dec_digits (n div 10)) = CHR ''0''\<close> by (simp add: dec_digits.simps [of "n div 10"])
    then have "Some (n div 10) = Some 0" using digit_value_digit [OF small] by (simp add: digit_value_def)
    then show ?thesis using False by simp
  qed
qed

definition starts_digit :: "string \<Rightarrow> bool" where
  "starts_digit s = (case s of [] \<Rightarrow> False | c # _ \<Rightarrow> is_digit c)"

lemma take_digits:
  assumes "\<forall>c \<in> set ds. is_digit c" "\<not> starts_digit r"
  shows "takeWhile is_digit (ds @ r) = ds" "dropWhile is_digit (ds @ r) = r"
  using assms by (cases r; simp add: starts_digit_def takeWhile_append2 dropWhile_append2)+

lemma rd_number_dec: "\<not> starts_digit r \<Longrightarrow> rd_number (dec_digits n @ r) = Some (n, r)"
  using take_digits [of "dec_digits n" r] dec_digits_digits by (simp add: rd_number_def read_dec_digits)

end
