(* ===== verification/Posix_Tz.thy ===== *)
theory Posix_Tz
  imports Reader
begin

text \<open>
  What \<^verbatim>\<open>tzset\<close> and \<^verbatim>\<open>localtime_r\<close> make of the environment variable \<^verbatim>\<open>TZ\<close>: the POSIX notation
  \<^verbatim>\<open>std offset dst [offset] , start [/time] , end [/time]\<close>, with dates of the form \<^verbatim>\<open>Mm.w.d\<close>, its reader,
  and local time under a rule. The rule the program sets is one value of this notation; that it gives
  the Sydney time of \<open>C_Time\<close> is a theorem.
\<close>

section \<open>Rules\<close>

text \<open>A date: day \<open>d\<close> (0 is Sunday) of week \<open>w\<close> (5 is the last) of month \<open>m\<close>, at a time of day in seconds.\<close>

record tz_date =
  td_month :: nat
  td_week :: nat
  td_wday :: nat
  td_time :: nat

text \<open>Offsets are the seconds to subtract from UTC, positive west of Greenwich, as in the notation.\<close>

record tz_summer =
  dst_name :: string
  dst_off :: int
  dst_start :: tz_date
  dst_end :: tz_date

record tz_rule =
  std_name :: string
  std_off :: int
  summer :: "tz_summer option"

section \<open>The reader\<close>

definition is_letter :: "char \<Rightarrow> bool" where
  "is_letter c \<longleftrightarrow> (65 \<le> (of_char c :: nat) \<and> (of_char c :: nat) \<le> 90) \<or>
     (97 \<le> (of_char c :: nat) \<and> (of_char c :: nat) \<le> 122)"

definition tz_name :: "string reader" where
  "tz_name s =
     (let cs = takeWhile is_letter s in if length cs < 3 then None else Some (cs, dropWhile is_letter s))"

text \<open>\<open>hh[:mm[:ss]]\<close>\<close>

definition tz_part :: "nat reader" where
  "tz_part s = (case rd_char CHR '':'' s of None \<Rightarrow> Some (0, s) | Some (_, r) \<Rightarrow> rd_number r)"

definition tz_time :: "nat reader" where
  "tz_time s = do {
     (h, s) \<leftarrow> rd_number s;
     (m, s) \<leftarrow> tz_part s;
     (c, s) \<leftarrow> tz_part s;
     Some (3600 * h + 60 * m + c, s)
   }"

definition tz_offset :: "int reader" where
  "tz_offset s =
     (case s of
        CHR ''-'' # r \<Rightarrow> map_option (\<lambda>(n, r). (- int n, r)) (tz_time r)
      | CHR ''+'' # r \<Rightarrow> map_option (\<lambda>(n, r). (int n, r)) (tz_time r)
      | _ \<Rightarrow> map_option (\<lambda>(n, r). (int n, r)) (tz_time s))"

text \<open>A transition is at 02:00 when no time is given.\<close>

definition tz_date :: "tz_date reader" where
  "tz_date s = do {
     (_, s) \<leftarrow> rd_char CHR '','' s;
     (_, s) \<leftarrow> rd_char CHR ''M'' s;
     (m, s) \<leftarrow> rd_number s;
     (_, s) \<leftarrow> rd_char CHR ''.'' s;
     (w, s) \<leftarrow> rd_number s;
     (_, s) \<leftarrow> rd_char CHR ''.'' s;
     (d, s) \<leftarrow> rd_number s;
     if m \<notin> {1..12} \<or> w \<notin> {1..5} \<or> 6 < d then None
     else (case rd_char CHR ''/'' s of
         None \<Rightarrow> Some (\<lparr>td_month = m, td_week = w, td_wday = d, td_time = 7200\<rparr>, s)
       | Some (_, s) \<Rightarrow> do {
           (t, s) \<leftarrow> tz_time s;
           Some (\<lparr>td_month = m, td_week = w, td_wday = d, td_time = t\<rparr>, s)
         })
   }"

text \<open>Summer time is an hour ahead of standard time when it has no offset of its own.\<close>

definition tz_summer :: "int \<Rightarrow> tz_summer reader" where
  "tz_summer off s = do {
     (name, s) \<leftarrow> tz_name s;
     let (doff, s) = (case tz_offset s of None \<Rightarrow> (off - 3600, s) | Some r \<Rightarrow> r);
     (b, s) \<leftarrow> tz_date s;
     (e, s) \<leftarrow> tz_date s;
     Some (\<lparr>dst_name = name, dst_off = doff, dst_start = b, dst_end = e\<rparr>, s)
   }"

definition tz_parse :: "string \<Rightarrow> tz_rule option" where
  "tz_parse s = do {
     (name, s) \<leftarrow> tz_name s;
     (off, s) \<leftarrow> tz_offset s;
     if s = [] then Some \<lparr>std_name = name, std_off = off, summer = None\<rparr>
     else do {
       (d, s) \<leftarrow> tz_summer off s;
       if s = [] then Some \<lparr>std_name = name, std_off = off, summer = Some d\<rparr> else None
     }
   }"

section \<open>Local time under a rule\<close>

text \<open>The day number of a date in a year: the first such weekday of the month (the first of January 1970
  was a Thursday), whole weeks later, and a week less when that is behind the month.\<close>

definition tz_day :: "nat \<Rightarrow> tz_date \<Rightarrow> nat" where
  "tz_day y td =
     (let first = days_before_year y + sum_list (take (td_month td - 1) (month_days y));
          d = (td_wday td + 7 - (first + 4) mod 7) mod 7 + 7 * (td_week td - 1)
      in first + (if month_days y ! (td_month td - 1) \<le> d then d - 7 else d))"

text \<open>A transition as a moment in UTC: its time is the local time in force before it.\<close>

definition tz_change :: "nat \<Rightarrow> int \<Rightarrow> tz_date \<Rightarrow> int" where
  "tz_change y off td = 86400 * int (tz_day y td) + int (td_time td) + off"

text \<open>Summer time lies between the two transitions of the year, or, in the south, outside them.\<close>

definition tz_in_summer :: "int \<Rightarrow> tz_summer \<Rightarrow> nat \<Rightarrow> bool" where
  "tz_in_summer off d t =
     (let y = fst (year_from 1970 (t div 86400));
          b = tz_change y off (dst_start d);
          e = tz_change y (dst_off d) (dst_end d)
      in if b < e then b \<le> int t \<and> int t < e else b \<le> int t \<or> int t < e)"

text \<open>The offset and the zone's name at a time.\<close>

definition tz_at :: "tz_rule \<Rightarrow> nat \<Rightarrow> int \<times> string" where
  "tz_at r t =
     (case summer r of
        None \<Rightarrow> (std_off r, std_name r)
      | Some d \<Rightarrow> if tz_in_summer (std_off r) d t then (dst_off d, dst_name d) else (std_off r, std_name r))"

text \<open>A missing \<^verbatim>\<open>TZ\<close>, and one this reader does not accept, means UTC. (The C library has default dates for a
  summer time without dates; the program never sets such a value.)\<close>

definition tz_in_force :: "string option \<Rightarrow> tz_rule" where
  "tz_in_force env =
     (case Option.bind env tz_parse of
        None \<Rightarrow> \<lparr>std_name = ''GMT'', std_off = 0, summer = None\<rparr>
      | Some r \<Rightarrow> r)"

definition localtime_in :: "string option \<Rightarrow> nat \<Rightarrow> tm" where
  "localtime_in env t = gmtime_r (nat (int t - fst (tz_at (tz_in_force env) t)))"

lemma localtime_unset: "localtime_in None t = gmtime_r t"
  by (simp add: localtime_in_def tz_in_force_def tz_at_def)

lemmas rd_defs = rd_char_def rd_number_def tz_name_def tz_part_def tz_time_def tz_offset_def tz_date_def
  tz_summer_def is_digit_def is_letter_def digit_value_def

section \<open>The rule of Sydney\<close>

definition sydney_rule :: tz_rule where
  "sydney_rule = \<lparr>std_name = ''AEST'', std_off = - 36000, summer = Some \<lparr>dst_name = ''AEDT'', dst_off = - 39600,
     dst_start = \<lparr>td_month = 10, td_week = 1, td_wday = 0, td_time = 7200\<rparr>,
     dst_end = \<lparr>td_month = 4, td_week = 1, td_wday = 0, td_time = 10800\<rparr>\<rparr>\<rparr>"

lemma parse_sydney: "tz_parse ''AEST-10AEDT,M10.1.0,M4.1.0/3'' = Some sydney_rule"
  by (simp add: tz_parse_def rd_defs sydney_rule_def)

lemma month_days_ge: "m < 12 \<Longrightarrow> 28 \<le> month_days y ! m"
proof -
  assume m: "m < 12"
  have "list_all (\<lambda>l. 28 \<le> l) (month_days y)" "length (month_days y) = 12" by (simp_all add: month_days_def)
  then show ?thesis using m by (simp add: list_all_length)
qed

lemma tz_day_first_sunday:
  assumes "1 \<le> m" "m \<le> 12"
  shows "tz_day y \<lparr>td_month = m, td_week = 1, td_wday = 0, td_time = t\<rparr> = first_sunday y (m - 1)"
proof -
  have long: "28 \<le> month_days y ! (m - 1)" using month_days_ge assms by simp
  have short: "\<not> month_days y ! (m - 1) \<le> (7 - n) mod 7" for n
  proof -
    have "(7 - n) mod 7 < 7" by simp
    then show ?thesis using long by linarith
  qed
  show ?thesis using short by (simp add: tz_day_def first_sunday_def Let_def)
qed

text \<open>The first Sunday of April lies before the first Sunday of October.\<close>

lemma april_before_october: "first_sunday y 3 + 100 < first_sunday y 9"
proof -
  have a: "first_sunday y 3 \<le> days_before_year y + sum_list (take 3 (month_days y)) + 6"
    unfolding first_sunday_def Let_def using pos_mod_bound by (simp add: less_Suc_eq_le [symmetric])
  have o: "days_before_year y + sum_list (take 9 (month_days y)) \<le> first_sunday y 9"
    by (simp add: first_sunday_def Let_def)
  have "sum_list (take 3 (month_days y)) + 150 < sum_list (take 9 (month_days y))"
    by (simp add: month_days_def)
  then show ?thesis using a o by linarith
qed

lemma sydney_in_summer:
  "tz_in_summer (std_off sydney_rule) (the (summer sydney_rule)) t = sydney_dst t"
proof -
  let ?y = "fst (year_from 1970 (t div 86400))"
  have b: "tz_change ?y (- 36000) \<lparr>td_month = 10, td_week = 1, td_wday = 0, td_time = 7200\<rparr> =
      86400 * int (first_sunday ?y 9) - 28800"
    by (simp add: tz_change_def tz_day_first_sunday del: One_nat_def)
  have e: "tz_change ?y (- 39600) \<lparr>td_month = 4, td_week = 1, td_wday = 0, td_time = 10800\<rparr> =
      86400 * int (first_sunday ?y 3) - 28800"
    by (simp add: tz_change_def tz_day_first_sunday del: One_nat_def)
  show ?thesis
    using april_before_october [of ?y]
    by (auto simp: tz_in_summer_def sydney_rule_def b e sydney_dst_def Let_def simp del: One_nat_def)
qed

text \<open>The notation in the source means the Sydney time of \<open>C_Time\<close>.\<close>

lemma sydney_at: "tz_at sydney_rule t = (- int (sydney_offset t), if sydney_dst t then ''AEDT'' else ''AEST'')"
  using sydney_in_summer [of t] by (simp add: tz_at_def sydney_offset_def sydney_rule_def)

lemma localtime_sydney: "localtime_in (Some ''AEST-10AEDT,M10.1.0,M4.1.0/3'') t = localtime_r t"
  by (simp add: localtime_in_def tz_in_force_def parse_sydney sydney_at localtime_r_def flip: of_nat_add)

end
