(* ===== verification/Rtc_Time.thy ===== *)
theory Rtc_Time
  imports Posix_Tz
begin

text \<open>
  The clock functions of \<^verbatim>\<open>main/rtc_time.c\<close>: the task that waits until the clock is set, and the
  time stamp of the messages. The clock itself (\<^verbatim>\<open>time\<close>) is the environment: the task reads it
  several times, so there it is a function of the number of the reading.
\<close>

section \<open>Operations\<close>

text \<open>The value of the environment variable \<^verbatim>\<open>TZ\<close>: unset after a reset, or what both functions set.\<close>

type_synonym tz = "string option"

definition tz_literal :: string where
  "tz_literal = ''AEST-10AEDT,M10.1.0,M4.1.0/3''"

definition retry_count :: nat where "retry_count = 10"

text \<open>
  The first loop of \<^verbatim>\<open>rtc_tie_test\<close>, entered with \<open>retry = 0\<close> and a zeroed \<open>timeinfo\<close>. \<open>clock k\<close> and
  \<open>env k\<close> are the clock and the \<^verbatim>\<open>TZ\<close> in force at the \<open>k\<close>-th reading. The conjunction increments
  \<open>retry\<close> only when its first part holds. The result is \<open>retry\<close> and the year when the loop ends.
\<close>

function rtc_wait :: "(nat \<Rightarrow> nat) \<Rightarrow> (nat \<Rightarrow> tz) \<Rightarrow> nat \<Rightarrow> nat \<Rightarrow> nat \<times> nat" where
  "rtc_wait clock env retry year =
     (if year < 2016 - 1900
      then if retry + 1 < retry_count
        then rtc_wait clock env (retry + 1) (tm_year (localtime_in (env (retry + 1)) (clock (retry + 1))))
        else (retry + 1, year)
      else (retry, year))"
  by pat_completeness auto
termination
  by (relation "measure (\<lambda>(clock, env, retry, year). retry_count - retry)") auto

declare rtc_wait.simps [simp del]

text \<open>A round of its second loop: the new \<^verbatim>\<open>TZ\<close> and the text it logs, with the zone's name.\<close>

definition rtc_log_round :: "nat \<Rightarrow> tz \<times> string" where
  "rtc_log_round now =
     (let env = Some tz_literal; x = localtime_in env now
      in (env, butlast (strftime_z x) @ snd (tz_at (tz_in_force env) now)))"

text \<open>The new \<^verbatim>\<open>TZ\<close>, and the text in the static buffer of 64 bytes.\<close>

definition local_time_read :: "nat \<Rightarrow> tz \<times> string" where
  "local_time_read now = (let env = Some tz_literal in (env, strftime_z (localtime_in env now)))"

section \<open>Correctness\<close>

lemma rtc_wait_result:
  "rtc_wait clock env retry year = (r, y) \<Longrightarrow> retry < retry_count \<Longrightarrow>
   retry \<le> r \<and> r \<le> retry_count \<and> (y < 116 \<longleftrightarrow> r = retry_count) \<and>
   (\<forall>k. retry < k \<and> k < r \<longrightarrow> tm_year (localtime_in (env k) (clock k)) < 116)"
proof (induction clock env retry year rule: rtc_wait.induct)
  case (1 clock env retry year)
  let ?next = "tm_year (localtime_in (env (retry + 1)) (clock (retry + 1)))"
  show ?case
  proof (cases "year < 2016 - 1900 \<and> retry + 1 < retry_count")
    case True
    then have "rtc_wait clock env (retry + 1) ?next = (r, y)"
      using "1.prems"(1) by (simp add: rtc_wait.simps [of clock env retry year])
    note ih = "1.IH" [OF _ _ this]
    have "tm_year (localtime_in (env k) (clock k)) < 116" if "retry < k" "k < r" for k
    proof (cases "k = retry + 1")
      case True
      show ?thesis
      proof (rule ccontr)
        assume "\<not> ?thesis"
        then have "\<not> ?next < 2016 - 1900" using True by simp
        then have "r = retry + 1" using \<open>rtc_wait clock env (retry + 1) ?next = (r, y)\<close>
          by (subst (asm) rtc_wait.simps) simp
        then show False using that True by simp
      qed
    qed (use ih \<open>year < 2016 - 1900 \<and> retry + 1 < retry_count\<close> that in simp)
    then show ?thesis using ih True by auto
  next
    case False
    then show ?thesis using "1.prems" by (subst (asm) rtc_wait.simps) (auto simp: retry_count_def split: if_splits)
  qed
qed

lemma sydney_offset_cases: "sydney_offset t \<in> {36000, 39600}"
  by (simp add: sydney_offset_def)

text \<open>The range of a 32-bit \<^verbatim>\<open>time_t\<close> ends in the year 2038.\<close>

lemma year_2038:
  assumes "t < 2 ^ 31 + 39600"
  shows "tm_year (gmtime_r t) + 1900 < 10000"
proof -
  have d: "t div 86400 < days_before_year (Suc 2038)"
    using assms by (simp add: days_before_year_def year_days_def leap_def upt_rec div_less_iff_less_mult)
  obtain y k where y: "year_from 1970 (t div 86400) = (y, k)" by force
  then have "y \<le> 2038" using year_from_bound [OF d] by simp
  then show ?thesis by (simp add: gmtime_r_def y Let_def split: prod.splits)
qed

lemma local_time_text:
  assumes "now < 2 ^ 31"
  shows "length (snd (local_time_read now)) = 20"
    and "parse_utc (snd (local_time_read now)) = Some (now + sydney_offset now)"
proof -
  have "now + sydney_offset now < 2 ^ 31 + 39600" using sydney_offset_cases [of now] assms by auto
  from strftime_parse [OF year_2038 [OF this]] show
    "length (snd (local_time_read now)) = 20"
    "parse_utc (snd (local_time_read now)) = Some (now + sydney_offset now)"
    by (simp_all add: local_time_read_def tz_literal_def localtime_sydney localtime_r_def)
qed

section \<open>Properties\<close>

text \<open>The wait for the clock ends: after at most nine readings, and with a year before 2016 only
  when all nine readings gave such a year.\<close>

theorem clock_wait_ends:
  "\<exists>r y. rtc_wait clock env 0 0 = (r, y) \<and> r \<le> 10 \<and>
     (y < 116 \<longleftrightarrow> r = 10) \<and> (r = 10 \<longrightarrow> (\<forall>k \<in> {1..9}. tm_year (localtime_in (env k) (clock k)) < 116))"
proof -
  obtain r y where ry: "rtc_wait clock env 0 0 = (r, y)" by force
  then show ?thesis using rtc_wait_result [OF ry] by (auto simp: retry_count_def)
qed

theorem clock_wait_ends_witness:
  "\<exists>y. rtc_wait (\<lambda>_. 0) (\<lambda>_. None) 0 0 = (10, y) \<and>
     (\<forall>k \<in> {1..9 :: nat}. tm_year (localtime_in None 0) < 116)"
proof -
  have y: "tm_year (localtime_in None 0) = 70"
    by (simp add: localtime_unset gmtime_r_def year_from.simps [of 1970] year_days_def leap_def split: prod.splits)
  obtain r y where ry: "rtc_wait (\<lambda>_. 0) (\<lambda>_. None) 0 0 = (r, y)" "y < 116 \<longleftrightarrow> r = 10"
    using clock_wait_ends [of "\<lambda>_. 0" "\<lambda>_. None"] by auto
  have "snd (rtc_wait (\<lambda>_. 0) (\<lambda>_. None) 0 0) < 116"
    using y by (simp add: rtc_wait.simps retry_count_def)
  then show ?thesis using ry y by auto
qed

text \<open>C40: The time stamp of a message carries the letter \<^verbatim>\<open>Z\<close>, which says UTC. Read as it says, it is
  ahead of the clock by what the rule in the source puts Sydney ahead of UTC: eleven hours from 02:00
  standard time on the first Sunday of October to 03:00 summer time on the first Sunday of April, ten
  hours otherwise. The logged text names the zone of the same rule instead.\<close>

theorem timestamp_is_not_utc:
  assumes "now < 2 ^ 31"
  shows "length (snd (local_time_read now)) = 20 \<and>
    tz_parse tz_literal = Some sydney_rule \<and>
    parse_utc (snd (local_time_read now)) = Some (now + nat (- fst (tz_at sydney_rule now))) \<and>
    nat (- fst (tz_at sydney_rule now)) = (if sydney_dst now then 39600 else 36000) \<and>
    snd (rtc_log_round now) = butlast (snd (local_time_read now)) @ (if sydney_dst now then ''AEDT'' else ''AEST'')"
  using local_time_text [OF assms]
  by (simp add: tz_literal_def parse_sydney sydney_at sydney_offset_def rtc_log_round_def local_time_read_def
      tz_in_force_def Let_def)

theorem timestamp_is_not_utc_witness:
  "parse_utc (snd (local_time_read 1556000000)) = Some (1556000000 + nat (- fst (tz_at sydney_rule 1556000000)))"
  using timestamp_is_not_utc [of 1556000000] by simp

end
