(* ===== verification/Run_Interface.thy ===== *)
theory Run_Interface
  imports Prelude "HOL-Library.Sublist"
begin

text \<open>
  Runs of a component. Its handlers are one partial step function on a state; a run is a list of
  actions. \<open>total_system\<close> is the contract of a component whose steps keep an invariant and never leave
  an array; \<open>staged_system\<close> that of one in which some actions make progress; \<open>observed_system\<close> adds to
  the first what can be seen of the state and which actions cause it. The Bluetooth client and the whole
  program interpret them.
\<close>

fun run_steps :: "('a \<Rightarrow> 's \<Rightarrow> 's option) \<Rightarrow> 'a list \<Rightarrow> 's \<Rightarrow> 's option" where
  "run_steps step [] s = Some s"
| "run_steps step (a # as) s = Option.bind (step a s) (run_steps step as)"

lemma run_steps_append: "run_steps step (xs @ ys) s = Option.bind (run_steps step xs s) (run_steps step ys)"
  by (induction xs arbitrary: s) (auto split: bind_splits)

lemma run_steps_single: "run_steps step [a] s = step a s"
  by (cases "step a s") simp_all

locale total_system =
  fixes ok :: "'a \<Rightarrow> bool"
    and inv :: "'s \<Rightarrow> bool"
    and step :: "'a \<Rightarrow> 's \<Rightarrow> 's option"
  assumes step_ok: "inv s \<Longrightarrow> ok a \<Longrightarrow> \<exists>s'. step a s = Some s' \<and> inv s'"
begin

lemma run_ok: "inv s \<Longrightarrow> list_all ok as \<Longrightarrow> \<exists>s'. run_steps step as s = Some s' \<and> inv s'"
proof (induction as arbitrary: s)
  case (Cons a as)
  then obtain s1 where "step a s = Some s1" "inv s1" using step_ok [of s a] by auto
  then show ?case using Cons.IH Cons.prems(2) by simp
qed simp

lemma run_inv:
  assumes "inv s" "list_all ok as" "run_steps step as s = Some s'"
  shows "inv s'"
  using run_ok [OF assms(1,2)] assms(3) by simp

end

text \<open>Progress: the states of a run pass stages. Every allowed action keeps the stage, and the next of the given
  actions moves on to the next one; so a run in which these actions occur in their order passes all.\<close>

locale staged_system =
  fixes ok :: "'a \<Rightarrow> bool"
    and step :: "'a \<Rightarrow> 's \<Rightarrow> 's option"
    and stage :: "nat \<Rightarrow> 's \<Rightarrow> bool"
    and acts :: "'a list"
  assumes keeps: "stage i s \<Longrightarrow> ok a \<Longrightarrow> \<exists>s'. step a s = Some s' \<and> stage i s'"
    and moves: "i < length acts \<Longrightarrow> stage i s \<Longrightarrow> \<exists>s'. step (acts ! i) s = Some s' \<and> stage (Suc i) s'"
begin

lemma passes:
  "subseq (drop i acts) bs \<Longrightarrow> list_all ok bs \<Longrightarrow> stage i s \<Longrightarrow> i \<le> length acts \<Longrightarrow>
   \<exists>s'. run_steps step bs s = Some s' \<and> stage (length acts) s'"
proof (induction bs arbitrary: i s)
  case Nil
  then have "drop i acts = []" using list_emb_Nil2 by blast
  then show ?case using Nil by simp
next
  case (Cons b bs)
  show ?case
  proof (cases "i < length acts \<and> b = acts ! i")
    case True
    then have "subseq (drop (Suc i) acts) bs" using Cons.prems(1) by (simp add: Cons_nth_drop_Suc [symmetric])
    moreover obtain s1 where "step b s = Some s1" "stage (Suc i) s1" using moves Cons.prems(3) True by blast
    ultimately show ?thesis using Cons.IH [of "Suc i" s1] Cons.prems(2) True by auto
  next
    case False
    have "subseq (drop i acts) bs"
    proof (cases "i < length acts")
      case True
      then show ?thesis using Cons.prems(1) False by (simp add: Cons_nth_drop_Suc [symmetric])
    qed simp
    moreover obtain s1 where "step b s = Some s1" "stage i s1" using keeps Cons.prems(2,3) by fastforce
    ultimately show ?thesis using Cons.IH [of i s1] Cons.prems(2,4) by auto
  qed
qed

end

locale observed_system = total_system +
  fixes obs :: "'s \<Rightarrow> 'b set"
    and cause :: "'a \<Rightarrow> 'b set"
  assumes obs_step: "step a s = Some s' \<Longrightarrow> obs s' \<subseteq> obs s \<union> cause a"
begin

lemma obs_run: "run_steps step as s = Some s' \<Longrightarrow> obs s' \<subseteq> obs s \<union> (\<Union>a \<in> set as. cause a)"
proof (induction as arbitrary: s)
  case (Cons a as)
  then obtain s1 where 1: "step a s = Some s1" "run_steps step as s1 = Some s'" by (auto split: bind_splits)
  show ?case using Cons.IH [OF 1(2)] obs_step [OF 1(1)] by auto
qed simp

text \<open>What is seen at the end and was not at the start has a cause in the run.\<close>

lemma seen_has_cause:
  assumes "run_steps step as s = Some s'" "x \<in> obs s'" "x \<notin> obs s"
  shows "\<exists>a \<in> set as. x \<in> cause a"
  using obs_run [OF assms(1)] assms(2,3) by auto

end

end
