(* ===== verification/Iothub.thy ===== *)
theory Iothub
  imports Data_Buffer Gpio_Ctrl Rtc_Time Run_Interface
begin

text \<open>
  The telemetry loop of \<^verbatim>\<open>main/iothub_client_sample_mqtt.c\<close>. The IoT Hub client library, the
  clock and the network are the environment: what they answer in one round of the loop is a
  record \<open>hub_input\<close>, so a run is a function of a list of such records. The library calls back:
  it confirms a message it accepted (the oldest one it still holds, and only such a message), and
  it delivers commands. \<open>in_flight\<close> lists the context pointers the library holds, as indices into
  the array \<open>messages\<close>; \<open>hub_log\<close> records the calls made on messages, oldest first.
\<close>

section \<open>State\<close>

definition MESSAGE_COUNT :: nat where "MESSAGE_COUNT = 50"
definition DOWORK_LOOP_NUM :: nat where "DOWORK_LOOP_NUM = 3"

record event_instance =
  messageHandle :: "nat option"
  messageTrackingId :: nat

datatype hub_call = Send_Event string | Send_Failed nat | Destroy_Message "nat option"

record iot_state =
  callbackCounter :: int
  iterator :: int
  receiveContext :: int
  messages :: "event_instance list"
  msgText :: string
  g_continueRunning :: bool
  iothub_connection :: bool
  samples :: queue_state
  light_state :: el_state
  in_flight :: "nat list"
  hub_log :: "hub_call list"

text \<open>What the library does inside \<^verbatim>\<open>IoTHubClient_LL_DoWork\<close>: it acknowledges, or it delivers a
  message whose content it hands out (\<open>Some\<close>) or not.\<close>

datatype hub_event = Ack | Receive "string option"

text \<open>What the other tasks do to the data the loop shares with them, in whole operations: the ADC task inserts a
  sample; the timer's interrupt occurs; the event task takes a step; the manager, whose check came at any
  time before, switches the light off.\<close>

datatype other_act = Adc_Insert def_queue_buffer | Timer_Isr | Evt_Handling | Manager_Off

record hub_input =
  in_now :: nat
  in_inserts :: "def_queue_buffer list"
  in_sleep :: "other_act list"
  in_pause :: "other_act list"
  in_create :: "nat option"
  in_send_ok :: bool
  in_events :: "hub_event list"
  in_conn_lost :: bool

section \<open>The message text\<close>

definition test_id :: string where "test_id = ''FF:FF:FF:FF:FF:FF''"

text \<open>\<^verbatim>\<open>%.1f\<close> of a \<^verbatim>\<open>double\<close> that holds an \<open>uint32_t\<close>: the conversion is exact.\<close>

definition printf_1f :: "u32 \<Rightarrow> string" where
  "printf_1f v = dec_digits (unat v) @ ''.0''"

definition msg_json :: "string \<Rightarrow> def_queue_buffer \<Rightarrow> string" where
  "msg_json time d =
     ''{\"deviceId\": \"'' @ test_id @ ''\",\"timestamp\": \"'' @ time @ ''\",\"brightness\": '' @ printf_1f (mv1 d) @
     '',\"vdd\": '' @ printf_1f (mv2 d) @ '',\"status\": '' @ dec_digits (unat (status d)) @ ''}''"

text \<open>\<^verbatim>\<open>sprintf_s\<close> into the buffer of 1024 bytes, the last one for the NUL.\<close>

definition sprintf_msg :: "nat \<Rightarrow> def_queue_buffer \<Rightarrow> string" where
  "sprintf_msg now d = take 1023 (msg_json (snd (local_time_read now)) d)"

section \<open>Callbacks\<close>

text \<open>\<^verbatim>\<open>memcmp(a, b, n) == 0\<close>\<close>

definition memcmp_eq :: "string \<Rightarrow> string \<Rightarrow> nat \<Rightarrow> bool" where
  "memcmp_eq a b n \<longleftrightarrow> take n a = take n b"

definition ReceiveMessageCallback :: "nat \<Rightarrow> string option \<Rightarrow> iot_state \<Rightarrow> iot_state option" where
  "ReceiveMessageCallback base_clk content s = do {
     l \<leftarrow> (case content of
        None \<Rightarrow> Some (light_state s)
      | Some buffer \<Rightarrow>
          (let size = length buffer in
           if size = length ''TEST ON'' \<and> memcmp_eq buffer ''TEST ON'' size
           then app_emergency_light_test_button base_clk True (light_state s)
           else if size = length ''TEST OFF'' \<and> memcmp_eq buffer ''TEST OFF'' size
           then app_emergency_light_test_button base_clk False (light_state s)
           else Some (light_state s)));
     Some (s\<lparr>light_state := l, receiveContext := receiveContext s + 1\<rparr>)
   }"

definition SendConfirmationCallback :: "nat \<Rightarrow> iot_state \<Rightarrow> iot_state option" where
  "SendConfirmationCallback ctx s = do {
     eventInstance \<leftarrow> arr_get (messages s) ctx;
     let s = s\<lparr>callbackCounter := callbackCounter s + 1\<rparr>;
     Some (s\<lparr>hub_log := hub_log s @ [Destroy_Message (messageHandle eventInstance)]\<rparr>)
   }"

definition hub_event_step :: "nat \<Rightarrow> hub_event \<Rightarrow> iot_state \<Rightarrow> iot_state option" where
  "hub_event_step base_clk e s =
     (case e of
        Ack \<Rightarrow> (case in_flight s of
            [] \<Rightarrow> Some s
          | ctx # rest \<Rightarrow> SendConfirmationCallback ctx (s\<lparr>in_flight := rest\<rparr>))
      | Receive content \<Rightarrow> ReceiveMessageCallback base_clk content s)"

fun IoTHubClient_LL_DoWork :: "nat \<Rightarrow> hub_event list \<Rightarrow> iot_state \<Rightarrow> iot_state option" where
  "IoTHubClient_LL_DoWork base_clk [] s = Some s"
| "IoTHubClient_LL_DoWork base_clk (e # es) s =
     Option.bind (hub_event_step base_clk e s) (IoTHubClient_LL_DoWork base_clk es)"

section \<open>The loop\<close>

text \<open>
  The guarded part of the loop's body. \<open>in_inserts\<close> are the samples other tasks insert between
  the reading of the queue's head and its removal.
\<close>

definition hub_send :: "hub_input \<Rightarrow> iot_state \<Rightarrow> iot_state option" where
  "hub_send inp s = do {
     let s = (if int MESSAGE_COUNT \<le> iterator s
       then s\<lparr>callbackCounter := callbackCounter s - iterator s, iterator := 0\<rparr> else s);
     tmp_data_queue \<leftarrow> queue_buffer_peek (samples s);
     let s = s\<lparr>msgText := sprintf_msg (in_now inp) tmp_data_queue\<rparr>;
     q \<leftarrow> ins_all queue_buffer_insert (in_inserts inp) (samples s);
     let s = s\<lparr>samples := q\<rparr>;
     let i = nat (iterator s);
     slot \<leftarrow> arr_get (messages s) i;
     ms \<leftarrow> arr_set (messages s) i (slot\<lparr>messageHandle := in_create inp\<rparr>);
     let s = s\<lparr>messages := ms\<rparr>;
     s \<leftarrow> (case in_create inp of
         None \<Rightarrow> Some (s\<lparr>iothub_connection := False\<rparr>)
       | Some h \<Rightarrow> do {
           slot \<leftarrow> arr_get (messages s) i;
           ms \<leftarrow> arr_set (messages s) i (slot\<lparr>messageTrackingId := i\<rparr>);
           let s = s\<lparr>messages := ms\<rparr>;
           if \<not> in_send_ok inp
           then Some (s\<lparr>iothub_connection := False, hub_log := hub_log s @ [Send_Failed h]\<rparr>)
           else do {
             let s = s\<lparr>iothub_connection := True, in_flight := in_flight s @ [i],
               hub_log := hub_log s @ [Send_Event (msgText s)]\<rparr>;
             (d, q) \<leftarrow> queue_buffer_removeData tmp_data_queue (samples s);
             Some (s\<lparr>samples := q\<rparr>)
           }
         });
     Some (s\<lparr>iterator := iterator s + 1\<rparr>)
   }"

definition hub_send_enabled :: "iot_state \<Rightarrow> bool" where
  "hub_send_enabled s \<longleftrightarrow> \<not> queue_buffer_isEmpty (samples s) \<and> iterator s \<le> callbackCounter s"

definition on_light :: "(el_state \<Rightarrow> el_state option) \<Rightarrow> iot_state \<Rightarrow> iot_state option" where
  "on_light f s = map_option (\<lambda>l. s\<lparr>light_state := l\<rparr>) (f (light_state s))"

fun other_step :: "nat \<Rightarrow> other_act \<Rightarrow> iot_state \<Rightarrow> iot_state option" where
  "other_step base_clk (Adc_Insert d) s = map_option (\<lambda>q. s\<lparr>samples := q\<rparr>) (queue_buffer_insert d True (samples s))"
| "other_step base_clk Timer_Isr s = on_light (el_isr base_clk) s"
| "other_step base_clk Evt_Handling s = on_light (\<lambda>l. Some (el_evt l)) s"
| "other_step base_clk Manager_Off s = on_light (app_emergency_light_test_button base_clk False) s"

abbreviation others_run :: "nat \<Rightarrow> other_act list \<Rightarrow> iot_state \<Rightarrow> iot_state option" where
  "others_run base_clk \<equiv> run_steps (other_step base_clk)"

text \<open>One round of the do-while loop, and whether another one follows. \<open>in_sleep\<close> is what the other tasks do between
  the hand-over and \<^verbatim>\<open>DoWork\<close>, most of it in the second the loop sleeps there, \<open>in_pause\<close> what they do
  between \<^verbatim>\<open>DoWork\<close> and the next round.\<close>

definition hub_round :: "nat \<Rightarrow> hub_input \<Rightarrow> iot_state \<Rightarrow> (bool \<times> iot_state) option" where
  "hub_round base_clk inp s = do {
     s \<leftarrow> (if hub_send_enabled s then hub_send inp s else Some s);
     s \<leftarrow> others_run base_clk (in_sleep inp) s;
     s \<leftarrow> IoTHubClient_LL_DoWork base_clk (in_events inp) s;
     s \<leftarrow> others_run base_clk (in_pause inp) s;
     if in_conn_lost inp then Some (False, s) else Some (g_continueRunning s, s)
   }"

text \<open>A round in which the other tasks act at most during the hand-over, and there only insert.\<close>

definition others_quiet :: "hub_input \<Rightarrow> bool" where
  "others_quiet inp \<longleftrightarrow> in_sleep inp = [] \<and> in_pause inp = []"

definition during :: "def_queue_buffer list \<Rightarrow> hub_input \<Rightarrow> hub_input" where
  "during outs inp = inp\<lparr>in_inserts := outs, in_sleep := [], in_pause := []\<rparr>"

lemma during_simps [simp]:
  "in_now (during outs inp) = in_now inp" "in_inserts (during outs inp) = outs"
  "in_create (during outs inp) = in_create inp" "in_send_ok (during outs inp) = in_send_ok inp"
  "in_events (during outs inp) = in_events inp" "in_conn_lost (during outs inp) = in_conn_lost inp"
  "others_quiet (during outs inp)"
  by (simp_all add: during_def others_quiet_def)

lemma hub_round_quiet:
  assumes "others_quiet inp"
  shows "hub_round base_clk inp s = do {
     s \<leftarrow> (if hub_send_enabled s then hub_send inp s else Some s);
     s \<leftarrow> IoTHubClient_LL_DoWork base_clk (in_events inp) s;
     if in_conn_lost inp then Some (False, s) else Some (g_continueRunning s, s)
   }"
  using assms by (simp add: hub_round_def others_quiet_def)

text \<open>Rounds until the loop ends (\<open>True\<close>) or the inputs do (\<open>False\<close>: the loop still runs).\<close>

fun hub_session :: "nat \<Rightarrow> hub_input list \<Rightarrow> iot_state \<Rightarrow> (bool \<times> iot_state) option" where
  "hub_session base_clk [] s = Some (False, s)"
| "hub_session base_clk (inp # inps) s = do {
     (go, s) \<leftarrow> hub_round base_clk inp s;
     if go then hub_session base_clk inps s else Some (True, s)
   }"

text \<open>One connection of the outer loop: what the library answers, the rounds of the inner loop,
  the events of the three final \<^verbatim>\<open>DoWork\<close> calls and of the client's destruction.\<close>

record conn_input =
  platform_ok :: bool
  client_ok :: bool
  callback_ok :: bool
  rounds :: "hub_input list"
  final_events :: "nat \<Rightarrow> hub_event list"
  destroy_events :: "hub_event list"

datatype hub_outcome = Exit_Loop | Continue_Loop | Still_Running

fun final_dowork :: "nat \<Rightarrow> (nat \<Rightarrow> hub_event list) \<Rightarrow> nat \<Rightarrow> iot_state \<Rightarrow> iot_state option" where
  "final_dowork base_clk evs 0 s = Some s"
| "final_dowork base_clk evs (Suc n) s = Option.bind (final_dowork base_clk evs n s) (IoTHubClient_LL_DoWork base_clk (evs n))"

definition hub_after_session :: "nat \<Rightarrow> conn_input \<Rightarrow> iot_state \<Rightarrow> iot_state option" where
  "hub_after_session base_clk c s = do {
     s \<leftarrow> (if int MESSAGE_COUNT \<le> callbackCounter s
       then final_dowork base_clk (final_events c) DOWORK_LOOP_NUM s else Some s);
     IoTHubClient_LL_DoWork base_clk (destroy_events c) s
   }"

definition hub_reconnects :: "iot_state \<Rightarrow> hub_outcome" where
  "hub_reconnects s =
     (if callbackCounter s > 0 \<and> callbackCounter s < int MESSAGE_COUNT then Continue_Loop else Exit_Loop)"

definition hub_connection :: "nat \<Rightarrow> conn_input \<Rightarrow> iot_state \<Rightarrow> (hub_outcome \<times> iot_state) option" where
  "hub_connection base_clk c s =
     (if \<not> platform_ok c then Some (Exit_Loop, s)
      else if \<not> client_ok c then Some (hub_reconnects s, s)
      else if \<not> callback_ok c
        then map_option (\<lambda>s. (hub_reconnects s, s)) (IoTHubClient_LL_DoWork base_clk (destroy_events c) s)
      else do {
        (ended, s) \<leftarrow> hub_session base_clk (rounds c) (s\<lparr>iothub_connection := True\<rparr>);
        if \<not> ended then Some (Still_Running, s)
        else map_option (\<lambda>s. (hub_reconnects s, s)) (hub_after_session base_clk c s)
      })"

fun iothub_client_sample_mqtt_run :: "nat \<Rightarrow> conn_input list \<Rightarrow> iot_state \<Rightarrow> (hub_outcome \<times> iot_state) option" where
  "iothub_client_sample_mqtt_run base_clk [] s = Some (Still_Running, s)"
| "iothub_client_sample_mqtt_run base_clk (c # cs) s = do {
     (out, s) \<leftarrow> hub_connection base_clk c s;
     if out = Continue_Loop then iothub_client_sample_mqtt_run base_clk cs s else Some (out, s)
   }"

definition iothub_start :: "event_instance list \<Rightarrow> iot_state \<Rightarrow> iot_state" where
  "iothub_start garbage s =
     s\<lparr>g_continueRunning := True, messages := garbage, callbackCounter := 0, iterator := 0,
       receiveContext := 0, in_flight := []\<rparr>"

text \<open>The static variables before the start.\<close>

definition iot_reset :: iot_state where
  "iot_reset = \<lparr>callbackCounter = 0, iterator = 0, receiveContext = 0, messages = [], msgText = [],
     g_continueRunning = False, iothub_connection = False, samples = queue_buffer_init,
     light_state = el_reset, in_flight = [], hub_log = []\<rparr>"

definition iothub_check_connection :: "iot_state \<Rightarrow> bool" where
  "iothub_check_connection s = iothub_connection s"

section \<open>Invariant of the window\<close>

text \<open>
  The counters stay in their bounds, and they count the window: every message that was handed
  over and not confirmed is one by which \<open>iterator\<close> is ahead of \<open>callbackCounter\<close>, and it is
  never ahead by more than one.
\<close>

definition hub_inv :: "iot_state \<Rightarrow> bool" where
  "hub_inv s \<longleftrightarrow> 0 \<le> iterator s \<and> iterator s \<le> 50 \<and> 0 \<le> callbackCounter s \<and>
     length (messages s) = MESSAGE_COUNT \<and> queue_inv (samples s) \<and> el_inv (light_state s) \<and>
     iterator s \<le> callbackCounter s + 1 \<and>
     callbackCounter s + int (length (in_flight s)) \<le> iterator s \<and>
     (\<forall>i \<in> set (in_flight s). i < MESSAGE_COUNT)"

definition sent_msgs :: "iot_state \<Rightarrow> string list" where
  "sent_msgs s = List.map_filter (\<lambda>c. case c of Send_Event m \<Rightarrow> Some m | _ \<Rightarrow> None) (hub_log s)"

lemma map_filter_append: "List.map_filter f (xs @ ys) = List.map_filter f xs @ List.map_filter f ys"
  by (simp add: List.map_filter_def)

lemma map_filter_single: "List.map_filter f [x] = (case f x of None \<Rightarrow> [] | Some y \<Rightarrow> [y])"
  by (simp add: List.map_filter_def split: option.splits)

lemma receive_ok:
  assumes "hub_inv s"
  shows "\<exists>s'. ReceiveMessageCallback base_clk content s = Some s' \<and> hub_inv s' \<and>
    s' = s\<lparr>light_state := light_state s', receiveContext := receiveContext s + 1\<rparr>"
proof -
  have el: "el_inv (light_state s)" using assms by (simp add: hub_inv_def)
  show ?thesis
    using button_on_ok [OF el, of base_clk] button_off_ok [OF el, of base_clk] assms
    by (cases content) (auto simp: ReceiveMessageCallback_def Let_def hub_inv_def)
qed

lemma event_ok:
  assumes "hub_inv s"
  shows "\<exists>s'. hub_event_step base_clk e s = Some s' \<and> hub_inv s' \<and> samples s' = samples s \<and>
    iterator s' = iterator s \<and> g_continueRunning s' = g_continueRunning s \<and>
    sent_msgs s' = sent_msgs s \<and> messages s' = messages s \<and>
    iothub_connection s' = iothub_connection s \<and>
    callbackCounter s' + int (length (in_flight s')) = callbackCounter s + int (length (in_flight s))"
proof (cases e)
  case Ack
  then show ?thesis
    using assms
    by (auto simp: hub_event_step_def SendConfirmationCallback_def hub_inv_def sent_msgs_def
        map_filter_append map_filter_single split: list.splits)
next
  case (Receive content)
  obtain s' where s': "ReceiveMessageCallback base_clk content s = Some s'" "hub_inv s'"
    "s' = s\<lparr>light_state := light_state s', receiveContext := receiveContext s + 1\<rparr>"
    using receive_ok [OF assms, of base_clk content] by blast
  have "samples s' = samples s \<and> iterator s' = iterator s \<and> g_continueRunning s' = g_continueRunning s \<and>
    hub_log s' = hub_log s \<and> messages s' = messages s \<and> iothub_connection s' = iothub_connection s \<and>
    callbackCounter s' = callbackCounter s \<and> in_flight s' = in_flight s"
    by (subst (1 2 3 4 5 6 7 8) s'(3)) simp
  then show ?thesis using Receive s'(1,2) by (simp add: hub_event_step_def sent_msgs_def)
qed

lemma dowork_ok:
  "hub_inv s \<Longrightarrow> \<exists>s'. IoTHubClient_LL_DoWork base_clk es s = Some s' \<and> hub_inv s' \<and> samples s' = samples s \<and>
    iterator s' = iterator s \<and> g_continueRunning s' = g_continueRunning s \<and>
    sent_msgs s' = sent_msgs s \<and> messages s' = messages s \<and>
    iothub_connection s' = iothub_connection s \<and>
    callbackCounter s' + int (length (in_flight s')) = callbackCounter s + int (length (in_flight s))"
proof (induction es arbitrary: s)
  case (Cons e es)
  obtain s1 where 1: "hub_event_step base_clk e s = Some s1" "hub_inv s1" "samples s1 = samples s"
    "iterator s1 = iterator s" "g_continueRunning s1 = g_continueRunning s" "sent_msgs s1 = sent_msgs s"
    "messages s1 = messages s" "iothub_connection s1 = iothub_connection s"
    "callbackCounter s1 + int (length (in_flight s1)) = callbackCounter s + int (length (in_flight s))"
    using event_ok [OF Cons.prems, of base_clk e] by blast
  show ?case using Cons.IH [OF 1(2)] 1 by simp
qed simp

text \<open>The other tasks touch neither the window nor the messages.\<close>

lemma other_ok:
  assumes "hub_inv s"
  shows "\<exists>s'. other_step base_clk a s = Some s' \<and> hub_inv s' \<and> s' = s\<lparr>samples := samples s', light_state := light_state s'\<rparr>"
proof -
  have q: "queue_inv (samples s)" and el: "el_inv (light_state s)" using assms by (simp_all add: hub_inv_def)
  show ?thesis
    using ring.ins_items [OF q] isr_ok [OF el, of base_clk] evt_ok(1) [OF el] button_off_ok [OF el, of base_clk] assms
    by (cases a) (fastforce simp: hub_inv_def on_light_def)+
qed

lemma others_ok:
  "hub_inv s \<Longrightarrow> \<exists>s'. others_run base_clk as s = Some s' \<and> hub_inv s' \<and>
    s' = s\<lparr>samples := samples s', light_state := light_state s'\<rparr>"
proof (induction as arbitrary: s)
  case (Cons a as)
  obtain s1 where 1: "other_step base_clk a s = Some s1" "hub_inv s1" "s1 = s\<lparr>samples := samples s1, light_state := light_state s1\<rparr>"
    using other_ok [OF Cons.prems] by blast
  obtain s2 where 2: "others_run base_clk as s1 = Some s2" "hub_inv s2" "s2 = s1\<lparr>samples := samples s2, light_state := light_state s2\<rparr>"
    using Cons.IH [OF 1(2)] by blast
  have "s2 = s\<lparr>samples := samples s2, light_state := light_state s2\<rparr>" by (subst 2(3), subst 1(3)) simp
  then show ?case using 1(1) 2(1,2) by simp
qed simp

lemma others_window:
  assumes "hub_inv s"
  shows "\<exists>s'. others_run base_clk as s = Some s' \<and> hub_inv s' \<and> iterator s' = iterator s \<and>
    callbackCounter s' = callbackCounter s \<and> in_flight s' = in_flight s \<and> sent_msgs s' = sent_msgs s \<and>
    g_continueRunning s' = g_continueRunning s"
proof -
  obtain s' where s': "others_run base_clk as s = Some s'" "hub_inv s'" "s' = s\<lparr>samples := samples s', light_state := light_state s'\<rparr>"
    using others_ok [OF assms] by blast
  have "iterator s' = iterator s \<and> callbackCounter s' = callbackCounter s \<and> in_flight s' = in_flight s \<and>
    hub_log s' = hub_log s \<and> g_continueRunning s' = g_continueRunning s"
    by (subst (1 2 3 4 5) s'(3)) simp
  then show ?thesis using s'(1,2) by (simp add: sent_msgs_def)
qed

text \<open>The guard opens the window only when nothing is in flight.\<close>

lemma enabled_window:
  assumes "hub_inv s" "hub_send_enabled s"
  shows "in_flight s = [] \<and> iterator s = callbackCounter s \<and> queue_items (samples s) \<noteq> []"
proof -
  have q: "queue_inv (samples s)" and le: "iterator s \<le> callbackCounter s"
    and win: "callbackCounter s + int (length (in_flight s)) \<le> iterator s"
    using assms by (simp_all add: hub_inv_def hub_send_enabled_def)
  have "length (in_flight s) = 0" using le win by linarith
  moreover have "queue_items (samples s) \<noteq> []"
    using ring.is_empty_iff [OF q] assms(2) by (simp add: hub_send_enabled_def)
  ultimately show ?thesis using le win by simp
qed

definition hub_accepts :: "hub_input \<Rightarrow> bool" where
  "hub_accepts inp \<longleftrightarrow> in_create inp \<noteq> None \<and> in_send_ok inp"

text \<open>The slot of the next message: the counters restart at the end of the array.\<close>

definition next_slot :: "iot_state \<Rightarrow> int" where
  "next_slot s = (if 50 \<le> iterator s then 0 else iterator s)"

lemma hub_send_ok:
  fixes inp :: hub_input
  assumes inv: "hub_inv s" and en: "hub_send_enabled s"
  defines "items \<equiv> queue_items (samples s)"
  defines "later \<equiv> last_n 5 (items @ in_inserts inp)"
  shows "\<exists>s'. hub_send inp s = Some s' \<and> hub_inv s' \<and> iterator s' = next_slot s + 1 \<and>
    callbackCounter s' = next_slot s \<and> in_flight s' = (if hub_accepts inp then [nat (next_slot s)] else []) \<and>
    sent_msgs s' = sent_msgs s @ (if hub_accepts inp then [sprintf_msg (in_now inp) (hd items)] else []) \<and>
    queue_items (samples s') = (if hub_accepts inp then tl later else later) \<and>
    iothub_connection s' = hub_accepts inp \<and> light_state s' = light_state s \<and>
    g_continueRunning s' = g_continueRunning s"
proof -
  note win = enabled_window [OF inv en]
  have q: "queue_inv (samples s)" and ne: "items \<noteq> []" using inv win by (auto simp: hub_inv_def items_def)
  obtain q1 where q1: "ins_all queue_buffer_insert (in_inserts inp) (samples s) = Some q1" "queue_inv q1"
    "queue_items q1 = later"
    using ring.ins_all_newest [OF q, of "in_inserts inp"] by (auto simp: later_def items_def)
  have ne1: "queue_items q1 \<noteq> []" using ne q1(3) by (cases items) (auto simp: later_def last_n_def)
  obtain q2 where q2: "queue_buffer_removeData (hd items) q1 = Some (hd later, q2)" "queue_inv q2"
    "queue_items q2 = tl later"
    using ring.del_items [OF q1(2) ne1, of "hd items"] q1(3) by auto
  have peek: "queue_buffer_peek (samples s) = Some (hd items)"
    using ring.peek_items [OF q] ne by (simp add: items_def)
  have slot: "0 \<le> next_slot s" "next_slot s < 50" "nat (next_slot s) < 50"
    using inv by (auto simp: next_slot_def hub_inv_def)
  have s0: "(if int MESSAGE_COUNT \<le> iterator s
      then s\<lparr>callbackCounter := callbackCounter s - iterator s, iterator := 0\<rparr> else s) =
      s\<lparr>callbackCounter := next_slot s, iterator := next_slot s\<rparr>"
    using win by (auto simp: next_slot_def MESSAGE_COUNT_def)
  have len: "length (messages s) = 50" using inv by (simp add: hub_inv_def MESSAGE_COUNT_def)
  show ?thesis
    unfolding hub_send_def s0
    using peek q1 q2 slot len inv win
    by (cases "in_create inp"; cases "in_send_ok inp")
      (simp_all add: Let_def hub_accepts_def sent_msgs_def map_filter_append map_filter_single
        hub_inv_def MESSAGE_COUNT_def)
qed

lemma hub_round_ok:
  assumes "hub_inv s"
  shows "\<exists>go s'. hub_round base_clk inp s = Some (go, s') \<and> hub_inv s' \<and>
    g_continueRunning s' = g_continueRunning s"
proof -
  obtain s1 where 1: "(if hub_send_enabled s then hub_send inp s else Some s) = Some s1" "hub_inv s1"
    "g_continueRunning s1 = g_continueRunning s"
    using hub_send_ok [OF assms, of inp] assms by (cases "hub_send_enabled s") auto
  obtain s2 where 2: "others_run base_clk (in_sleep inp) s1 = Some s2" "hub_inv s2" "g_continueRunning s2 = g_continueRunning s1"
    using others_window [OF 1(2)] by blast
  obtain s3 where 3: "IoTHubClient_LL_DoWork base_clk (in_events inp) s2 = Some s3" "hub_inv s3"
    "g_continueRunning s3 = g_continueRunning s2"
    using dowork_ok [OF 2(2)] by blast
  obtain s4 where 4: "others_run base_clk (in_pause inp) s3 = Some s4" "hub_inv s4" "g_continueRunning s4 = g_continueRunning s3"
    using others_window [OF 3(2)] by blast
  show ?thesis using 1 2 3 4 by (auto simp: hub_round_def)
qed

text \<open>A message the library takes stays sent, whatever follows in its round.\<close>

lemma accepted_round:
  assumes "hub_inv s" "hub_send_enabled s" "hub_accepts inp"
  shows "\<exists>s'. hub_round base_clk inp s = Some (\<not> in_conn_lost inp \<and> g_continueRunning s, s') \<and>
    sent_msgs s' = sent_msgs s @ [sprintf_msg (in_now inp) (hd (queue_items (samples s)))]"
proof -
  obtain s1 where 1: "hub_send inp s = Some s1" "hub_inv s1" "g_continueRunning s1 = g_continueRunning s"
    "sent_msgs s1 = sent_msgs s @ [sprintf_msg (in_now inp) (hd (queue_items (samples s)))]"
    using hub_send_ok [OF assms(1,2), of inp] assms(3) by auto
  obtain s2 where 2: "others_run base_clk (in_sleep inp) s1 = Some s2" "hub_inv s2" "sent_msgs s2 = sent_msgs s1"
    "g_continueRunning s2 = g_continueRunning s1"
    using others_window [OF 1(2)] by blast
  obtain s3 where 3: "IoTHubClient_LL_DoWork base_clk (in_events inp) s2 = Some s3" "hub_inv s3" "sent_msgs s3 = sent_msgs s2"
    "g_continueRunning s3 = g_continueRunning s2"
    using dowork_ok [OF 2(2)] by blast
  obtain s4 where 4: "others_run base_clk (in_pause inp) s3 = Some s4" "sent_msgs s4 = sent_msgs s3"
    "g_continueRunning s4 = g_continueRunning s3"
    using others_window [OF 3(2)] by blast
  show ?thesis using 1 2 3 4 assms(2) by (cases "in_conn_lost inp") (simp_all add: hub_round_def)
qed

lemma hub_session_ok:
  "hub_inv s \<Longrightarrow> \<exists>r s'. hub_session base_clk inps s = Some (r, s') \<and> hub_inv s'"
proof (induction inps arbitrary: s)
  case (Cons inp inps)
  then show ?case using hub_round_ok [OF Cons.prems, of base_clk inp] by fastforce
qed auto

lemma final_dowork_ok:
  "hub_inv s \<Longrightarrow> \<exists>s'. final_dowork base_clk evs n s = Some s' \<and> hub_inv s' \<and> samples s' = samples s \<and>
     sent_msgs s' = sent_msgs s"
proof (induction n)
  case (Suc n)
  then obtain s1 where 1: "final_dowork base_clk evs n s = Some s1" "hub_inv s1" "samples s1 = samples s"
    "sent_msgs s1 = sent_msgs s"
    by blast
  show ?case using dowork_ok [OF 1(2), of base_clk "evs n"] 1 by auto
qed simp

lemma hub_after_session_ok:
  assumes "hub_inv s"
  shows "\<exists>s'. hub_after_session base_clk c s = Some s' \<and> hub_inv s' \<and> samples s' = samples s \<and>
    sent_msgs s' = sent_msgs s"
proof -
  obtain s1 where 1: "(if int MESSAGE_COUNT \<le> callbackCounter s
      then final_dowork base_clk (final_events c) DOWORK_LOOP_NUM s else Some s) = Some s1"
    "hub_inv s1" "samples s1 = samples s" "sent_msgs s1 = sent_msgs s"
    using final_dowork_ok [OF assms, of base_clk "final_events c" DOWORK_LOOP_NUM] assms
    by (cases "int MESSAGE_COUNT \<le> callbackCounter s") auto
  show ?thesis using dowork_ok [OF 1(2), of base_clk "destroy_events c"] 1 by (auto simp: hub_after_session_def)
qed

lemma hub_inv_connected [simp]: "hub_inv (s\<lparr>iothub_connection := b\<rparr>) = hub_inv s"
  by (simp add: hub_inv_def)

lemma hub_connection_ok:
  assumes "hub_inv s"
  shows "\<exists>out s'. hub_connection base_clk c s = Some (out, s') \<and> hub_inv s'"
proof -
  obtain r s1 where 1: "hub_session base_clk (rounds c) (s\<lparr>iothub_connection := True\<rparr>) = Some (r, s1)" "hub_inv s1"
    using hub_session_ok [of "s\<lparr>iothub_connection := True\<rparr>" base_clk "rounds c"] assms by auto
  show ?thesis
    using assms 1 hub_after_session_ok [OF 1(2), of base_clk c] dowork_ok [OF assms, of base_clk "destroy_events c"]
    by (auto simp: hub_connection_def)
qed

lemma hub_run_ok:
  "hub_inv s \<Longrightarrow> \<exists>out s'. iothub_client_sample_mqtt_run base_clk cs s = Some (out, s') \<and> hub_inv s'"
proof (induction cs arbitrary: s)
  case (Cons c cs)
  then show ?case using hub_connection_ok [OF Cons.prems, of base_clk c] by fastforce
qed simp

section \<open>The stuck window\<close>

text \<open>One hand-over that fails leaves \<open>iterator\<close> one ahead with nothing in flight. No event
  ever closes that gap.\<close>

definition hub_stuck :: "iot_state \<Rightarrow> bool" where
  "hub_stuck s \<longleftrightarrow> hub_inv s \<and> in_flight s = [] \<and> iterator s = callbackCounter s + 1"

lemma stuck_not_enabled: "hub_stuck s \<Longrightarrow> \<not> hub_send_enabled s"
  by (simp add: hub_stuck_def hub_send_enabled_def)

lemma stuck_dowork:
  assumes "hub_stuck s"
  shows "\<exists>s'. IoTHubClient_LL_DoWork base_clk es s = Some s' \<and> hub_stuck s' \<and> sent_msgs s' = sent_msgs s"
proof -
  have inv: "hub_inv s" using assms by (simp add: hub_stuck_def)
  obtain s' where s': "IoTHubClient_LL_DoWork base_clk es s = Some s'" "hub_inv s'" "iterator s' = iterator s"
    "sent_msgs s' = sent_msgs s"
    "callbackCounter s' + int (length (in_flight s')) = callbackCounter s + int (length (in_flight s))"
    using dowork_ok [OF inv, of base_clk es] by blast
  have gap: "iterator s' = callbackCounter s' + int (length (in_flight s')) + 1"
    using s'(3,5) assms by (simp add: hub_stuck_def)
  moreover have "iterator s' \<le> callbackCounter s' + 1" using s'(2) by (simp add: hub_inv_def)
  ultimately have "length (in_flight s') = 0" by linarith
  then show ?thesis using s'(1,2,4) gap by (simp add: hub_stuck_def)
qed

lemma stuck_others:
  assumes "hub_stuck s"
  shows "\<exists>s'. others_run base_clk as s = Some s' \<and> hub_stuck s' \<and> sent_msgs s' = sent_msgs s"
  using others_window [of s base_clk as] assms by (auto simp: hub_stuck_def)

text \<open>The part of a round after the hand-over.\<close>

lemma stuck_rest:
  assumes "hub_stuck s1" "sent_msgs s1 = m" "(if hub_send_enabled s then hub_send inp s else Some s) = Some s1"
  shows "\<exists>go s'. hub_round base_clk inp s = Some (go, s') \<and> hub_stuck s' \<and> sent_msgs s' = m"
proof -
  obtain s2 where 2: "others_run base_clk (in_sleep inp) s1 = Some s2" "hub_stuck s2" "sent_msgs s2 = sent_msgs s1"
    using stuck_others [OF assms(1)] by blast
  obtain s3 where 3: "IoTHubClient_LL_DoWork base_clk (in_events inp) s2 = Some s3" "hub_stuck s3" "sent_msgs s3 = sent_msgs s2"
    using stuck_dowork [OF 2(2)] by blast
  obtain s4 where 4: "others_run base_clk (in_pause inp) s3 = Some s4" "hub_stuck s4" "sent_msgs s4 = sent_msgs s3"
    using stuck_others [OF 3(2)] by blast
  show ?thesis using 2 3 4 assms(2,3) by (auto simp: hub_round_def simp del: ex_simps)
qed

lemma stuck_round:
  assumes "hub_stuck s"
  shows "\<exists>go s'. hub_round base_clk inp s = Some (go, s') \<and> hub_stuck s' \<and> sent_msgs s' = sent_msgs s"
  by (rule stuck_rest [OF assms refl]) (simp add: stuck_not_enabled [OF assms])

lemma stuck_session:
  "hub_stuck s \<Longrightarrow> \<exists>r s'. hub_session base_clk inps s = Some (r, s') \<and> hub_stuck s' \<and> sent_msgs s' = sent_msgs s"
proof (induction inps arbitrary: s)
  case (Cons inp inps)
  then show ?case using stuck_round [OF Cons.prems, of base_clk inp] by fastforce
qed auto

lemma stuck_final:
  "hub_stuck s \<Longrightarrow> \<exists>s'. final_dowork base_clk evs n s = Some s' \<and> hub_stuck s' \<and> sent_msgs s' = sent_msgs s"
proof (induction n)
  case (Suc n)
  then show ?case using stuck_dowork by fastforce
qed simp

lemma stuck_after:
  "hub_stuck s \<Longrightarrow> \<exists>s'. hub_after_session base_clk c s = Some s' \<and> hub_stuck s' \<and> sent_msgs s' = sent_msgs s"
  using stuck_final [of s base_clk "final_events c" DOWORK_LOOP_NUM] stuck_dowork
  by (fastforce simp: hub_after_session_def)

lemma stuck_connection:
  assumes "hub_stuck s"
  shows "\<exists>out s'. hub_connection base_clk c s = Some (out, s') \<and> hub_stuck s' \<and> sent_msgs s' = sent_msgs s"
proof -
  have st: "hub_stuck (s\<lparr>iothub_connection := True\<rparr>)" "sent_msgs (s\<lparr>iothub_connection := True\<rparr>) = sent_msgs s"
    using assms by (simp_all add: hub_stuck_def sent_msgs_def)
  obtain r s1 where 1: "hub_session base_clk (rounds c) (s\<lparr>iothub_connection := True\<rparr>) = Some (r, s1)"
    "hub_stuck s1" "sent_msgs s1 = sent_msgs s"
    using stuck_session [OF st(1), of base_clk "rounds c"] st(2) by auto
  show ?thesis
    using assms 1 stuck_after [OF 1(2), of base_clk c] stuck_dowork [OF assms, of base_clk "destroy_events c"]
    by (auto simp: hub_connection_def)
qed

lemma stuck_run:
  "hub_stuck s \<Longrightarrow> \<exists>out s'. iothub_client_sample_mqtt_run base_clk cs s = Some (out, s') \<and>
    hub_stuck s' \<and> sent_msgs s' = sent_msgs s"
proof (induction cs arbitrary: s)
  case (Cons c cs)
  then show ?case using stuck_connection [OF Cons.prems, of base_clk c] by fastforce
qed simp

lemma failed_send_sticks:
  assumes "hub_inv s" "hub_send_enabled s" "\<not> hub_accepts inp"
  shows "\<exists>go s'. hub_round base_clk inp s = Some (go, s') \<and> hub_stuck s' \<and> sent_msgs s' = sent_msgs s"
proof -
  obtain s1 where 1: "hub_send inp s = Some s1" "hub_stuck s1" "sent_msgs s1 = sent_msgs s"
    using hub_send_ok [OF assms(1,2), of inp] assms(3) by (auto simp: hub_stuck_def)
  show ?thesis by (rule stuck_rest [OF 1(2,3)]) (simp add: assms(2) 1(1))
qed

section \<open>The message fits its buffer\<close>

lemma printf_1f_length: "length (printf_1f v) \<le> 12"
proof -
  have "unat v < 2 ^ 32" using unsigned_less [of v] by simp
  then have "unat v < 10 ^ 10" by simp
  then show ?thesis using dec_digits_length [of "unat v" 10] by (simp add: printf_1f_def)
qed

lemma msg_json_length: "length (msg_json time d) \<le> length time + 120"
proof -
  have "unat (status d) < 2 ^ 8" using unsigned_less [of "status d"] by simp
  then have "unat (status d) < 10 ^ 3" by simp
  then have "length (dec_digits (unat (status d))) \<le> 3" using dec_digits_length [of _ 3] by simp
  then show ?thesis
    using printf_1f_length [of "mv1 d"] printf_1f_length [of "mv2 d"]
    by (simp add: msg_json_def test_id_def)
qed

lemma fits_buffer:
  assumes "now < 2 ^ 31"
  shows "sprintf_msg now d = msg_json (snd (local_time_read now)) d \<and> length (sprintf_msg now d) \<le> 140"
  using msg_json_length [of "snd (local_time_read now)" d] local_time_text(1) [OF assms]
  by (simp add: sprintf_msg_def)

section \<open>The order of the messages\<close>

lemma iothub_start_inv:
  assumes "queue_inv (samples s)" "el_inv (light_state s)" "length garbage = MESSAGE_COUNT"
  shows "hub_inv (iothub_start garbage s)"
  using assms by (simp add: hub_inv_def iothub_start_def)

text \<open>A concrete state for the instances: the queue holds five samples and nothing was sent.\<close>

definition hub_example :: iot_state where
  "hub_example = iothub_start (replicate 50 \<lparr>messageHandle = None, messageTrackingId = 0\<rparr>)
     (iot_reset\<lparr>samples := five_samples, light_state := gpio_ini el_reset\<rparr>)"

lemma hub_example_ok:
  "hub_inv hub_example" "hub_send_enabled hub_example" "queue_items (samples hub_example) =
    map (\<lambda>i. zero_sample\<lparr>mv1 := of_nat i\<rparr>) [1, 2, 3, 4, 5]" "sent_msgs hub_example = []"
proof -
  have q: "queue_inv (samples hub_example)" "samples hub_example = five_samples"
    by (simp_all add: hub_example_def iothub_start_def iot_reset_def five_samples_ok)
  show "hub_inv hub_example" unfolding hub_example_def
    by (rule iothub_start_inv) (simp_all add: iot_reset_def five_samples_ok el_inv_reset MESSAGE_COUNT_def)
  show "queue_items (samples hub_example) = map (\<lambda>i. zero_sample\<lparr>mv1 := of_nat i\<rparr>) [1, 2, 3, 4, 5]"
    unfolding q(2) by (rule five_samples_ok(2))
  then show "hub_send_enabled hub_example"
    using ring.is_empty_iff [OF q(1)]
    by (simp add: hub_send_enabled_def) (simp add: hub_example_def iothub_start_def)
  show "sent_msgs hub_example = []"
    by (simp add: sent_msgs_def hub_example_def iothub_start_def iot_reset_def List.map_filter_def)
qed

lemma items_last_n: "queue_inv q \<Longrightarrow> last_n 5 (queue_items q) = queue_items q"
  using ring.items_le [of q] by simp

lemma round_order:
  assumes inv: "hub_inv s" and no: "in_inserts inp = []" and quiet: "others_quiet inp"
    and r: "hub_round base_clk inp s = Some (go, s')"
  shows "\<exists>times. length times \<le> length (queue_items (samples s)) \<and>
    sent_msgs s' = sent_msgs s @ map2 sprintf_msg times (queue_items (samples s)) \<and>
    queue_items (samples s') = drop (length times) (queue_items (samples s))"
proof (cases "hub_send_enabled s")
  case True
  let ?items = "queue_items (samples s)"
  have qi: "queue_inv (samples s)" using inv by (simp add: hub_inv_def)
  obtain y ys where items: "?items = y # ys"
    using enabled_window [OF inv True] by (cases ?items) auto
  obtain s1 where 1: "hub_send inp s = Some s1" "hub_inv s1"
    "sent_msgs s1 = sent_msgs s @ (if hub_accepts inp then [sprintf_msg (in_now inp) (hd ?items)] else [])"
    "queue_items (samples s1) = (if hub_accepts inp then tl ?items else ?items)"
    using hub_send_ok [OF inv True, of inp] no items_last_n [OF qi] by auto
  have "sent_msgs s' = sent_msgs s1" "samples s' = samples s1"
    using dowork_ok [OF 1(2), of base_clk "in_events inp"] 1(1) r True
    by (auto simp: hub_round_quiet [OF quiet] split: if_splits)
  then show ?thesis
    using 1(3,4) items
    by (intro exI [of _ "if hub_accepts inp then [in_now inp] else []"]) simp
next
  case False
  then have "sent_msgs s' = sent_msgs s" "samples s' = samples s"
    using dowork_ok [OF inv, of base_clk "in_events inp"] r
    by (auto simp: hub_round_quiet [OF quiet] split: if_splits)
  then show ?thesis by (intro exI [of _ "[]"]) simp
qed

lemma map2_drop_append:
  "length xs \<le> length zs \<Longrightarrow> map2 f xs zs @ map2 f ys (drop (length xs) zs) = map2 f (xs @ ys) zs"
proof (induction xs arbitrary: zs)
  case (Cons x xs)
  then show ?case by (cases zs) auto
qed simp

lemma session_order:
  "hub_inv s \<Longrightarrow> \<forall>inp \<in> set inps. in_inserts inp = [] \<and> others_quiet inp \<Longrightarrow> hub_session base_clk inps s = Some (r, s') \<Longrightarrow>
   \<exists>times. length times \<le> length (queue_items (samples s)) \<and>
     sent_msgs s' = sent_msgs s @ map2 sprintf_msg times (queue_items (samples s)) \<and>
     queue_items (samples s') = drop (length times) (queue_items (samples s))"
proof (induction inps arbitrary: s)
  case Nil
  then show ?case by (intro exI [of _ "[]"]) simp
next
  case (Cons inp inps)
  let ?items = "queue_items (samples s)"
  obtain go s1 where 1: "hub_round base_clk inp s = Some (go, s1)" "hub_inv s1"
    using hub_round_ok [OF Cons.prems(1), of base_clk inp] by blast
  obtain t1 where t1: "length t1 \<le> length ?items" "sent_msgs s1 = sent_msgs s @ map2 sprintf_msg t1 ?items"
    "queue_items (samples s1) = drop (length t1) ?items"
    using round_order [OF Cons.prems(1) _ _ 1(1)] Cons.prems(2) by auto
  show ?case
  proof (cases go)
    case True
    then have "hub_session base_clk inps s1 = Some (r, s')" using Cons.prems(3) 1(1) by simp
    then obtain t2 where t2: "length t2 \<le> length (drop (length t1) ?items)"
      "sent_msgs s' = sent_msgs s1 @ map2 sprintf_msg t2 (drop (length t1) ?items)"
      "queue_items (samples s') = drop (length t2) (drop (length t1) ?items)"
      using Cons.IH [OF 1(2)] Cons.prems(2) t1(3) by auto
    show ?thesis
      using t1 t2 map2_drop_append [OF t1(1), of sprintf_msg t2]
      by (intro exI [of _ "t1 @ t2"]) (simp add: add.commute)
  next
    case False
    then show ?thesis using Cons.prems(3) 1(1) t1 by auto
  qed
qed

section \<open>Progress\<close>

text \<open>The window is open: nothing is in flight and the counters agree. A round makes progress when the
  library takes the message and confirms it, and the connection holds.\<close>

definition hub_open :: "iot_state \<Rightarrow> bool" where
  "hub_open s \<longleftrightarrow> hub_inv s \<and> in_flight s = [] \<and> iterator s = callbackCounter s \<and> g_continueRunning s"

definition taken_round :: "hub_input \<Rightarrow> bool" where
  "taken_round inp \<longleftrightarrow> hub_accepts inp \<and> Ack \<in> set (in_events inp) \<and> \<not> in_conn_lost inp"

definition good_round :: "hub_input \<Rightarrow> bool" where
  "good_round inp \<longleftrightarrow> taken_round inp \<and> in_inserts inp = [] \<and> others_quiet inp"

lemma event_in_flight:
  assumes "hub_event_step base_clk e s = Some s'"
  shows "in_flight s' = (if e = Ack then tl (in_flight s) else in_flight s)"
  using assms
  by (cases e) (auto simp: hub_event_step_def SendConfirmationCallback_def ReceiveMessageCallback_def Let_def
      split: list.splits bind_splits option.splits if_splits)

lemma dowork_in_flight:
  "IoTHubClient_LL_DoWork base_clk es s = Some s' \<Longrightarrow> in_flight s' = drop (count_list es Ack) (in_flight s)"
proof (induction es arbitrary: s)
  case (Cons e es)
  then obtain s1 where 1: "hub_event_step base_clk e s = Some s1" "IoTHubClient_LL_DoWork base_clk es s1 = Some s'"
    by (auto split: bind_splits)
  show ?case using Cons.IH [OF 1(2)] event_in_flight [OF 1(1)] by (simp add: drop_Suc)
qed simp

lemma open_round_any:
  assumes op: "hub_open s" and good: "taken_round inp" and quiet: "others_quiet inp"
  shows "\<exists>s'. hub_round base_clk inp s = Some (True, s') \<and> hub_open s' \<and>
    sent_msgs s' = sent_msgs s @ map2 sprintf_msg [in_now inp] (queue_items (samples s)) \<and>
    queue_items (samples s') = (if queue_items (samples s) = [] then []
      else tl (last_n 5 (queue_items (samples s) @ in_inserts inp)))"
proof -
  let ?items = "queue_items (samples s)"
  have inv: "hub_inv s" and q: "queue_inv (samples s)" using op by (simp_all add: hub_open_def hub_inv_def)
  have ack: "1 \<le> count_list (in_events inp) Ack"
    using good count_list_0_iff [of "in_events inp" Ack] by (simp add: taken_round_def)
  have acked: "in_flight s2 = []" if "IoTHubClient_LL_DoWork base_clk (in_events inp) s1 = Some s2"
    "length (in_flight s1) \<le> 1" for s1 s2
    using dowork_in_flight [OF that(1)] that(2) ack by simp
  show ?thesis
  proof (cases "hub_send_enabled s")
    case True
    have ne: "?items \<noteq> []" using enabled_window [OF inv True] by simp
    obtain s1 where 1: "hub_send inp s = Some s1" "hub_inv s1" "iterator s1 = callbackCounter s1 + 1"
      "length (in_flight s1) = 1" "sent_msgs s1 = sent_msgs s @ [sprintf_msg (in_now inp) (hd ?items)]"
      "queue_items (samples s1) = tl (last_n 5 (?items @ in_inserts inp))" "g_continueRunning s1 = g_continueRunning s"
      using hub_send_ok [OF inv True, of inp] good by (auto simp: taken_round_def)
    obtain s2 where 2: "IoTHubClient_LL_DoWork base_clk (in_events inp) s1 = Some s2" "hub_inv s2"
      "samples s2 = samples s1" "iterator s2 = iterator s1" "g_continueRunning s2 = g_continueRunning s1"
      "sent_msgs s2 = sent_msgs s1"
      "callbackCounter s2 + int (length (in_flight s2)) = callbackCounter s1 + int (length (in_flight s1))"
      using dowork_ok [OF 1(2), of base_clk "in_events inp"] by blast
    have "in_flight s2 = []" using acked [OF 2(1)] 1(4) by simp
    then have "hub_open s2" using 1 2 op by (simp add: hub_open_def)
    moreover have "map2 sprintf_msg [in_now inp] ?items = [sprintf_msg (in_now inp) (hd ?items)]"
      using ne by (cases ?items) simp_all
    ultimately show ?thesis using 1 2 True good op ne by (simp add: hub_round_quiet [OF quiet] taken_round_def hub_open_def)
  next
    case False
    then have "?items = []" using ring.is_empty_iff [OF q] op by (auto simp: hub_send_enabled_def hub_open_def)
    moreover obtain s2 where 2: "IoTHubClient_LL_DoWork base_clk (in_events inp) s = Some s2" "hub_inv s2"
      "samples s2 = samples s" "iterator s2 = iterator s" "g_continueRunning s2 = g_continueRunning s"
      "sent_msgs s2 = sent_msgs s"
      "callbackCounter s2 + int (length (in_flight s2)) = callbackCounter s + int (length (in_flight s))"
      using dowork_ok [OF inv, of base_clk "in_events inp"] by blast
    moreover have "in_flight s2 = []" using acked [OF 2(1)] op by (simp add: hub_open_def)
    ultimately show ?thesis using False good op by (simp add: hub_round_quiet [OF quiet] taken_round_def hub_open_def)
  qed
qed

lemma open_round:
  assumes op: "hub_open s" and good: "good_round inp"
  shows "\<exists>s'. hub_round base_clk inp s = Some (True, s') \<and> hub_open s' \<and>
    sent_msgs s' = sent_msgs s @ map2 sprintf_msg [in_now inp] (queue_items (samples s)) \<and>
    queue_items (samples s') = tl (queue_items (samples s))"
proof -
  have "queue_inv (samples s)" using op by (simp add: hub_open_def hub_inv_def)
  then show ?thesis
    using open_round_any [OF op, of inp base_clk] good items_last_n [of "samples s"]
    by (auto simp: good_round_def split: if_splits)
qed

lemma map2_hd_tl: "map2 f [x] ys @ map2 f xs (tl ys) = map2 f (x # xs) ys"
  by (cases ys) simp_all

lemma open_session:
  "hub_open s \<Longrightarrow> \<forall>inp \<in> set inps. good_round inp \<Longrightarrow>
   \<exists>s'. hub_session base_clk inps s = Some (False, s') \<and> hub_open s' \<and>
     sent_msgs s' = sent_msgs s @ map2 sprintf_msg (map in_now inps) (queue_items (samples s)) \<and>
     queue_items (samples s') = drop (length inps) (queue_items (samples s))"
proof (induction inps arbitrary: s)
  case (Cons inp inps)
  obtain s1 where 1: "hub_round base_clk inp s = Some (True, s1)" "hub_open s1"
    "sent_msgs s1 = sent_msgs s @ map2 sprintf_msg [in_now inp] (queue_items (samples s))"
    "queue_items (samples s1) = tl (queue_items (samples s))"
    using open_round [OF Cons.prems(1)] Cons.prems(2) by (metis list.set_intros(1))
  obtain s2 where 2: "hub_session base_clk inps s1 = Some (False, s2)" "hub_open s2"
    "sent_msgs s2 = sent_msgs s1 @ map2 sprintf_msg (map in_now inps) (queue_items (samples s1))"
    "queue_items (samples s2) = drop (length inps) (queue_items (samples s1))"
    using Cons.IH [OF 1(2)] Cons.prems(2) by auto
  have "sent_msgs s2 = sent_msgs s @ map2 sprintf_msg (map in_now (inp # inps)) (queue_items (samples s))"
    using 1(3,4) 2(3) map2_hd_tl [of sprintf_msg "in_now inp" "queue_items (samples s)" "map in_now inps"] by simp
  then show ?case using 1(1,4) 2(1,2,4) by (simp add: drop_Suc)
qed simp

section \<open>Properties\<close>

text \<open>C11: Whatever the library, the network and the clock do, and whatever whole operations of the other tasks
  fall into the run (samples inserted while a message is handed over, before \<^verbatim>\<open>DoWork\<close> or between two
  rounds; interrupts, steps of the event task and the manager's switching off), a run of the telemetry
  task indexes no array outside its bounds: it goes on or returns a value. At most one message is ever handed
  over and not confirmed, and the message counter stays between 0 and 50.\<close>

theorem telemetry_runs:
  assumes "queue_inv (samples s)" "el_inv (light_state s)" "length garbage = MESSAGE_COUNT"
  shows "\<exists>out s'. iothub_client_sample_mqtt_run base_clk cs (iothub_start garbage s) = Some (out, s') \<and>
    length (in_flight s') \<le> 1 \<and> 0 \<le> iterator s' \<and> iterator s' \<le> 50 \<and>
    iterator s' \<le> callbackCounter s' + 1 \<and> queue_inv (samples s') \<and> el_inv (light_state s')"
proof -
  obtain out s' where s': "iothub_client_sample_mqtt_run base_clk cs (iothub_start garbage s) = Some (out, s')"
    "hub_inv s'"
    using hub_run_ok [OF iothub_start_inv [OF assms], of base_clk cs] by blast
  have "length (in_flight s') \<le> 1"
    using s'(2) unfolding hub_inv_def by linarith
  then show ?thesis using s' unfolding hub_inv_def by simp
qed

text \<open>The instance starts with five samples; in its first round one is sent while the ADC task inserts into the
  full queue, the interrupt and the event task run, and one more sample comes before the next round.\<close>

definition busy_conn :: conn_input where
  "busy_conn = \<lparr>platform_ok = True, client_ok = True, callback_ok = True,
     rounds = [\<lparr>in_now = 0, in_inserts = [zero_sample], in_sleep = [Adc_Insert zero_sample, Timer_Isr, Evt_Handling],
       in_pause = [Manager_Off, Adc_Insert zero_sample], in_create = Some 1, in_send_ok = True, in_events = [Ack],
       in_conn_lost = False\<rparr>],
     final_events = (\<lambda>_. []), destroy_events = []\<rparr>"

lemma busy_conn_sends:
  "\<exists>s'. iothub_client_sample_mqtt_run base_clk [busy_conn] hub_example = Some (Still_Running, s') \<and>
     sent_msgs s' = [sprintf_msg 0 (zero_sample\<lparr>mv1 := 1\<rparr>)]"
proof -
  let ?inp = "hd (rounds busy_conn)" let ?s = "hub_example\<lparr>iothub_connection := True\<rparr>"
  have inv: "hub_inv ?s" "hub_send_enabled ?s" "queue_items (samples ?s) = map (\<lambda>i. zero_sample\<lparr>mv1 := of_nat i\<rparr>) [1, 2, 3, 4, 5]"
    "sent_msgs ?s = []" "g_continueRunning ?s"
    using hub_example_ok by (simp_all add: hub_send_enabled_def sent_msgs_def)
      (simp add: hub_example_def iothub_start_def)
  have acc: "hub_accepts ?inp" by (simp add: busy_conn_def hub_accepts_def)
  obtain s' where "hub_round base_clk ?inp ?s = Some (True, s')" "sent_msgs s' = [sprintf_msg 0 (zero_sample\<lparr>mv1 := 1\<rparr>)]"
    using accepted_round [OF inv(1,2) acc, of base_clk] inv(3-5) by (auto simp: busy_conn_def)
  then show ?thesis by (simp add: busy_conn_def hub_connection_def)
qed

theorem telemetry_runs_witness:
  "\<exists>s'. iothub_client_sample_mqtt_run 80000000 [busy_conn] hub_example = Some (Still_Running, s') \<and>
    sent_msgs s' = [sprintf_msg 0 (zero_sample\<lparr>mv1 := 1\<rparr>)] \<and> length (in_flight s') \<le> 1 \<and> queue_inv (samples s')"
  using telemetry_runs [of "iot_reset\<lparr>samples := five_samples, light_state := gpio_ini el_reset\<rparr>"
      "replicate 50 \<lparr>messageHandle = None, messageTrackingId = 0\<rparr>" 80000000 "[busy_conn]"]
    busy_conn_sends [of 80000000]
  by (auto simp: hub_example_def [symmetric] five_samples_ok el_inv_reset MESSAGE_COUNT_def)

text \<open>When the library takes a message, that message is the text of the queue's head as it was read,
  and one sample leaves the queue: the head, or, when insertions during the hand-over overran the
  queue, the oldest sample left.\<close>

theorem hub_sends_head:
  assumes "hub_inv s" "hub_send_enabled s" "hub_accepts inp"
  shows "\<exists>s'. hub_send inp s = Some s' \<and> hub_inv s' \<and>
    sent_msgs s' = sent_msgs s @ [sprintf_msg (in_now inp) (hd (queue_items (samples s)))] \<and>
    queue_items (samples s') = tl (last_n 5 (queue_items (samples s) @ in_inserts inp)) \<and>
    iothub_check_connection s' \<and> iterator s' = callbackCounter s' + 1 \<and>
    in_flight s' = [nat (callbackCounter s')]"
  using hub_send_ok [OF assms(1,2), of inp] assms(3) by (auto simp: iothub_check_connection_def)

theorem hub_sends_head_witness:
  "\<exists>s'. hub_send \<lparr>in_now = 0, in_inserts = [zero_sample], in_sleep = [], in_pause = [], in_create = Some 1, in_send_ok = True, in_events = [],
      in_conn_lost = False\<rparr> hub_example = Some s' \<and>
    sent_msgs s' = [sprintf_msg 0 (zero_sample\<lparr>mv1 := 1\<rparr>)] \<and>
    queue_items (samples s') = map (\<lambda>i. zero_sample\<lparr>mv1 := of_nat i\<rparr>) [3, 4, 5] @ [zero_sample]"
  using hub_sends_head [OF hub_example_ok(1,2), of "\<lparr>in_now = 0, in_inserts = [zero_sample], in_sleep = [], in_pause = [], in_create = Some 1,
      in_send_ok = True, in_events = [], in_conn_lost = False\<rparr>"]
  by (auto simp: hub_example_ok(3,4) hub_accepts_def last_n_def)

text \<open>When no sample is inserted during a hand-over, a session of any length sends the samples of the
  queue in their order, each once, and the rest stays in the queue: none is lost and none is sent
  twice.\<close>

theorem session_sends_in_order:
  assumes "hub_inv s" "\<forall>inp \<in> set inps. in_inserts inp = [] \<and> others_quiet inp"
  shows "\<exists>r s' times. hub_session base_clk inps s = Some (r, s') \<and> length times \<le> length (queue_items (samples s)) \<and>
    sent_msgs s' = sent_msgs s @ map2 sprintf_msg times (queue_items (samples s)) \<and>
    queue_items (samples s') = drop (length times) (queue_items (samples s))"
proof -
  obtain r s' where "hub_session base_clk inps s = Some (r, s')"
    using hub_session_ok [OF assms(1), of base_clk inps] by blast
  then show ?thesis using session_order [OF assms] by blast
qed

theorem session_sends_in_order_witness:
  "\<exists>r s' times. hub_session 80000000 (replicate 3 \<lparr>in_now = 0, in_inserts = [], in_sleep = [], in_pause = [], in_create = Some 1,
      in_send_ok = True, in_events = [Ack], in_conn_lost = False\<rparr>) hub_example = Some (r, s') \<and>
    length times \<le> length (queue_items (samples hub_example)) \<and>
    sent_msgs s' = sent_msgs hub_example @ map2 sprintf_msg times (queue_items (samples hub_example)) \<and>
    queue_items (samples s') = drop (length times) (queue_items (samples hub_example))"
  by (rule session_sends_in_order [OF hub_example_ok(1)]) (simp add: others_quiet_def)

text \<open>One hand-over that fails (no message object, or the library refuses it) ends the telemetry for
  good: in no later round of the session and in no later connection is a message sent.\<close>

theorem failed_handover_stops_telemetry:
  assumes "hub_inv s" "hub_send_enabled s" "\<not> hub_accepts inp"
  shows "\<exists>go s1. hub_round base_clk inp s = Some (go, s1) \<and>
    (\<forall>inps. \<exists>r s2. hub_session base_clk inps s1 = Some (r, s2) \<and> sent_msgs s2 = sent_msgs s) \<and>
    (\<forall>cs. \<exists>out s2. iothub_client_sample_mqtt_run base_clk cs s1 = Some (out, s2) \<and> sent_msgs s2 = sent_msgs s)"
proof -
  obtain go s1 where 1: "hub_round base_clk inp s = Some (go, s1)" "hub_stuck s1" "sent_msgs s1 = sent_msgs s"
    using failed_send_sticks [OF assms] by blast
  then show ?thesis using stuck_session [OF 1(2)] stuck_run [OF 1(2)] by metis
qed

theorem failed_handover_stops_telemetry_witness:
  "\<exists>go s1. hub_round 80000000 \<lparr>in_now = 0, in_inserts = [], in_sleep = [], in_pause = [], in_create = Some 1, in_send_ok = False, in_events = [],
      in_conn_lost = False\<rparr> hub_example = Some (go, s1) \<and>
    (\<forall>inps. \<exists>r s2. hub_session 80000000 inps s1 = Some (r, s2) \<and> sent_msgs s2 = [])"
  using failed_handover_stops_telemetry [OF hub_example_ok(1,2), of "\<lparr>in_now = 0, in_inserts = [], in_sleep = [], in_pause = [], in_create = Some 1,
      in_send_ok = False, in_events = [], in_conn_lost = False\<rparr>" 80000000]
  by (auto simp: hub_example_ok(4) hub_accepts_def)

text \<open>When a connection that the platform allowed ends, the task connects again exactly if at least
  one and fewer than fifty confirmations are counted, and otherwise it returns. In particular a
  task that cannot create its first client never tries again.\<close>

theorem reconnects_between_1_and_49:
  assumes "hub_connection base_clk c s = Some (out, s')" "platform_ok c" "out \<noteq> Still_Running"
  shows "(out = Continue_Loop \<longleftrightarrow> 0 < callbackCounter s' \<and> callbackCounter s' < 50) \<and>
    (\<not> client_ok c \<longrightarrow> (\<forall>cs garbage. iothub_client_sample_mqtt_run base_clk (c # cs) (iothub_start garbage s) =
       Some (Exit_Loop, iothub_start garbage s)))"
proof -
  have "out = hub_reconnects s'"
    using assms by (auto simp: hub_connection_def split: if_splits bind_splits prod.splits)
  then have "out = Continue_Loop \<longleftrightarrow> 0 < callbackCounter s' \<and> callbackCounter s' < 50"
    by (simp add: hub_reconnects_def MESSAGE_COUNT_def)
  then show ?thesis
    using assms(2) by (simp add: hub_connection_def hub_reconnects_def iothub_start_def)
qed

theorem reconnects_between_1_and_49_witness:
  "\<forall>cs garbage. iothub_client_sample_mqtt_run 80000000
      (\<lparr>platform_ok = True, client_ok = False, callback_ok = True, rounds = [], final_events = (\<lambda>_. []), destroy_events = []\<rparr> # cs)
      (iothub_start garbage iot_reset) = Some (Exit_Loop, iothub_start garbage iot_reset)"
  using reconnects_between_1_and_49 [of 80000000 "\<lparr>platform_ok = True, client_ok = False, callback_ok = True, rounds = [],
      final_events = (\<lambda>_. []), destroy_events = []\<rparr>" iot_reset Exit_Loop iot_reset]
  by (simp add: hub_connection_def hub_reconnects_def iot_reset_def)

text \<open>C23: A received message is counted. Exactly the text \<^verbatim>\<open>TEST ON\<close> switches the light on and starts
  its test, exactly \<^verbatim>\<open>TEST OFF\<close> switches it off; any other content, \<^verbatim>\<open>quit\<close> included, and a message
  without content leave the light alone.\<close>

theorem commands_switch_light:
  assumes "el_inv (light_state s)"
  shows "\<exists>s'. ReceiveMessageCallback base_clk content s = Some s' \<and> receiveContext s' = receiveContext s + 1 \<and>
    el_inv (light_state s') \<and>
    (if content = Some ''TEST ON'' then el_lit (light_state s') \<and> \<not> el_ended (light_state s')
     else if content = Some ''TEST OFF'' then \<not> el_lit (light_state s')
     else light_state s' = light_state s)"
proof (cases content)
  case (Some buffer)
  have eq: "length buffer = length c \<and> memcmp_eq buffer c (length buffer) \<longleftrightarrow> buffer = c" for c
    by (auto simp: memcmp_eq_def)
  have on: "(length buffer = length ''TEST ON'' \<and> memcmp_eq buffer ''TEST ON'' (length buffer)) \<longleftrightarrow> buffer = ''TEST ON''"
    by (rule eq)
  have off: "(length buffer = length ''TEST OFF'' \<and> memcmp_eq buffer ''TEST OFF'' (length buffer)) \<longleftrightarrow> buffer = ''TEST OFF''"
    by (rule eq)
  show ?thesis
    unfolding ReceiveMessageCallback_def Some option.case Let_def on off
    using button_on_ok [OF assms, of base_clk] button_off_ok [OF assms, of base_clk] assms by auto
qed (use assms in \<open>simp add: ReceiveMessageCallback_def\<close>)

theorem commands_switch_light_witness:
  "\<exists>s'. ReceiveMessageCallback 80000000 (Some ''TEST ON'') hub_example = Some s' \<and> el_lit (light_state s')"
  using commands_switch_light [of hub_example 80000000 "Some ''TEST ON''"] hub_example_ok(1)
  by (auto simp: hub_inv_def)

text \<open>The message text is never cut off: with its time stamp it is at most 140 characters, and the
  buffer holds 1023.\<close>

theorem message_fits_buffer:
  assumes "now < 2 ^ 31"
  shows "sprintf_msg now d = msg_json (snd (local_time_read now)) d \<and> length (sprintf_msg now d) \<le> 140"
  by (rule fits_buffer [OF assms])

theorem message_fits_buffer_witness:
  "length (sprintf_msg 1556000000 (zero_sample\<lparr>mv1 := 4294967295, mv2 := 4294967295, status := 255\<rparr>)) \<le> 140"
  by (rule message_fits_buffer [THEN conjunct2]) simp

text \<open>Progress: while the library takes each message and confirms it, and the connection holds, as many
  rounds as the queue has samples send all of them, in order, each with the time of its round, and
  leave the queue empty and the window open. A run starts with an open window.\<close>

theorem session_drains_queue:
  assumes "hub_open s" "\<forall>inp \<in> set inps. good_round inp" "length (queue_items (samples s)) \<le> length inps"
  shows "\<exists>s'. hub_session base_clk inps s = Some (False, s') \<and> hub_open s' \<and>
    sent_msgs s' = sent_msgs s @ map2 sprintf_msg (map in_now inps) (queue_items (samples s)) \<and>
    queue_buffer_isEmpty (samples s')"
proof -
  obtain s' where s': "hub_session base_clk inps s = Some (False, s')" "hub_open s'"
    "sent_msgs s' = sent_msgs s @ map2 sprintf_msg (map in_now inps) (queue_items (samples s))"
    "queue_items (samples s') = drop (length inps) (queue_items (samples s))"
    using open_session [OF assms(1,2)] by blast
  moreover have "queue_inv (samples s')" using s'(2) by (simp add: hub_open_def hub_inv_def)
  ultimately show ?thesis using ring.is_empty_iff assms(3) by simp
qed

theorem session_drains_queue_witness:
  "\<exists>s'. hub_session 80000000 (replicate 7 \<lparr>in_now = 0, in_inserts = [], in_sleep = [], in_pause = [], in_create = Some 1,
      in_send_ok = True, in_events = [Receive None, Ack], in_conn_lost = False\<rparr>) hub_example = Some (False, s') \<and>
    queue_buffer_isEmpty (samples s') \<and> length (sent_msgs s') = 5"
proof -
  have "hub_open hub_example"
    using hub_example_ok(1) by (simp add: hub_open_def) (simp add: hub_example_def iothub_start_def)
  then show ?thesis
    using session_drains_queue [of hub_example "replicate 7 \<lparr>in_now = 0, in_inserts = [], in_sleep = [], in_pause = [], in_create = Some 1,
      in_send_ok = True, in_events = [Receive None, Ack], in_conn_lost = False\<rparr>" 80000000]
    by (auto simp: good_round_def others_quiet_def taken_round_def hub_accepts_def hub_example_ok(3,4))
qed

end
