(* ===== verification/Adc.thy ===== *)
theory Adc
  imports Data_Buffer
begin

text \<open>
  The ADC task of \<^verbatim>\<open>main/adc.c\<close>: it averages 64 raw readings of two channels, converts them
  to millivolts, and inserts a sample into the queue when a value moved or ten rounds passed.
  The readings and the calibration (\<^verbatim>\<open>esp_adc_cal_raw_to_voltage\<close> on the two characteristics)
  are parameters; one round of the task's endless loop is \<open>adc_iteration\<close>.
\<close>

section \<open>One round of the task\<close>

datatype adc_unit_t = ADC_UNIT_1 | ADC_UNIT_2

definition adc_unit :: adc_unit_t where
  "adc_unit = ADC_UNIT_1"

definition NO_OF_SAMPLES :: nat where
  "NO_OF_SAMPLES = 64"

text \<open>What one round reads: the raw values of the two channels in the order of the loop (an
  \<open>int\<close> converted to \<open>uint32_t\<close>), those of ADC2, and the status of the emergency light.\<close>

record adc_input =
  adc1_raw_0 :: "nat \<Rightarrow> u32"
  adc1_raw_1 :: "nat \<Rightarrow> u32"
  adc2_raw :: "nat \<Rightarrow> u32"
  status_el :: u8

text \<open>The locals that survive from one round to the next. \<open>tmp_data_queue\<close> is never initialised
  as a whole: its first content is arbitrary.\<close>

record adc_state =
  tmp_data_queue :: def_queue_buffer
  cnt :: u16

function adc_multisample :: "adc_input \<Rightarrow> nat \<Rightarrow> u32 \<Rightarrow> u32 \<Rightarrow> u32 \<times> u32" where
  "adc_multisample inp i adc_reading adc_reading1 =
     (if i < NO_OF_SAMPLES
      then if adc_unit = ADC_UNIT_1
        then adc_multisample inp (Suc i) (adc_reading + adc1_raw_0 inp i) (adc_reading1 + adc1_raw_1 inp i)
        else adc_multisample inp (Suc i) (adc_reading + adc2_raw inp i) adc_reading1
      else (adc_reading, adc_reading1))"
  by pat_completeness auto
termination
  by (relation "measure (\<lambda>(inp, i, r, r1). NO_OF_SAMPLES - i)") auto

declare adc_multisample.simps [simp del]

text \<open>\<^verbatim>\<open>abs\<close> of a difference of two \<open>uint32_t\<close>: the difference wraps and is read as an \<open>int\<close>.\<close>

definition c_abs :: "32 word \<Rightarrow> 32 word" where
  "c_abs x = (if sint x < 0 then - x else x)"

definition adc_changed :: "adc_state \<Rightarrow> u32 \<Rightarrow> u32 \<Rightarrow> u8 \<Rightarrow> bool" where
  "adc_changed st mv1_new mv2_new status_el_new \<longleftrightarrow>
     (let tmp = tmp_data_queue st in
      sint (c_abs (mv1 tmp - mv1_new)) > 5 \<or>
      sint (c_abs (mv2 tmp - mv2_new)) > 10 \<or>
      \<bar>uint (status tmp) - uint status_el_new\<bar> > 0 \<or>
      cnt st mod 10 = 0)"

definition adc_measure :: "(u32 \<Rightarrow> u32) \<Rightarrow> (u32 \<Rightarrow> u32) \<Rightarrow> adc_input \<Rightarrow> u32 \<times> u32" where
  "adc_measure cal cal1 inp =
     (let (adc_reading, adc_reading1) = adc_multisample inp 0 0 0;
          adc_reading = adc_reading div of_nat NO_OF_SAMPLES;
          adc_reading1 = adc_reading1 div of_nat NO_OF_SAMPLES
      in (cal adc_reading, cal1 adc_reading1 * 2))"

text \<open>A round returns the samples it inserted (none or one) beside the new locals and queue.\<close>

definition adc_iteration ::
  "(u32 \<Rightarrow> u32) \<Rightarrow> (u32 \<Rightarrow> u32) \<Rightarrow> adc_input \<Rightarrow> adc_state \<Rightarrow> queue_state \<Rightarrow>
   (def_queue_buffer list \<times> adc_state \<times> queue_state) option" where
  "adc_iteration cal cal1 inp st q =
     (let (mv1_new, mv2_new) = adc_measure cal cal1 inp;
          status_el_new = status_el inp
      in if adc_changed st mv1_new mv2_new status_el_new
         then let tmp = (tmp_data_queue st)\<lparr>mv1 := mv1_new, mv2 := mv2_new, status := status_el_new\<rparr>
           in map_option (\<lambda>q'. ([tmp], \<lparr>tmp_data_queue = tmp, cnt = 0 + 1\<rparr>, q'))
                (queue_buffer_insert tmp True q)
         else Some ([], st\<lparr>cnt := cnt st + 1\<rparr>, q))"

fun adc_task ::
  "(u32 \<Rightarrow> u32) \<Rightarrow> (u32 \<Rightarrow> u32) \<Rightarrow> adc_input list \<Rightarrow> adc_state \<Rightarrow> queue_state \<Rightarrow>
   (def_queue_buffer list \<times> adc_state \<times> queue_state) option" where
  "adc_task cal cal1 [] st q = Some ([], st, q)"
| "adc_task cal cal1 (inp # inps) st q = do {
     (out, st, q) \<leftarrow> adc_iteration cal cal1 inp st q;
     (outs, st, q) \<leftarrow> adc_task cal cal1 inps st q;
     Some (out @ outs, st, q)
   }"

definition adc_start :: "def_queue_buffer \<Rightarrow> adc_state" where
  "adc_start garbage = \<lparr>tmp_data_queue = garbage, cnt = 0\<rparr>"

section \<open>The set-up of the converter\<close>

datatype adc_channel_t = ADC_CHANNEL_6 | ADC_CHANNEL_7
datatype adc_atten_t = ADC_ATTEN_DB_0 | ADC_ATTEN_DB_11

definition channel :: adc_channel_t where "channel = ADC_CHANNEL_6"
definition channel1 :: adc_channel_t where "channel1 = ADC_CHANNEL_7"
definition atten :: adc_atten_t where "atten = ADC_ATTEN_DB_0"
definition atten1 :: adc_atten_t where "atten1 = ADC_ATTEN_DB_11"
definition DEFAULT_VREF :: nat where "DEFAULT_VREF = 1100"

text \<open>The calls on the driver; a characterisation names the object it fills.\<close>

datatype adc_chars_id = Adc_Chars | Adc_Chars1

datatype adc_call =
    Adc1_Config_Width nat | Adc1_Config_Atten adc_channel_t adc_atten_t
  | Adc2_Config_Atten adc_channel_t adc_atten_t
  | Adc_Characterize adc_unit_t adc_atten_t nat nat adc_chars_id

definition adc_setup :: "adc_call list" where
  "adc_setup =
     (if adc_unit = ADC_UNIT_1
      then [Adc1_Config_Width 12, Adc1_Config_Atten channel atten, Adc1_Config_Atten channel1 atten1]
      else [Adc2_Config_Atten channel atten]) @
     [Adc_Characterize adc_unit atten 12 DEFAULT_VREF Adc_Chars,
      Adc_Characterize adc_unit atten1 12 DEFAULT_VREF Adc_Chars1]"

section \<open>The average of the readings\<close>

lemma unat_add_no_overflow: "unat (a :: u32) + unat b < 2 ^ 32 \<Longrightarrow> unat (a + b) = unat a + unat b"
  by (simp add: unat_word_ariths)

lemma adc_multisample_sum:
  assumes "i \<le> NO_OF_SAMPLES"
    and "\<forall>j < NO_OF_SAMPLES. unat (adc1_raw_0 inp j) \<le> 4095 \<and> unat (adc1_raw_1 inp j) \<le> 4095"
    and "unat r \<le> 4095 * i" "unat r1 \<le> 4095 * i"
    and "adc_multisample inp i r r1 = (s, s1)"
  shows "unat s = unat r + (\<Sum>j = i..<NO_OF_SAMPLES. unat (adc1_raw_0 inp j)) \<and>
    unat s1 = unat r1 + (\<Sum>j = i..<NO_OF_SAMPLES. unat (adc1_raw_1 inp j))"
  using assms
proof (induction inp i r r1 rule: adc_multisample.induct)
  case (1 inp i r r1)
  show ?case
  proof (cases "i < NO_OF_SAMPLES")
    case True
    have raw: "unat (adc1_raw_0 inp i) \<le> 4095" "unat (adc1_raw_1 inp i) \<le> 4095"
      using "1.prems"(2) True by auto
    have i64: "i < 64" using True by (simp add: NO_OF_SAMPLES_def)
    have add: "unat (r + adc1_raw_0 inp i) = unat r + unat (adc1_raw_0 inp i)"
      "unat (r1 + adc1_raw_1 inp i) = unat r1 + unat (adc1_raw_1 inp i)"
      using raw "1.prems"(3,4) i64 by (auto intro!: unat_add_no_overflow)
    have step: "adc_multisample inp (Suc i) (r + adc1_raw_0 inp i) (r1 + adc1_raw_1 inp i) = (s, s1)"
      using "1.prems"(5) True by (simp add: adc_multisample.simps [of inp i r r1] adc_unit_def)
    have "unat s = unat (r + adc1_raw_0 inp i) + (\<Sum>j = Suc i..<NO_OF_SAMPLES. unat (adc1_raw_0 inp j)) \<and>
      unat s1 = unat (r1 + adc1_raw_1 inp i) + (\<Sum>j = Suc i..<NO_OF_SAMPLES. unat (adc1_raw_1 inp j))"
      using "1.IH"(1) [OF True _ _ "1.prems"(2) _ _ step] True raw "1.prems"(3,4) add
      by (simp add: adc_unit_def)
    then show ?thesis using add True by (simp add: sum.atLeast_Suc_lessThan)
  next
    case False
    then have "(s, s1) = (r, r1)"
      using "1.prems"(5) by (simp add: adc_multisample.simps [of inp i r r1])
    then show ?thesis using False by simp
  qed
qed

lemma adc_average:
  assumes "\<forall>j < NO_OF_SAMPLES. unat (adc1_raw_0 inp j) \<le> 4095 \<and> unat (adc1_raw_1 inp j) \<le> 4095"
    and "adc_multisample inp 0 0 0 = (s, s1)"
  shows "unat (s div of_nat NO_OF_SAMPLES) = (\<Sum>j = 0..<64. unat (adc1_raw_0 inp j)) div 64"
    and "unat (s1 div of_nat NO_OF_SAMPLES) = (\<Sum>j = 0..<64. unat (adc1_raw_1 inp j)) div 64"
  using adc_multisample_sum [OF _ assms(1) _ _ assms(2)]
  by (simp_all add: unat_div NO_OF_SAMPLES_def)

section \<open>When a round reports\<close>

lemma c_abs_diff:
  fixes a b :: u32
  assumes "unat a < 2 ^ 31" "unat b < 2 ^ 31"
  shows "sint (c_abs (a - b)) = \<bar>int (unat a) - int (unat b)\<bar>"
proof (cases "sint (a - b) < 0")
  case True
  then have "c_abs (a - b) = b - a" by (simp add: c_abs_def)
  then show ?thesis using True sint_diff_small [OF assms] sint_diff_small [OF assms(2,1)] by simp
next
  case False
  then show ?thesis using sint_diff_small [OF assms] by (simp add: c_abs_def)
qed

lemma adc_changed_iff:
  assumes "unat (mv1 (tmp_data_queue st)) < 2 ^ 31" "unat m1 < 2 ^ 31"
    and "unat (mv2 (tmp_data_queue st)) < 2 ^ 31" "unat m2 < 2 ^ 31"
  shows "adc_changed st m1 m2 s \<longleftrightarrow>
    \<bar>int (unat (mv1 (tmp_data_queue st))) - int (unat m1)\<bar> > 5 \<or>
    \<bar>int (unat (mv2 (tmp_data_queue st))) - int (unat m2)\<bar> > 10 \<or>
    status (tmp_data_queue st) \<noteq> s \<or> unat (cnt st) mod 10 = 0"
proof -
  have "cnt st mod 10 = 0 \<longleftrightarrow> unat (cnt st) mod 10 = 0"
    by (simp add: word_unat_eq_iff unat_mod)
  moreover have "\<bar>uint (status (tmp_data_queue st)) - uint s\<bar> > 0 \<longleftrightarrow> status (tmp_data_queue st) \<noteq> s"
    by (simp add: word_uint_eq_iff)
  ultimately show ?thesis
    by (simp only: adc_changed_def c_abs_diff [OF assms(1,2)] c_abs_diff [OF assms(3,4)] Let_def)
qed

section \<open>The heartbeat\<close>

definition adc_cnt_ok :: "adc_state \<Rightarrow> bool" where
  "adc_cnt_ok st \<longleftrightarrow> unat (cnt st) \<le> 10"

lemma adc_cnt_start: "adc_cnt_ok (adc_start g)"
  by (simp add: adc_cnt_ok_def adc_start_def)

lemma adc_iteration_total:
  assumes "queue_inv q"
  shows "\<exists>out st' q'. adc_iteration cal cal1 inp st q = Some (out, st', q') \<and> queue_inv q' \<and>
    ins_all queue_buffer_insert out q = Some q'"
proof -
  obtain m1 m2 where m: "adc_measure cal cal1 inp = (m1, m2)" by force
  show ?thesis
    using ring.ins_items [OF assms, of "(tmp_data_queue st)\<lparr>mv1 := m1, mv2 := m2, status := status_el inp\<rparr>" True]
      assms m
    by (cases "adc_changed st m1 m2 (status_el inp)") (auto simp: adc_iteration_def Let_def)
qed

lemma adc_iteration_cnt:
  assumes "adc_iteration cal cal1 inp st q = Some (out, st', q')" "adc_cnt_ok st"
  shows "adc_cnt_ok st' \<and> (out = [] \<longrightarrow> unat (cnt st') = Suc (unat (cnt st))) \<and>
    (out \<noteq> [] \<longrightarrow> out = [tmp_data_queue st'] \<and> cnt st' = 1) \<and> (unat (cnt st) \<in> {0, 10} \<longrightarrow> out \<noteq> [])"
proof -
  obtain m1 m2 where m: "adc_measure cal cal1 inp = (m1, m2)" by force
  show ?thesis
  proof (cases "adc_changed st m1 m2 (status_el inp)")
    case True
    then show ?thesis using assms m
      by (auto simp: adc_iteration_def Let_def adc_cnt_ok_def)
  next
    case False
    then have "cnt st mod 10 \<noteq> 0" by (simp add: adc_changed_def Let_def)
    then have "unat (cnt st) mod 10 \<noteq> 0" by (simp add: word_unat_eq_iff unat_mod)
    then have "unat (cnt st) \<notin> {0, 10}" by auto
    moreover have "out = []" "cnt st' = cnt st + 1"
      using assms(1) m False by (auto simp: adc_iteration_def Let_def)
    ultimately show ?thesis using assms(2)
      by (auto simp: adc_cnt_ok_def unat_word_ariths)
  qed
qed

lemma adc_task_total:
  "queue_inv q \<Longrightarrow> \<exists>outs st' q'. adc_task cal cal1 inps st q = Some (outs, st', q') \<and> queue_inv q' \<and>
    queue_items q' = last_n 5 (queue_items q @ outs)"
proof (induction inps arbitrary: st q)
  case Nil
  then show ?case using ring.items_le by simp
next
  case (Cons inp inps)
  obtain out st1 q1 where 1: "adc_iteration cal cal1 inp st q = Some (out, st1, q1)" "queue_inv q1"
    "ins_all queue_buffer_insert out q = Some q1"
    using adc_iteration_total [OF Cons.prems] by blast
  obtain outs st2 q2 where 2: "adc_task cal cal1 inps st1 q1 = Some (outs, st2, q2)" "queue_inv q2"
    "queue_items q2 = last_n 5 (queue_items q1 @ outs)"
    using Cons.IH [OF 1(2)] by blast
  have "queue_items q1 = last_n 5 (queue_items q @ out)"
    using ring.ins_all_newest [OF Cons.prems, of out] 1(3) by simp
  then have "queue_items q2 = last_n 5 (queue_items q @ out @ outs)"
    using 2(3) last_n_append_last_n [of 5 "queue_items q @ out" outs] by simp
  then show ?case using 1 2 by simp
qed

lemma adc_task_cnt_ok:
  "adc_task cal cal1 inps st q = Some (outs, st', q') \<Longrightarrow> adc_cnt_ok st \<Longrightarrow> adc_cnt_ok st'"
proof (induction inps arbitrary: st q outs)
  case (Cons inp inps)
  then obtain out st1 q1 outs1 where 1: "adc_iteration cal cal1 inp st q = Some (out, st1, q1)"
    "adc_task cal cal1 inps st1 q1 = Some (outs1, st', q')"
    by (auto split: bind_splits prod.splits)
  show ?case using Cons.IH [OF 1(2)] adc_iteration_cnt [OF 1(1) Cons.prems(2)] by simp
qed simp

text \<open>From any counter value, ten rounds report at least once: the counter, if no round
  reported before, reaches a multiple of ten.\<close>

lemma adc_task_silent:
  "adc_task cal cal1 inps st q = Some ([], st', q') \<Longrightarrow> adc_cnt_ok st \<Longrightarrow>
   adc_cnt_ok st' \<and> unat (cnt st') = unat (cnt st) + length inps"
proof (induction inps arbitrary: st q)
  case Nil
  then show ?case by simp
next
  case (Cons inp inps)
  then obtain st1 q1 where 1: "adc_iteration cal cal1 inp st q = Some ([], st1, q1)"
    "adc_task cal cal1 inps st1 q1 = Some ([], st', q')"
    by (auto split: bind_splits prod.splits)
  have "adc_cnt_ok st1 \<and> unat (cnt st1) = Suc (unat (cnt st))"
    using adc_iteration_cnt [OF 1(1) Cons.prems(2)] by simp
  then show ?case using Cons.IH [OF 1(2)] by simp
qed

section \<open>Properties\<close>

text \<open>C36: With 12-bit readings the 64-fold sum does not wrap: a round measures the calibrated average
  of its readings, and doubles that of the second channel.\<close>

theorem adc_measures_average:
  assumes "\<forall>j < NO_OF_SAMPLES. unat (adc1_raw_0 inp j) \<le> 4095 \<and> unat (adc1_raw_1 inp j) \<le> 4095"
  shows "adc_measure cal cal1 inp =
    (cal (of_nat ((\<Sum>j = 0..<64. unat (adc1_raw_0 inp j)) div 64)),
     cal1 (of_nat ((\<Sum>j = 0..<64. unat (adc1_raw_1 inp j)) div 64)) * 2)"
proof -
  obtain s s1 where s: "adc_multisample inp 0 0 0 = (s, s1)" by force
  have w: "x = of_nat n" if "unat x = n" for x :: u32 and n
    using that by auto
  have "s div of_nat NO_OF_SAMPLES = of_nat ((\<Sum>j = 0..<64. unat (adc1_raw_0 inp j)) div 64)"
    "s1 div of_nat NO_OF_SAMPLES = of_nat ((\<Sum>j = 0..<64. unat (adc1_raw_1 inp j)) div 64)"
    using adc_average [OF assms s] by (simp_all add: w)
  then show ?thesis by (simp only: adc_measure_def s Let_def prod.case)
qed

theorem adc_measures_average_witness:
  "adc_measure (\<lambda>x. x) (\<lambda>x. x) \<lparr>adc1_raw_0 = \<lambda>_. 100, adc1_raw_1 = \<lambda>_. 4095, adc2_raw = \<lambda>_. 0, status_el = 0\<rparr> =
     (100, 8190)"
  by (subst adc_measures_average) simp_all

text \<open>C14: A round of the ADC task puts a sample into the queue exactly when the brightness moved by more than 5 mV,
  the supply by more than 10 mV, the light's status changed, or the round counter is a multiple of ten. The
  sample is the task's last one with the new values; it becomes the newest in the queue, the oldest is
  dropped when the queue was full, and the counter restarts at one. In every other round queue and last
  sample stay, and the counter goes on. The voltages are taken to lie below \<open>2 ^ 31\<close> mV.\<close>

theorem adc_reports_changes:
  assumes "queue_inv q" "adc_measure cal cal1 inp = (m1, m2)"
    and "unat (mv1 (tmp_data_queue st)) < 2 ^ 31" "unat m1 < 2 ^ 31"
    and "unat (mv2 (tmp_data_queue st)) < 2 ^ 31" "unat m2 < 2 ^ 31"
  shows "\<exists>out st' q'. adc_iteration cal cal1 inp st q = Some (out, st', q') \<and> queue_inv q' \<and>
    (if \<bar>int (unat (mv1 (tmp_data_queue st))) - int (unat m1)\<bar> > 5 \<or>
        \<bar>int (unat (mv2 (tmp_data_queue st))) - int (unat m2)\<bar> > 10 \<or>
        status (tmp_data_queue st) \<noteq> status_el inp \<or> unat (cnt st) mod 10 = 0
     then let d = (tmp_data_queue st)\<lparr>mv1 := m1, mv2 := m2, status := status_el inp\<rparr>
       in out = [d] \<and> queue_items q' = last_n 5 (queue_items q @ [d]) \<and> tmp_data_queue st' = d \<and> cnt st' = 1
     else out = [] \<and> q' = q \<and> tmp_data_queue st' = tmp_data_queue st \<and> cnt st' = cnt st + 1)"
proof -
  let ?d = "(tmp_data_queue st)\<lparr>mv1 := m1, mv2 := m2, status := status_el inp\<rparr>"
  obtain q1 where q1: "queue_buffer_insert ?d True q = Some q1" "queue_inv q1"
    "queue_items q1 = last_n 5 (queue_items q @ [?d])"
    using ring.ins_items [OF assms(1), of ?d True] fifo_insert_newest [OF ring.items_le [OF assms(1)]] by auto
  note changed = adc_changed_iff [OF assms(3-6), of "status_el inp"]
  show ?thesis
  proof (cases "adc_changed st m1 m2 (status_el inp)")
    case True
    then have "adc_iteration cal cal1 inp st q = Some ([?d], \<lparr>tmp_data_queue = ?d, cnt = 1\<rparr>, q1)"
      using q1(1) by (simp add: adc_iteration_def assms(2) Let_def)
    then show ?thesis using True q1(2,3) unfolding changed by (simp add: Let_def)
  next
    case False
    then have "adc_iteration cal cal1 inp st q = Some ([], st\<lparr>cnt := cnt st + 1\<rparr>, q)"
      by (simp add: adc_iteration_def assms(2) Let_def)
    then show ?thesis using False assms(1) unfolding changed by simp
  qed
qed

theorem adc_reports_changes_witness:
  "\<exists>st' q'. adc_iteration (\<lambda>x. x) (\<lambda>x. x)
      \<lparr>adc1_raw_0 = \<lambda>_. 100, adc1_raw_1 = \<lambda>_. 400, adc2_raw = \<lambda>_. 0, status_el = 0\<rparr>
      \<lparr>tmp_data_queue = zero_sample\<lparr>mv1 := 106, mv2 := 800\<rparr>, cnt = 3\<rparr> five_samples =
      Some ([zero_sample\<lparr>mv1 := 100, mv2 := 800\<rparr>], st', q') \<and>
    queue_items q' = map (\<lambda>i. zero_sample\<lparr>mv1 := of_nat i\<rparr>) [2, 3, 4, 5] @ [zero_sample\<lparr>mv1 := 100, mv2 := 800\<rparr>]"
proof -
  let ?inp = "\<lparr>adc1_raw_0 = \<lambda>_. 100, adc1_raw_1 = \<lambda>_. 400, adc2_raw = \<lambda>_. 0, status_el = 0\<rparr>"
  let ?st = "\<lparr>tmp_data_queue = zero_sample\<lparr>mv1 := 106, mv2 := 800\<rparr>, cnt = 3\<rparr>"
  have m: "adc_measure (\<lambda>x. x) (\<lambda>x. x) ?inp = (100, 800)"
    by (simp add: adc_measure_def adc_multisample.simps NO_OF_SAMPLES_def adc_unit_def)
  from adc_reports_changes [OF five_samples_ok(1) m, of ?st] show ?thesis
    by (auto simp: zero_sample_def five_samples_ok(2) last_n_def Let_def)
qed

text \<open>C22: The heartbeat: whatever is measured, no ten consecutive rounds of the task are silent.\<close>

theorem adc_heartbeat:
  assumes "adc_task cal cal1 inps (adc_start garbage) q = Some (outs, st, q1)" "length inps2 = 10"
    and "adc_task cal cal1 inps2 st q1 = Some (outs2, st', q2)"
  shows "outs2 \<noteq> []"
proof
  assume "outs2 = []"
  then have silent: "adc_task cal cal1 inps2 st q1 = Some ([], st', q2)" using assms(3) by simp
  have ok: "adc_cnt_ok st" by (rule adc_task_cnt_ok [OF assms(1) adc_cnt_start])
  then have "unat (cnt st) + 10 \<le> 10"
    using adc_task_silent [OF silent] assms(2) by (simp add: adc_cnt_ok_def)
  then have zero: "unat (cnt st) = 0" by simp
  obtain inp rest where inps2: "inps2 = inp # rest" using assms(2) by (cases inps2) auto
  then obtain st1 q3 where "adc_iteration cal cal1 inp st q1 = Some ([], st1, q3)"
    using silent by (auto split: bind_splits prod.splits)
  from adc_iteration_cnt [OF this ok] show False using zero by simp
qed

theorem adc_heartbeat_witness:
  "\<exists>outs st q outs2 st' q2.
     adc_task (\<lambda>x. x) (\<lambda>x. x) [] (adc_start zero_sample) queue_buffer_init = Some (outs, st, q) \<and>
     adc_task (\<lambda>x. x) (\<lambda>x. x)
       (replicate 10 \<lparr>adc1_raw_0 = \<lambda>_. 0, adc1_raw_1 = \<lambda>_. 0, adc2_raw = \<lambda>_. 0, status_el = 0\<rparr>) st q =
       Some (outs2, st', q2) \<and> outs2 \<noteq> []"
proof -
  let ?inps = "replicate 10 \<lparr>adc1_raw_0 = \<lambda>_. 0, adc1_raw_1 = \<lambda>_. 0, adc2_raw = \<lambda>_. 0, status_el = (0 :: u8)\<rparr>"
  have e: "adc_task (\<lambda>x. x) (\<lambda>x. x) [] (adc_start zero_sample) queue_buffer_init =
      Some ([], adc_start zero_sample, queue_buffer_init)" by simp
  obtain outs2 st' q2 where r: "adc_task (\<lambda>x. x) (\<lambda>x. x) ?inps (adc_start zero_sample) queue_buffer_init =
      Some (outs2, st', q2)"
    using adc_task_total [OF queue_inv_init] by blast
  show ?thesis using e r adc_heartbeat [OF e _ r] by auto
qed

text \<open>After any number of rounds the queue holds the newest five of the samples the task reported
  since its start, oldest first.\<close>

theorem adc_queue_holds_newest:
  "\<exists>outs st q. adc_task cal cal1 inps (adc_start garbage) queue_buffer_init = Some (outs, st, q) \<and>
     queue_inv q \<and> queue_items q = last_n 5 outs"
  using adc_task_total [OF queue_inv_init, of cal cal1 inps "adc_start garbage"] by (simp add: queue_items_init)

end
