(* ===== verification/Wifi_Azure.thy ===== *)
theory Wifi_Azure
  imports Wifi_Interleaving Iothub Adc
begin

text \<open>
  The Azure task of \<^verbatim>\<open>main/wifi_azure.c\<close>: it waits for one of the two Wi-Fi bits, runs the telemetry
  loop and deletes itself when that returns. The record \<open>gateway\<close> is the state of the whole
  program: the Wi-Fi state, the file's static flag, the state of the loop (with the sample queue and
  the light), the calls made on the ADC and the tasks created so far.
\<close>

unbundle bit_operations_syntax

datatype task_name = Led_Ctrl_Task | Azure_Task | Adc_Task | Rtc_Time_Task | Timer_Evt_Task

record gateway =
  wifi :: wifi_state
  wifi_connection :: bool
  hub :: iot_state
  adc_log :: "adc_call list"
  tasks :: "task_name list"

datatype azure_outcome = Azure_Waiting | Azure_Running | Azure_Deleted

text \<open>The task with the inputs of the loop's connections; \<open>garbage\<close> is what the uninitialised array
  \<^verbatim>\<open>messages\<close> holds.\<close>

definition azure_task ::
  "nat \<Rightarrow> event_instance list \<Rightarrow> conn_input list \<Rightarrow> gateway \<Rightarrow> (azure_outcome \<times> gateway) option" where
  "azure_task base_clk garbage cs s =
     (if s_wifi_event_group (wifi s) AND (CONNECTED_BIT OR ESPTOUCH_DONE_BIT) = 0 then Some (Azure_Waiting, s)
      else do {
        let s = s\<lparr>wifi_connection := True\<rparr>;
        (out, h) \<leftarrow> iothub_client_sample_mqtt_run base_clk cs (iothub_start garbage (hub s));
        let s = s\<lparr>hub := h\<rparr>;
        if out = Still_Running then Some (Azure_Running, s)
        else Some (Azure_Deleted, s\<lparr>wifi_connection := False\<rparr>)
      })"

definition wifi_check_connection :: "gateway \<Rightarrow> bool" where
  "wifi_check_connection s = wifi_connection s"

text \<open>\<^verbatim>\<open>xTaskCreate\<close>: a task that cannot be created is only reported.\<close>

definition xTaskCreate :: "(task_name \<Rightarrow> bool) \<Rightarrow> task_name \<Rightarrow> gateway \<Rightarrow> gateway" where
  "xTaskCreate mem t s = (if mem t then s\<lparr>tasks := tasks s @ [t]\<rparr> else s)"

definition app_wifi_azure ::
  "(wifi_call \<Rightarrow> bool) \<Rightarrow> (task_name \<Rightarrow> bool) \<Rightarrow> gateway \<Rightarrow> wifi_call + gateway" where
  "app_wifi_azure ok mem s =
     (case initialise_wifi ok (wifi s) of
        Inl c \<Rightarrow> Inl c
      | Inr w \<Rightarrow> Inr (xTaskCreate mem Azure_Task (s\<lparr>wifi := w\<rparr>)))"

section \<open>Correctness\<close>

lemma azure_task_total:
  assumes "queue_inv (samples (hub s))" "el_inv (light_state (hub s))" "length garbage = MESSAGE_COUNT"
  shows "\<exists>out s'. azure_task base_clk garbage cs s = Some (out, s') \<and>
    queue_inv (samples (hub s')) \<and> el_inv (light_state (hub s')) \<and> wifi s' = wifi s \<and>
    (out = Azure_Waiting \<longrightarrow> s' = s) \<and> (out = Azure_Running \<longrightarrow> wifi_connection s') \<and>
    (out = Azure_Deleted \<longrightarrow> \<not> wifi_connection s')"
proof -
  obtain out h where run: "iothub_client_sample_mqtt_run base_clk cs (iothub_start garbage (hub s)) = Some (out, h)"
    "hub_inv h"
    using hub_run_ok [OF iothub_start_inv [OF assms], of base_clk cs] by blast
  show ?thesis using run assms by (simp add: azure_task_def Let_def hub_inv_def)
qed

section \<open>Properties\<close>

text \<open>The Azure task waits only while neither Wi-Fi bit is set. Once smartconfig has finished, its bit
  is never cleared again, in any interleaving: from then on the task, and every wait of its
  reconnections, passes at once, whether or not the station is connected. The task returns or
  runs on without ever leaving an array, and the flag behind the Wi-Fi LED is on exactly while
  the telemetry loop runs.\<close>

theorem azure_task_passes_after_smartconfig:
  assumes "sc_step\<^sup>*\<^sup>* sys sys'" "done_bit (sc_wifi sys)"
    and "wifi s = sc_wifi sys'" "queue_inv (samples (hub s))" "el_inv (light_state (hub s))"
    and "length garbage = MESSAGE_COUNT"
  shows "\<exists>out s'. azure_task base_clk garbage cs s = Some (out, s') \<and> out \<noteq> Azure_Waiting \<and>
    (wifi_check_connection s' \<longleftrightarrow> out = Azure_Running) \<and>
    queue_inv (samples (hub s')) \<and> el_inv (light_state (hub s'))"
proof -
  have "done_bit (wifi s)" using done_bit_stays [OF assms(1,2)] assms(3) by simp
  then have two: "s_wifi_event_group (wifi s) AND 2 \<noteq> 0" by (simp add: done_bit_def ESPTOUCH_DONE_BIT_def)
  have "(s_wifi_event_group (wifi s) AND 3) AND 2 = s_wifi_event_group (wifi s) AND 2"
    by (simp add: and.assoc)
  with two have "s_wifi_event_group (wifi s) AND 3 \<noteq> 0" by (metis and_zero_eq and.left_commute and.commute)
  then have "s_wifi_event_group (wifi s) AND (CONNECTED_BIT OR ESPTOUCH_DONE_BIT) \<noteq> 0"
    by (simp add: CONNECTED_BIT_def ESPTOUCH_DONE_BIT_def)
  then show ?thesis
    using azure_task_total [OF assms(4-6), of base_clk cs]
    by (auto simp: azure_task_def wifi_check_connection_def Let_def split: bind_splits prod.splits if_splits)
qed

theorem azure_task_passes_after_smartconfig_witness:
  "\<exists>out s'. azure_task 80000000 (replicate 50 \<lparr>messageHandle = None, messageTrackingId = 0\<rparr>) []
      \<lparr>wifi = wifi_reset\<lparr>s_wifi_event_group := 2\<rparr>, wifi_connection = False, hub = hub_example, adc_log = [], tasks = []\<rparr> =
      Some (out, s') \<and> out \<noteq> Azure_Waiting"
proof -
  let ?sys = "sc_start\<lparr>sc_wifi := wifi_reset\<lparr>s_wifi_event_group := 2\<rparr>\<rparr>"
  let ?s = "\<lparr>wifi = wifi_reset\<lparr>s_wifi_event_group := 2\<rparr>, wifi_connection = False, hub = hub_example, adc_log = [], tasks = []\<rparr>"
  have "done_bit (sc_wifi ?sys)" by (simp add: done_bit_def ESPTOUCH_DONE_BIT_def wifi_reset_def)
  moreover have "wifi ?s = sc_wifi ?sys" "queue_inv (samples (hub ?s))" "el_inv (light_state (hub ?s))"
    using hub_example_ok(1) by (simp_all add: hub_inv_def)
  ultimately show ?thesis
    using azure_task_passes_after_smartconfig [of ?sys ?sys ?s "replicate 50 \<lparr>messageHandle = None, messageTrackingId = 0\<rparr>"
        80000000 "[]"]
    by (auto simp: MESSAGE_COUNT_def)
qed

end
