(* ===== verification/App_Main.thy ===== *)
theory App_Main
  imports Wifi_Azure
begin

text \<open>
  The start of the program, \<^verbatim>\<open>app_main\<close> of \<^verbatim>\<open>main/ble_azure_gateway_main.c\<close>, with the start functions
  it calls. The results of the non-volatile storage, of the Wi-Fi calls and of the task creations
  are parameters; a failed \<^verbatim>\<open>ESP_ERROR_CHECK\<close> ends the start with an \<open>abort\<close> value.
\<close>

datatype nvs_result = Nvs_Ok | Nvs_No_Free_Pages | Nvs_Error

record boot_input =
  nvs_init_1 :: nvs_result
  nvs_erase :: nvs_result
  nvs_init_2 :: nvs_result
  wifi_ok :: "wifi_call \<Rightarrow> bool"
  task_mem :: "task_name \<Rightarrow> bool"
  clk_base :: nat

datatype abort = Nvs_Abort | Wifi_Abort wifi_call | Bounds_Error

text \<open>The storage is erased when it has no free page, and only then; the result is the abort or the
  number of erasures.\<close>

definition nvs_start :: "boot_input \<Rightarrow> abort + nat" where
  "nvs_start b =
     (if nvs_init_1 b = Nvs_No_Free_Pages
      then if nvs_erase b \<noteq> Nvs_Ok then Inl Nvs_Abort
        else if nvs_init_2 b \<noteq> Nvs_Ok then Inl Nvs_Abort else Inr 1
      else if nvs_init_1 b \<noteq> Nvs_Ok then Inl Nvs_Abort else Inr 0)"

definition upd_light :: "(el_state \<Rightarrow> el_state) \<Rightarrow> gateway \<Rightarrow> gateway" where
  "upd_light f s = s\<lparr>hub := (hub s)\<lparr>light_state := f (light_state (hub s))\<rparr>\<rparr>"

definition app_gpio_led_flash_control :: "(task_name \<Rightarrow> bool) \<Rightarrow> gateway \<Rightarrow> gateway" where
  "app_gpio_led_flash_control mem s = xTaskCreate mem Led_Ctrl_Task s"

definition app_adc :: "(task_name \<Rightarrow> bool) \<Rightarrow> gateway \<Rightarrow> gateway" where
  "app_adc mem s = xTaskCreate mem Adc_Task (s\<lparr>adc_log := adc_log s @ adc_setup\<rparr>)"

definition app_rtc_time :: "(task_name \<Rightarrow> bool) \<Rightarrow> gateway \<Rightarrow> gateway" where
  "app_rtc_time mem s = xTaskCreate mem Rtc_Time_Task s"

definition start_timer :: "nat \<Rightarrow> (task_name \<Rightarrow> bool) \<Rightarrow> gateway \<Rightarrow> gateway option" where
  "start_timer base_clk mem s =
     map_option (\<lambda>t. xTaskCreate mem Timer_Evt_Task (upd_light (\<lambda>l. l\<lparr>tg := t\<rparr>) s))
       (app_timer base_clk (tg (light_state (hub s))))"

definition app_main :: "boot_input \<Rightarrow> gateway \<Rightarrow> abort + gateway" where
  "app_main b s =
     (case nvs_start b of
        Inl a \<Rightarrow> Inl a
      | Inr erased \<Rightarrow>
          (let s = upd_light gpio_ini s;
               s = app_gpio_led_flash_control (task_mem b) s
           in case app_wifi_azure (wifi_ok b) (task_mem b) s of
                Inl c \<Rightarrow> Inl (Wifi_Abort c)
              | Inr s \<Rightarrow>
                  (let s = app_adc (task_mem b) s;
                       s = app_rtc_time (task_mem b) s
                   in case start_timer (clk_base b) (task_mem b) s of
                        None \<Rightarrow> Inl Bounds_Error
                      | Some s \<Rightarrow> Inr s)))"

text \<open>The static variables before the start.\<close>

definition reset_state :: gateway where
  "reset_state = \<lparr>wifi = wifi_reset, wifi_connection = False,
     hub = iot_reset,
     adc_log = [], tasks = []\<rparr>"

lemmas app_defs = app_gpio_led_flash_control_def app_adc_def app_rtc_time_def start_timer_def
  upd_light_def

lemma xTaskCreate_frame [simp]:
  "wifi (xTaskCreate m t s) = wifi s" "wifi_connection (xTaskCreate m t s) = wifi_connection s"
  "hub (xTaskCreate m t s) = hub s" "adc_log (xTaskCreate m t s) = adc_log s"
  "tasks (xTaskCreate m t s) = tasks s @ filter m [t]"
  by (simp_all add: xTaskCreate_def)

section \<open>Correctness\<close>

definition wifi_start_calls :: "wifi_call list" where
  "wifi_start_calls = [Event_Loop_Init, Wifi_Init, Wifi_Set_Storage_Flash, Wifi_Set_Mode_Sta, Wifi_Get_Config, Wifi_Start]"

lemma checked_result:
  "checked ok cs s = (case find (\<lambda>c. \<not> ok c) cs of Some c \<Rightarrow> Inl c
     | None \<Rightarrow> Inr (s\<lparr>wifi_log := wifi_log s @ cs\<rparr>))"
  by (induction cs arbitrary: s) (auto simp: wifi_do_def split: option.splits)

lemma initialise_wifi_result:
  "initialise_wifi ok s = (case find (\<lambda>c. \<not> ok c) wifi_start_calls of Some c \<Rightarrow> Inl c
     | None \<Rightarrow> Inr (s\<lparr>s_wifi_event_group := 0, wifi_log := wifi_log s @ Tcpip_Adapter_Init # wifi_start_calls\<rparr>))"
  by (simp add: initialise_wifi_def checked_result wifi_start_calls_def wifi_do_def Let_def)

text \<open>The timer's start from the reset state: it runs from zero, and its first alarm is 3.4179 s off.\<close>

lemma app_timer_effect:
  assumes "tg_inv t"
  shows "\<exists>t'. app_timer base_clk t = Some t' \<and> tg_inv t' \<and> timer_queue t' = [] \<and> end_of_test t' = end_of_test t \<and>
    counter (hw_timers t' ! 0) = 0 \<and> counter_en (hw_timers t' ! 0) \<and> alarm_en (hw_timers t' ! 0) \<and>
    alarm_ready (hw_timers t' ! 0) \<and> evt_task t' = evt_task t \<and>
    \<not> auto_reload (hw_timers t' ! 0) \<and>
    alarm_value (hw_timers t' ! 0) = timer_ticks base_clk TIMER_INTERVAL0_SEC"
  using assms
  by (simp add: app_timer_def example_tg0_timer_init_def put_timer_def tg_inv_def Let_def
      TEST_WITHOUT_RELOAD_def set_alarm_def alarm_value_def alarm_ready_def join_halves)

lemma app_wifi_azure_result:
  "app_wifi_azure ok mem s = (case find (\<lambda>c. \<not> ok c) wifi_start_calls of Some c \<Rightarrow> Inl c
     | None \<Rightarrow> Inr (xTaskCreate mem Azure_Task (s\<lparr>wifi := (wifi s)\<lparr>s_wifi_event_group := 0,
         wifi_log := wifi_log (wifi s) @ Tcpip_Adapter_Init # wifi_start_calls\<rparr>\<rparr>)))"
  by (simp add: app_wifi_azure_def initialise_wifi_result split: option.splits)

text \<open>The state \<open>app_main\<close> leaves, when no call fails, in terms of the started timer \<open>t\<close>.\<close>

definition booted :: "boot_input \<Rightarrow> tg_state \<Rightarrow> gateway \<Rightarrow> bool" where
  "booted b t s \<longleftrightarrow> samples (hub s) = queue_buffer_init \<and>
     light_state (hub s) = (gpio_ini el_reset)\<lparr>tg := t\<rparr> \<and> hub_log (hub s) = [] \<and>
     s_wifi_event_group (wifi s) = 0 \<and> \<not> wifi_connection s \<and> adc_log s = adc_setup \<and>
     tasks s = filter (task_mem b) [Led_Ctrl_Task, Azure_Task, Adc_Task, Rtc_Time_Task, Timer_Evt_Task]"

lemma app_main_booted:
  assumes "nvs_start b = Inr n" "find (\<lambda>c. \<not> wifi_ok b c) wifi_start_calls = None"
    and "app_timer (clk_base b) tg_reset = Some t"
  shows "\<exists>s. app_main b reset_state = Inr s \<and> booted b t s"
proof -
  let ?s1 = "app_gpio_led_flash_control (task_mem b) (upd_light gpio_ini reset_state)"
  obtain s2 where s2: "app_wifi_azure (wifi_ok b) (task_mem b) ?s1 = Inr s2"
    "s2 = xTaskCreate (task_mem b) Azure_Task (?s1\<lparr>wifi := (wifi ?s1)\<lparr>s_wifi_event_group := 0,
         wifi_log := wifi_log (wifi ?s1) @ Tcpip_Adapter_Init # wifi_start_calls\<rparr>\<rparr>)"
    unfolding app_wifi_azure_result assms(2) by simp
  let ?s3 = "app_rtc_time (task_mem b) (app_adc (task_mem b) s2)"
  have light: "light_state (hub ?s3) = gpio_ini el_reset"
    by (simp add: s2(2) app_defs reset_state_def iot_reset_def)
  have "tg (gpio_ini el_reset) = tg_reset" by (simp add: gpio_ini_def el_reset_def)
  then have s4: "start_timer (clk_base b) (task_mem b) ?s3 =
      Some (xTaskCreate (task_mem b) Timer_Evt_Task (upd_light (\<lambda>l. l\<lparr>tg := t\<rparr>) ?s3))"
    unfolding start_timer_def light by (simp add: assms(3))
  have "app_main b reset_state = Inr (xTaskCreate (task_mem b) Timer_Evt_Task (upd_light (\<lambda>l. l\<lparr>tg := t\<rparr>) ?s3))"
    by (simp add: app_main_def assms(1) s2(1) s4)
  moreover have "booted b t (xTaskCreate (task_mem b) Timer_Evt_Task (upd_light (\<lambda>l. l\<lparr>tg := t\<rparr>) ?s3))"
    by (simp add: booted_def s2(2) app_defs reset_state_def iot_reset_def)
  ultimately show ?thesis by blast
qed

lemma app_main_ok:
  assumes "nvs_start b = Inr n" "find (\<lambda>c. \<not> wifi_ok b c) wifi_start_calls = None"
  shows "\<exists>s'. app_main b reset_state = Inr s' \<and> queue_inv (samples (hub s')) \<and> queue_items (samples (hub s')) = [] \<and>
    el_inv (light_state (hub s')) \<and> \<not> el_lit (light_state (hub s')) \<and> el_ended (light_state (hub s')) \<and>
    s_wifi_event_group (wifi s') = 0 \<and> \<not> wifi_connection s' \<and> adc_log s' = adc_setup \<and>
    tasks s' = filter (task_mem b) [Led_Ctrl_Task, Azure_Task, Adc_Task, Rtc_Time_Task, Timer_Evt_Task] \<and>
    counter_en (hw_timers (tg (light_state (hub s'))) ! 0)"
proof -
  obtain t where t: "app_timer (clk_base b) tg_reset = Some t" "tg_inv t" "timer_queue t = []"
    "end_of_test t = end_of_test tg_reset" "counter_en (hw_timers t ! 0)" "evt_task t = evt_task tg_reset"
    using app_timer_effect [OF tg_inv_reset, of "clk_base b"] by blast
  obtain s' where s': "app_main b reset_state = Inr s'" "booted b t s'"
    using app_main_booted [OF assms t(1)] by blast
  have "queue_inv queue_buffer_init" "queue_items queue_buffer_init = []"
    by (rule queue_inv_init, rule queue_items_init)
  with s' t(2-) show ?thesis
    by (simp add: booted_def el_inv_def el_lit_def el_ended_def tg_reset_def gpio_ini_def el_reset_def evt_pending_def)
qed

lemma app_main_abort:
  "app_main b reset_state = Inl a \<longleftrightarrow>
     (nvs_start b = Inl a \<or>
      (\<exists>n c. nvs_start b = Inr n \<and> find (\<lambda>c. \<not> wifi_ok b c) wifi_start_calls = Some c \<and> a = Wifi_Abort c))"
proof (cases "nvs_start b")
  case (Inr n)
  show ?thesis
  proof (cases "find (\<lambda>c. \<not> wifi_ok b c) wifi_start_calls")
    case None
    then show ?thesis using app_main_ok [OF Inr] Inr by auto
  next
    case (Some c)
    then have "app_main b reset_state = Inl (Wifi_Abort c)"
      by (simp only: app_main_def Inr sum.case Let_def app_wifi_azure_result option.case)
    then show ?thesis using Inr Some by auto
  qed
qed (simp add: app_main_def)

section \<open>Properties\<close>

text \<open>The start of the program ends in an abort exactly when the storage cannot be initialised (or
  erased, when it has no free page), or when one of the six checked Wi-Fi calls fails; no other
  call can stop it.\<close>

theorem boot_aborts_iff:
  "(\<exists>a. app_main b reset_state = Inl a) \<longleftrightarrow>
     (nvs_init_1 b = Nvs_Error \<or> (nvs_init_1 b = Nvs_No_Free_Pages \<and> (nvs_erase b \<noteq> Nvs_Ok \<or> nvs_init_2 b \<noteq> Nvs_Ok)) \<or>
      (\<exists>c \<in> {Event_Loop_Init, Wifi_Init, Wifi_Set_Storage_Flash, Wifi_Set_Mode_Sta, Wifi_Get_Config, Wifi_Start}.
         \<not> wifi_ok b c))"
proof -
  have nvs: "(\<exists>a. nvs_start b = Inl a) \<longleftrightarrow> nvs_init_1 b = Nvs_Error \<or>
      (nvs_init_1 b = Nvs_No_Free_Pages \<and> (nvs_erase b \<noteq> Nvs_Ok \<or> nvs_init_2 b \<noteq> Nvs_Ok))"
    by (cases "nvs_init_1 b") (simp_all add: nvs_start_def)
  have wifi: "(\<exists>c. find (\<lambda>c. \<not> wifi_ok b c) wifi_start_calls = Some c) \<longleftrightarrow>
      (\<exists>c \<in> set wifi_start_calls. \<not> wifi_ok b c)"
    by (metis find_None_iff not_None_eq)
  have "(\<exists>a. app_main b reset_state = Inl a) \<longleftrightarrow> (\<exists>a. nvs_start b = Inl a) \<or>
      (\<exists>c. find (\<lambda>c. \<not> wifi_ok b c) wifi_start_calls = Some c)"
    unfolding app_main_abort by (metis sum.exhaust)
  then show ?thesis unfolding nvs wifi by (simp add: wifi_start_calls_def)
qed

text \<open>A start that is not aborted leaves an empty sample queue, the light off with no test running,
  both Wi-Fi bits clear, the converter set up, timer 0 running, and exactly the tasks for which
  there was memory, in their order; the Bluetooth client is not started. From there the Azure
  task, once a Wi-Fi bit lets it pass, never leaves an array.\<close>

theorem boot_then_telemetry:
  assumes "nvs_start b = Inr n" "\<forall>c \<in> set wifi_start_calls. wifi_ok b c" "length garbage = MESSAGE_COUNT"
  shows "\<exists>s. app_main b reset_state = Inr s \<and> queue_buffer_isEmpty (samples (hub s)) \<and>
    gpio_out (light_state (hub s)) GPIO_OUTPUT_IO_TEST_BUTTON = 0 \<and>
    end_of_test_enable_check (tg (light_state (hub s))) \<and>
    counter_en (hw_timers (tg (light_state (hub s))) ! 0) \<and>
    s_wifi_event_group (wifi s) = 0 \<and> adc_log s = adc_setup \<and>
    tasks s = filter (task_mem b) [Led_Ctrl_Task, Azure_Task, Adc_Task, Rtc_Time_Task, Timer_Evt_Task] \<and>
    (\<forall>bits cs. \<exists>out s'. azure_task (clk_base b) garbage cs
        (s\<lparr>wifi := (wifi s)\<lparr>s_wifi_event_group := bits\<rparr>\<rparr>) = Some (out, s'))"
proof -
  have "find (\<lambda>c. \<not> wifi_ok b c) wifi_start_calls = None" using assms(2) by (simp add: find_None_iff)
  from app_main_ok [OF assms(1) this] obtain s where s: "app_main b reset_state = Inr s" "queue_inv (samples (hub s))"
    "queue_items (samples (hub s)) = []" "el_inv (light_state (hub s))" "\<not> el_lit (light_state (hub s))"
    "el_ended (light_state (hub s))" "s_wifi_event_group (wifi s) = 0" "adc_log s = adc_setup"
    "tasks s = filter (task_mem b) [Led_Ctrl_Task, Azure_Task, Adc_Task, Rtc_Time_Task, Timer_Evt_Task]"
    "counter_en (hw_timers (tg (light_state (hub s))) ! 0)"
    by blast
  have "gpio_out (light_state (hub s)) GPIO_OUTPUT_IO_TEST_BUTTON = 0"
    using s(4,5) by (auto simp: el_inv_def el_lit_def)
  moreover have "queue_buffer_isEmpty (samples (hub s))" using ring.is_empty_iff [OF s(2)] s(3) by simp
  moreover have "\<exists>out s'. azure_task (clk_base b) garbage cs (s\<lparr>wifi := (wifi s)\<lparr>s_wifi_event_group := bits\<rparr>\<rparr>) =
      Some (out, s')" for bits cs
    using azure_task_total [of "s\<lparr>wifi := (wifi s)\<lparr>s_wifi_event_group := bits\<rparr>\<rparr>" garbage "clk_base b" cs] s(2,4) assms(3)
    by auto
  ultimately show ?thesis
    using s by (auto simp: end_of_test_enable_check_def el_ended_def)
qed

theorem boot_then_telemetry_witness:
  "\<exists>s. app_main \<lparr>nvs_init_1 = Nvs_No_Free_Pages, nvs_erase = Nvs_Ok, nvs_init_2 = Nvs_Ok, wifi_ok = (\<lambda>_. True),
      task_mem = (\<lambda>t. t \<noteq> Adc_Task), clk_base = 80000000\<rparr> reset_state = Inr s \<and>
    tasks s = [Led_Ctrl_Task, Azure_Task, Rtc_Time_Task, Timer_Evt_Task]"
proof -
  let ?b = "\<lparr>nvs_init_1 = Nvs_No_Free_Pages, nvs_erase = Nvs_Ok, nvs_init_2 = Nvs_Ok, wifi_ok = (\<lambda>_. True),
      task_mem = (\<lambda>t. t \<noteq> Adc_Task), clk_base = 80000000\<rparr>"
  have "nvs_start ?b = Inr 1" by (simp add: nvs_start_def)
  then obtain s where "app_main ?b reset_state = Inr s"
    "tasks s = filter (task_mem ?b) [Led_Ctrl_Task, Azure_Task, Adc_Task, Rtc_Time_Task, Timer_Evt_Task]"
    using boot_then_telemetry [of ?b 1 "replicate 50 \<lparr>messageHandle = None, messageTrackingId = 0\<rparr>"]
    by (auto simp: MESSAGE_COUNT_def)
  then show ?thesis by simp
qed

end
