(* ===== verification/System_Run.thy ===== *)
theory System_Run
  imports App_Main Run_Interface
begin

text \<open>
  The running program as one system. After \<^verbatim>\<open>app_main\<close> its tasks, the timer's interrupt and the Wi-Fi
  take turns in any order; an action is one round of a task's loop, or a step of it where the order of the
  tasks matters: the event task receives an event, reads the counter and sets the flag in three steps, and
  the LED task checks and acts in two. ADC rounds may also fall into the hand-over of a message, between
  the reading of the queue's head and its removal. Three fields
  are ghosts: \<open>has_addr\<close> (the station holds an address), \<open>reported\<close> (the samples the ADC task has
  inserted) and \<open>lost\<close> (the number of insertions that hit a full queue). The theorems relate them
  to what the cloud received.
\<close>

unbundle bit_operations_syntax

section \<open>State and actions\<close>

text \<open>Where the Azure task stands: before its first wait; before a connection; in the inner loop; after
  it; deleted.\<close>

datatype azure_pc = Az_Wait | Az_Connect | Az_Loop | Az_Closing | Az_Deleted

text \<open>And, in its waits for the Wi-Fi bits, before its first wait and before each connection: whether it is
  blocked there, or has been woken by the handler that set a bit.\<close>

datatype task_wait = Not_Waiting | Blocked | Woken

record system =
  gw :: gateway
  prov_task :: sc_pc
  azure :: azure_pc
  az_wait :: task_wait
  adc_locals :: adc_state
  led_cnt :: nat
  led_due :: bool
  restarted :: bool
  has_addr :: bool
  reported :: "def_queue_buffer list"
  lost :: nat

datatype sys_action =
    Adc_Round adc_input
  | Azure_Begin "nat \<Rightarrow> event_instance"      \<comment> \<open>what the uninitialised array holds\<close>
  | Azure_Connect conn_input
  | Azure_Round hub_input "adc_input list"   \<comment> \<open>the ADC rounds during a hand-over\<close>
  | Azure_Close conn_input
  | Led_Check bool                           \<comment> \<open>what \<^verbatim>\<open>ble_check_connection\<close> returns\<close>
  | Led_Act
  | Timer_Alarm
  | Evt_Step
  | Timer_Ticks u64
  | Wifi_Action "wifi_call \<Rightarrow> bool" sc_action

abbreviation sys_hub :: "system \<Rightarrow> iot_state" where "sys_hub s \<equiv> hub (gw s)"
abbreviation sys_light :: "system \<Rightarrow> el_state" where "sys_light s \<equiv> light_state (sys_hub s)"
abbreviation sys_queue :: "system \<Rightarrow> queue_state" where "sys_queue s \<equiv> samples (sys_hub s)"

definition set_hub :: "iot_state \<Rightarrow> system \<Rightarrow> system" where
  "set_hub h s = s\<lparr>gw := (gw s)\<lparr>hub := h\<rparr>\<rparr>"

definition set_light :: "el_state \<Rightarrow> system \<Rightarrow> system" where
  "set_light l s = set_hub ((sys_hub s)\<lparr>light_state := l\<rparr>) s"

definition wifi_view :: "system \<Rightarrow> sc_sys" where
  "wifi_view s = \<lparr>sc_task = prov_task s, sc_wifi = wifi (gw s), link = has_addr s\<rparr>"

definition set_wifi_view :: "sc_sys \<Rightarrow> system \<Rightarrow> system" where
  "set_wifi_view v s = s\<lparr>gw := (gw s)\<lparr>wifi := sc_wifi v\<rparr>, prov_task := sc_task v, has_addr := link v\<rparr>"

text \<open>The status an ADC round reads is that of the light.\<close>

definition seen_by :: "system \<Rightarrow> adc_input \<Rightarrow> adc_input" where
  "seen_by s inp = inp\<lparr>status_el := app_emergency_light_read_status (sys_light s)\<rparr>"

definition overrun :: "queue_state \<Rightarrow> def_queue_buffer list \<Rightarrow> nat" where
  "overrun q outs = length (queue_items q) + length outs - 5"

definition note_reported :: "def_queue_buffer list \<Rightarrow> adc_state \<Rightarrow> system \<Rightarrow> system" where
  "note_reported outs st s = s\<lparr>adc_locals := st, reported := reported s @ outs,
     lost := lost s + overrun (sys_queue s) outs\<rparr>"

section \<open>The steps of the Azure task\<close>

text \<open>Both waits of the task pass when a bit is set, or when the task has been woken since it was blocked.\<close>

definition wait_passes :: "system \<Rightarrow> bool" where
  "wait_passes s \<longleftrightarrow> wait_bits (s_wifi_event_group (wifi (gw s))) \<or> az_wait s = Woken"

definition wake_azure :: "system \<Rightarrow> system" where
  "wake_azure s =
     (if az_wait s = Blocked \<and> wait_bits (s_wifi_event_group (wifi (gw s))) then s\<lparr>az_wait := Woken\<rparr> else s)"

definition azure_begin :: "(nat \<Rightarrow> event_instance) \<Rightarrow> system \<Rightarrow> system" where
  "azure_begin garbage s =
     (if azure s \<noteq> Az_Wait then s
      else if \<not> wait_passes s then s\<lparr>az_wait := Blocked\<rparr>
      else s\<lparr>azure := Az_Connect, az_wait := Not_Waiting, gw := (gw s)\<lparr>wifi_connection := True,
        hub := iothub_start (map garbage [0..<MESSAGE_COUNT]) (hub (gw s))\<rparr>\<rparr>)"

text \<open>The end of a connection: the outer loop continues, or the task deletes itself.\<close>

definition azure_next :: "hub_outcome \<Rightarrow> iot_state \<Rightarrow> system \<Rightarrow> system" where
  "azure_next out h s =
     (if out = Continue_Loop then set_hub h (s\<lparr>azure := Az_Connect\<rparr>)
      else s\<lparr>azure := Az_Deleted, gw := (gw s)\<lparr>wifi_connection := False, hub := h\<rparr>\<rparr>)"

definition azure_setup :: "nat \<Rightarrow> conn_input \<Rightarrow> system \<Rightarrow> system option" where
  "azure_setup clk c s =
     (if \<not> platform_ok c then Some (azure_next Exit_Loop (sys_hub s) s)
      else if \<not> client_ok c then Some (azure_next (hub_reconnects (sys_hub s)) (sys_hub s) s)
      else if \<not> callback_ok c
        then map_option (\<lambda>h. azure_next (hub_reconnects h) h s) (IoTHubClient_LL_DoWork clk (destroy_events c) (sys_hub s))
      else Some (set_hub ((sys_hub s)\<lparr>iothub_connection := True\<rparr>) (s\<lparr>azure := Az_Loop\<rparr>)))"

text \<open>The task is blocked while no bit is set; then it sets up the connection.\<close>

definition azure_connect :: "nat \<Rightarrow> conn_input \<Rightarrow> system \<Rightarrow> system option" where
  "azure_connect clk c s =
     (if azure s \<noteq> Az_Connect then Some s
      else if \<not> wait_passes s then Some (s\<lparr>az_wait := Blocked\<rparr>)
      else azure_setup clk c (s\<lparr>az_wait := Not_Waiting\<rparr>))"

definition azure_round :: "nat \<Rightarrow> hub_input \<Rightarrow> system \<Rightarrow> system option" where
  "azure_round clk inp s =
     (if azure s \<noteq> Az_Loop then Some s
      else map_option (\<lambda>(go, h). set_hub h (s\<lparr>azure := (if go then Az_Loop else Az_Closing)\<rparr>))
        (hub_round clk inp (sys_hub s)))"

definition azure_close :: "nat \<Rightarrow> conn_input \<Rightarrow> system \<Rightarrow> system option" where
  "azure_close clk c s =
     (if azure s \<noteq> Az_Closing then Some s
      else map_option (\<lambda>h. azure_next (hub_reconnects h) h s) (hub_after_session clk c (sys_hub s)))"

section \<open>The steps of the system\<close>

text \<open>An action of a task that \<^verbatim>\<open>app_main\<close> could not create does not happen.\<close>

fun runs_in :: "sys_action \<Rightarrow> task_name option" where
  "runs_in (Adc_Round inp) = Some Adc_Task"
| "runs_in (Led_Check ble) = Some Led_Ctrl_Task"
| "runs_in Led_Act = Some Led_Ctrl_Task"
| "runs_in Evt_Step = Some Timer_Evt_Task"
| "runs_in (Azure_Begin g) = Some Azure_Task"
| "runs_in (Azure_Connect c) = Some Azure_Task"
| "runs_in (Azure_Round inp adcs) = Some Azure_Task"
| "runs_in (Azure_Close c) = Some Azure_Task"
| "runs_in _ = None"

definition has_task :: "task_name \<Rightarrow> system \<Rightarrow> bool" where
  "has_task t s \<longleftrightarrow> t \<in> set (tasks (gw s))"

definition alarm_armed :: "system \<Rightarrow> bool" where
  "alarm_armed s \<longleftrightarrow> el_armed (sys_light s)"

text \<open>The alarm may come at any time while it is armed. It is the interrupt alone: the event task handles the
  event in steps of its own, when the scheduler runs it.\<close>

definition timer_alarm :: "nat \<Rightarrow> system \<Rightarrow> system option" where
  "timer_alarm clk s = map_option (\<lambda>l. set_light l s) (el_isr clk (sys_light s))"

text \<open>A round of the LED task in two steps: the flashing of the LEDs with the manager's check, and what the
  manager does when the test has ended. In between, \<open>led_due\<close> is set.\<close>

definition led_check :: "bool \<Rightarrow> system \<Rightarrow> system" where
  "led_check ble s =
     (if led_due s then s
      else let (levels, n, l) = led_flash_lights (led_cnt s) ble (wifi_check_connection (gw s))
             (iothub_check_connection (sys_hub s)) (sys_light s)
        in set_light l (s\<lparr>led_cnt := n, led_due := end_of_test_enable_check (tg l)\<rparr>))"

definition led_act :: "nat \<Rightarrow> system \<Rightarrow> system option" where
  "led_act clk s =
     (if \<not> led_due s then Some s
      else map_option (\<lambda>l. set_light l (s\<lparr>led_due := False\<rparr>)) (app_emergency_light_test_button clk False (sys_light s)))"

lemmas light_steps = timer_alarm_def led_check_def led_act_def

fun sys_do :: "(u32 \<Rightarrow> u32) \<Rightarrow> (u32 \<Rightarrow> u32) \<Rightarrow> nat \<Rightarrow> sys_action \<Rightarrow> system \<Rightarrow> system option" where
  "sys_do cal cal1 clk (Adc_Round inp) s = do {
     (outs, st, q) \<leftarrow> adc_iteration cal cal1 (seen_by s inp) (adc_locals s) (sys_queue s);
     Some (set_hub ((sys_hub s)\<lparr>samples := q\<rparr>) (note_reported outs st s))
   }"
| "sys_do cal cal1 clk (Azure_Begin garbage) s = Some (azure_begin garbage s)"
| "sys_do cal cal1 clk (Azure_Connect c) s = azure_connect clk c s"
| "sys_do cal cal1 clk (Azure_Round inp adcs) s =
     (if azure s = Az_Loop \<and> hub_send_enabled (sys_hub s) \<and> has_task Adc_Task s
      then do {
        (outs, st, q) \<leftarrow> adc_task cal cal1 (map (seen_by s) adcs) (adc_locals s) (sys_queue s);
        azure_round clk (during outs inp) (note_reported outs st s)
      }
      else azure_round clk (during [] inp) s)"
| "sys_do cal cal1 clk (Azure_Close c) s = azure_close clk c s"
| "sys_do cal cal1 clk (Led_Check ble) s = Some (led_check ble s)"
| "sys_do cal cal1 clk Led_Act s = led_act clk s"
| "sys_do cal cal1 clk Timer_Alarm s = timer_alarm clk s"
| "sys_do cal cal1 clk Evt_Step s = Some (set_light (el_evt (sys_light s)) s)"
| "sys_do cal cal1 clk (Timer_Ticks n) s = Some (set_light ((sys_light s)\<lparr>tg := hw_elapse n (tg (sys_light s))\<rparr>) s)"
| "sys_do cal cal1 clk (Wifi_Action ok a) s =
     (case sc_exec ok a (wifi_view s) of
        Inl c \<Rightarrow> Some (s\<lparr>restarted := True\<rparr>)
      | Inr v \<Rightarrow> Some (wake_azure (set_wifi_view v s)))"

definition sys_step :: "(u32 \<Rightarrow> u32) \<Rightarrow> (u32 \<Rightarrow> u32) \<Rightarrow> nat \<Rightarrow> sys_action \<Rightarrow> system \<Rightarrow> system option" where
  "sys_step cal cal1 clk a s =
     (if restarted s \<or> (\<exists>t \<in> set_option (runs_in a). \<not> has_task t s) then Some s else sys_do cal cal1 clk a s)"

abbreviation sys_run :: "(u32 \<Rightarrow> u32) \<Rightarrow> (u32 \<Rightarrow> u32) \<Rightarrow> nat \<Rightarrow> sys_action list \<Rightarrow> system \<Rightarrow> system option" where
  "sys_run cal cal1 clk \<equiv> run_steps (sys_step cal cal1 clk)"

text \<open>The system when \<^verbatim>\<open>app_main\<close> has returned; \<open>junk\<close> is what the uninitialised sample of the ADC task
  holds.\<close>

definition sys_start :: "def_queue_buffer \<Rightarrow> gateway \<Rightarrow> system" where
  "sys_start junk g = \<lparr>gw = g, prov_task = Sc_Absent, azure = Az_Wait, az_wait = Not_Waiting, adc_locals = adc_start junk,
     led_cnt = 0, led_due = False, restarted = False, has_addr = False, reported = [], lost = 0\<rparr>"

lemma set_light_same: "set_light (sys_light s) s = s"
  by (simp add: set_light_def set_hub_def)

lemma wake_frame [simp]:
  "gw (wake_azure s) = gw s" "azure (wake_azure s) = azure s" "restarted (wake_azure s) = restarted s"
  "has_addr (wake_azure s) = has_addr s" "reported (wake_azure s) = reported s" "lost (wake_azure s) = lost s"
  "adc_locals (wake_azure s) = adc_locals s" "prov_task (wake_azure s) = prov_task s"
  by (simp_all add: wake_azure_def)

lemma sys_frame [simp]:
  "sys_hub (set_hub h s) = h" "adc_locals (set_hub h s) = adc_locals s" "reported (set_hub h s) = reported s"
  "lost (set_hub h s) = lost s" "wifi (gw (set_hub h s)) = wifi (gw s)" "azure (set_hub h s) = azure s"
  "has_addr (set_hub h s) = has_addr s" "wifi_connection (gw (set_hub h s)) = wifi_connection (gw s)"
  "set_light l s = set_hub ((sys_hub s)\<lparr>light_state := l\<rparr>) s"
  "gw (note_reported outs st s) = gw s" "adc_locals (note_reported outs st s) = st"
  "reported (note_reported outs st s) = reported s @ outs" "azure (note_reported outs st s) = azure s"
  "has_addr (note_reported outs st s) = has_addr s"
  "lost (note_reported outs st s) = lost s + overrun (sys_queue s) outs"
  "status_el (seen_by s inp) = status_el_gi (sys_light s)"
  by (simp_all add: set_hub_def note_reported_def set_light_def seen_by_def app_emergency_light_read_status_def)

end
