(* ===== verification/System_Safety.thy ===== *)
theory System_Safety
  imports System_Run "HOL-Library.Sublist"
begin

text \<open>
  The invariant of the running program: \<open>sys_inv\<close> combines the invariants of the components with the
  accounts of the samples, each action preserves it, and it holds when \<^verbatim>\<open>app_main\<close> returns.
\<close>

unbundle bit_operations_syntax

section \<open>Accounting for samples\<close>

text \<open>\<open>ss\<close> are the samples sent: they and those still queued are reported samples, in order and none
  twice, and exactly as many are missing as insertions hit a full queue.\<close>

definition accounted :: "'a list \<Rightarrow> 'a list \<Rightarrow> 'a list \<Rightarrow> nat \<Rightarrow> bool" where
  "accounted ss items rep n \<longleftrightarrow> subseq (ss @ items) rep \<and> length rep = length ss + length items + n"

lemma subseq_last_n: "subseq (last_n n xs) xs"
  by (simp add: last_n_def suffix_drop suffix_imp_subseq del: drop_append)

lemma accounted_insert:
  assumes "accounted ss items rep n"
  shows "accounted ss (last_n 5 (items @ outs)) (rep @ outs) (n + (length items + length outs - 5))"
proof -
  have "subseq (ss @ last_n 5 (items @ outs)) (ss @ items @ outs)"
    by (simp add: subseq_append' subseq_last_n)
  also have "subseq (ss @ items @ outs) (rep @ outs)"
    using assms by (simp add: accounted_def flip: append_assoc)
  finally show ?thesis using assms by (auto simp: accounted_def)
qed

lemma accounted_send:
  assumes "accounted ss items rep n" "items \<noteq> []"
  shows "accounted (ss @ [hd items]) (tl (last_n 5 (items @ outs))) (rep @ outs) (n + (length items + length outs - 5))"
proof -
  obtain y ys where items: "items = y # ys" using assms(2) by (cases items) auto
  have "tl (last_n 5 (items @ outs)) = drop (length (items @ outs) - 5) (ys @ outs)"
    by (simp only: last_n_def items tl_drop append_Cons list.sel)
  then have "subseq (tl (last_n 5 (items @ outs))) (ys @ outs)"
    by (simp only: suffix_drop suffix_imp_subseq)
  then have "subseq (ss @ y # tl (last_n 5 (items @ outs))) (ss @ y # ys @ outs)"
    by (simp add: subseq_append')
  also have "subseq (ss @ y # ys @ outs) (rep @ outs)"
    using assms(1) items by (simp add: accounted_def flip: append_assoc append_Cons)
  finally show ?thesis using assms(1) items by (auto simp: accounted_def)
qed

section \<open>Rounds of the ADC task\<close>

lemma ins_all_append: "ins_all ins (xs @ ys) q = Option.bind (ins_all ins xs q) (ins_all ins ys)"
  by (induction xs arbitrary: q) (auto split: bind_splits)

lemma adc_task_single: "adc_task cal cal1 [inp] st q = adc_iteration cal cal1 inp st q"
  by (auto split: bind_splits)

lemma adc_iteration_status:
  "adc_iteration cal cal1 inp st q = Some (out, st', q') \<Longrightarrow> d \<in> set out \<Longrightarrow> status d = status_el inp"
  by (auto simp: adc_iteration_def Let_def split: prod.splits if_splits)

lemma adc_task_inserts:
  "queue_inv q \<Longrightarrow> adc_task cal cal1 inps st q = Some (outs, st', q') \<Longrightarrow>
   ins_all queue_buffer_insert outs q = Some q' \<and> (\<forall>d \<in> set outs. \<exists>inp \<in> set inps. status d = status_el inp)"
proof (induction inps arbitrary: st q outs)
  case (Cons inp inps)
  obtain out st1 q1 where 1: "adc_iteration cal cal1 inp st q = Some (out, st1, q1)" "queue_inv q1"
    "ins_all queue_buffer_insert out q = Some q1"
    using adc_iteration_total [OF Cons.prems(1)] by blast
  obtain outs1 where 2: "adc_task cal cal1 inps st1 q1 = Some (outs1, st', q')" "outs = out @ outs1"
    using Cons.prems(2) 1(1) by (auto split: bind_splits)
  show ?case using Cons.IH [OF 1(2) 2(1)] 1 2(2) adc_iteration_status [OF 1(1)] by (auto simp: ins_all_append)
qed simp

section \<open>The invariant of the system\<close>

definition cloud_ok :: "iot_state \<Rightarrow> def_queue_buffer list \<Rightarrow> nat \<Rightarrow> bool" where
  "cloud_ok h rep n \<longleftrightarrow> (\<exists>ss times. length times = length ss \<and> sent_msgs h = map2 sprintf_msg times ss \<and>
     accounted ss (queue_items (samples h)) rep n)"

definition reports_ok :: "system \<Rightarrow> bool" where
  "reports_ok s \<longleftrightarrow> adc_cnt_ok (adc_locals s) \<and> (\<forall>d \<in> set (reported s). status d \<in> {0, 1}) \<and>
     cloud_ok (sys_hub s) (reported s) (lost s)"

definition hub_ok :: "system \<Rightarrow> bool" where
  "hub_ok s \<longleftrightarrow> queue_inv (sys_queue s) \<and> el_inv (sys_light s) \<and> (azure s \<noteq> Az_Wait \<longrightarrow> hub_inv (sys_hub s)) \<and>
     (wifi_connection (gw s) \<longleftrightarrow> azure s \<in> {Az_Connect, Az_Loop, Az_Closing})"

definition wifi_ok_inv :: "system \<Rightarrow> bool" where
  "wifi_ok_inv s \<longleftrightarrow> wifi_inv (wifi (gw s)) \<and> (connected (wifi (gw s)) \<longrightarrow> has_addr s)"

definition sys_inv :: "system \<Rightarrow> bool" where
  "sys_inv s \<longleftrightarrow> wifi_ok_inv s \<and> hub_ok s \<and> reports_ok s"

lemma cloud_frame: "sent_msgs h' = sent_msgs h \<Longrightarrow> samples h' = samples h \<Longrightarrow> cloud_ok h' = cloud_ok h"
  by (simp add: cloud_ok_def fun_eq_iff)

lemma hub_inv_parts: "hub_inv h \<Longrightarrow> queue_inv (samples h) \<and> el_inv (light_state h)"
  by (simp add: hub_inv_def)

text \<open>What a step does to the hub's state when it sends nothing and leaves the queue alone.\<close>

lemma sys_inv_hub:
  assumes "sys_inv s" "sent_msgs h = sent_msgs (sys_hub s)" "samples h = sys_queue s" "el_inv (light_state h)"
    and "azure s \<noteq> Az_Wait \<Longrightarrow> hub_inv h"
  shows "sys_inv (set_hub h s)"
  using assms cloud_frame [OF assms(2,3)] by (simp add: sys_inv_def hub_ok_def reports_ok_def wifi_ok_inv_def)

lemma hub_inv_light: "hub_inv h \<Longrightarrow> el_inv l \<Longrightarrow> hub_inv (h\<lparr>light_state := l\<rparr>)"
  by (simp add: hub_inv_def)

lemma sent_light [simp]: "sent_msgs (h\<lparr>light_state := l\<rparr>) = sent_msgs h" "sent_msgs (h\<lparr>samples := q\<rparr>) = sent_msgs h"
  "sent_msgs (h\<lparr>iothub_connection := b\<rparr>) = sent_msgs h"
  by (simp_all add: sent_msgs_def)

lemma sys_inv_light: "sys_inv s \<Longrightarrow> el_inv l \<Longrightarrow> sys_inv (set_light l s)"
  unfolding set_light_def by (rule sys_inv_hub) (simp_all add: hub_inv_light sys_inv_def hub_ok_def)

text \<open>The steps of the components, one lemma each.\<close>

lemma adc_round_inv:
  assumes "sys_inv s"
  shows "\<exists>s'. sys_do cal cal1 clk (Adc_Round inp) s = Some s' \<and> sys_inv s'"
proof -
  have q: "queue_inv (sys_queue s)" and el: "el_inv (sys_light s)" using assms by (simp_all add: sys_inv_def hub_ok_def)
  obtain outs st q' where 1: "adc_task cal cal1 [seen_by s inp] (adc_locals s) (sys_queue s) = Some (outs, st, q')"
    "queue_inv q'" "queue_items q' = last_n 5 (queue_items (sys_queue s) @ outs)"
    using adc_task_total [OF q] by blast
  let ?s = "set_hub ((sys_hub s)\<lparr>samples := q'\<rparr>) (note_reported outs st s)"
  have "sys_do cal cal1 clk (Adc_Round inp) s = Some ?s" using 1(1) by (simp add: adc_task_single)
  moreover have "\<forall>d \<in> set outs. status d \<in> {0, 1}"
    using adc_task_inserts [OF q 1(1)] el by (auto simp: el_inv_def)
  moreover have "cloud_ok ((sys_hub s)\<lparr>samples := q'\<rparr>) (reported s @ outs) (lost s + overrun (sys_queue s) outs)"
    using assms accounted_insert [where outs = outs] 1(3) unfolding sys_inv_def reports_ok_def cloud_ok_def overrun_def
    by fastforce
  moreover have "adc_cnt_ok st" using adc_task_cnt_ok [OF 1(1)] assms by (simp add: sys_inv_def reports_ok_def)
  ultimately show ?thesis
    using assms 1(2) by (auto simp: sys_inv_def hub_ok_def reports_ok_def wifi_ok_inv_def hub_inv_def)
qed

lemma sys_inv_ended:
  assumes "sys_inv s" "hub_inv h" "sent_msgs h = sent_msgs (sys_hub s)" "samples h = sys_queue s"
    and "azure s \<in> {Az_Connect, Az_Loop, Az_Closing}"
  shows "sys_inv (azure_next out h s)"
  using assms cloud_frame [OF assms(3,4)] hub_inv_parts [OF assms(2)]
  by (auto simp: azure_next_def set_hub_def sys_inv_def hub_ok_def reports_ok_def wifi_ok_inv_def)

lemma sys_inv_wait [simp]: "sys_inv (s\<lparr>az_wait := w\<rparr>) = sys_inv s" "sys_inv (wake_azure s) = sys_inv s"
  by (simp_all add: wake_azure_def sys_inv_def hub_ok_def reports_ok_def wifi_ok_inv_def)

lemma azure_begin_inv:
  assumes "sys_inv s"
  shows "sys_inv (azure_begin garbage s)"
proof (cases "azure s = Az_Wait \<and> wait_passes s")
  case True
  let ?h = "iothub_start (map garbage [0..<MESSAGE_COUNT]) (sys_hub s)"
  have "hub_inv ?h" using assms by (intro iothub_start_inv) (simp_all add: sys_inv_def hub_ok_def)
  moreover have "sent_msgs ?h = sent_msgs (sys_hub s)" "samples ?h = sys_queue s"
    by (simp_all add: iothub_start_def sent_msgs_def)
  ultimately show ?thesis
    using assms True cloud_frame [of ?h "sys_hub s"] hub_inv_parts [of ?h]
    by (simp add: azure_begin_def sys_inv_def hub_ok_def reports_ok_def wifi_ok_inv_def)
qed (use assms in \<open>auto simp: azure_begin_def\<close>)

lemma sys_inv_hub_inv: "sys_inv s \<Longrightarrow> azure s \<noteq> Az_Wait \<Longrightarrow> hub_inv (sys_hub s)"
  by (simp add: sys_inv_def hub_ok_def)

lemma sys_inv_pc:
  "sys_inv s \<Longrightarrow> azure s \<in> {Az_Connect, Az_Loop, Az_Closing} \<Longrightarrow> pc \<in> {Az_Connect, Az_Loop, Az_Closing} \<Longrightarrow>
   sys_inv (s\<lparr>azure := pc\<rparr>)"
  by (auto simp: sys_inv_def hub_ok_def reports_ok_def wifi_ok_inv_def)

lemma azure_setup_inv:
  assumes "sys_inv s" and pc: "azure s = Az_Connect"
  shows "\<exists>s'. azure_setup clk c s = Some s' \<and> sys_inv s'"
proof -
  have inv: "hub_inv (sys_hub s)" using sys_inv_hub_inv [OF assms(1)] pc by simp
  obtain h where h: "IoTHubClient_LL_DoWork clk (destroy_events c) (sys_hub s) = Some h" "hub_inv h"
    "samples h = sys_queue s" "sent_msgs h = sent_msgs (sys_hub s)"
    using dowork_ok [OF inv] by blast
  have "sys_inv (azure_next out (sys_hub s) s)" for out
    using sys_inv_ended [OF assms(1) inv refl refl] pc by simp
  moreover have "sys_inv (azure_next out h s)" for out
    using sys_inv_ended [OF assms(1) h(2,4,3)] pc by simp
  moreover have "sys_inv (set_hub ((sys_hub s)\<lparr>iothub_connection := True\<rparr>) (s\<lparr>azure := Az_Loop\<rparr>))"
    using sys_inv_pc [OF assms(1), of Az_Loop] pc inv hub_inv_parts [OF inv] by (intro sys_inv_hub) simp_all
  ultimately show ?thesis using h(1) by (simp add: azure_setup_def)
qed

lemma azure_connect_inv:
  assumes "sys_inv s"
  shows "\<exists>s'. azure_connect clk c s = Some s' \<and> sys_inv s'"
  using azure_setup_inv [of "s\<lparr>az_wait := Not_Waiting\<rparr>" clk c] assms by (simp add: azure_connect_def)

lemma azure_close_inv:
  assumes "sys_inv s"
  shows "\<exists>s'. azure_close clk c s = Some s' \<and> sys_inv s'"
proof (cases "azure s = Az_Closing")
  case True
  have inv: "hub_inv (sys_hub s)" using sys_inv_hub_inv [OF assms] True by simp
  obtain h where h: "hub_after_session clk c (sys_hub s) = Some h" "hub_inv h"
    "samples h = sys_queue s" "sent_msgs h = sent_msgs (sys_hub s)"
    using hub_after_session_ok [OF inv] by blast
  show ?thesis using sys_inv_ended [OF assms h(2,4,3)] True h(1) by (simp add: azure_close_def)
qed (use assms in \<open>auto simp: azure_close_def\<close>)

text \<open>A round of the telemetry loop that hands a message over, with the ADC rounds in between.\<close>

lemma map2_snoc: "length xs = length ys \<Longrightarrow> map2 f (xs @ [x]) (ys @ [y]) = map2 f xs ys @ [f x y]"
  by simp

lemma round_cloud:
  assumes inv: "hub_inv h" and en: "hub_send_enabled h" and ok: "cloud_ok h rep n" and quiet: "others_quiet inp"
  shows "\<exists>go h'. hub_round clk inp h = Some (go, h') \<and> hub_inv h' \<and>
    cloud_ok h' (rep @ in_inserts inp) (n + overrun (samples h) (in_inserts inp))"
proof -
  let ?items = "queue_items (samples h)" let ?outs = "in_inserts inp"
  have ne: "?items \<noteq> []" using enabled_window [OF inv en] by simp
  obtain ss times where acc: "length times = length ss" "sent_msgs h = map2 sprintf_msg times ss" "accounted ss ?items rep n"
    using ok by (auto simp: cloud_ok_def)
  obtain h1 where 1: "hub_send inp h = Some h1" "hub_inv h1"
    "sent_msgs h1 = sent_msgs h @ (if hub_accepts inp then [sprintf_msg (in_now inp) (hd ?items)] else [])"
    "queue_items (samples h1) = (if hub_accepts inp then tl (last_n 5 (?items @ ?outs)) else last_n 5 (?items @ ?outs))"
    using hub_send_ok [OF inv en, of inp] by auto
  have "cloud_ok h1 (rep @ ?outs) (n + overrun (samples h) ?outs)"
  proof (cases "hub_accepts inp")
    case True
    then have "sent_msgs h1 = map2 sprintf_msg (times @ [in_now inp]) (ss @ [hd ?items])" using 1(3) acc(1,2) by simp
    moreover have "accounted (ss @ [hd ?items]) (queue_items (samples h1)) (rep @ ?outs) (n + overrun (samples h) ?outs)"
      using accounted_send [OF acc(3) ne, of ?outs] 1(4) True by (simp add: overrun_def)
    moreover have "length (times @ [in_now inp]) = length (ss @ [hd ?items])" using acc(1) by simp
    ultimately show ?thesis unfolding cloud_ok_def by blast
  next
    case False
    then show ?thesis
      using accounted_insert [OF acc(3), of ?outs] 1(3,4) acc(1,2) unfolding cloud_ok_def overrun_def by auto
  qed
  moreover obtain h2 where 2: "IoTHubClient_LL_DoWork clk (in_events inp) h1 = Some h2" "hub_inv h2"
    "samples h2 = samples h1" "sent_msgs h2 = sent_msgs h1"
    using dowork_ok [OF 1(2), of clk "in_events inp"] by blast
  ultimately have "cloud_ok h2 (rep @ ?outs) (n + overrun (samples h) ?outs)" using cloud_frame [OF 2(4,3)] by simp
  then show ?thesis using 1(1) 2(1,2) en by (auto simp: hub_round_quiet [OF quiet])
qed

lemma idle_round:
  assumes inv: "hub_inv h" and en: "\<not> hub_send_enabled h" and quiet: "others_quiet inp"
  shows "\<exists>go h'. hub_round clk inp h = Some (go, h') \<and> hub_inv h' \<and> samples h' = samples h \<and> sent_msgs h' = sent_msgs h"
  using dowork_ok [OF inv, of clk "in_events inp"] en by (fastforce simp: hub_round_quiet [OF quiet])

text \<open>The invariant but for the accounts, which a round of the loop brings up to date.\<close>

lemma sys_inv_round:
  assumes "wifi_ok_inv s" "hub_ok s" "hub_inv h" "adc_cnt_ok (adc_locals s)" "\<forall>d \<in> set (reported s). status d \<in> {0, 1}"
    and "cloud_ok h (reported s) (lost s)" "azure s = Az_Loop"
  shows "sys_inv (set_hub h (s\<lparr>azure := (if go then Az_Loop else Az_Closing)\<rparr>))"
  using assms hub_inv_parts [OF assms(3)]
  by (simp add: set_hub_def sys_inv_def hub_ok_def reports_ok_def wifi_ok_inv_def)

lemma azure_round_inv:
  assumes "sys_inv s"
  shows "\<exists>s'. sys_do cal cal1 clk (Azure_Round inp adcs) s = Some s' \<and> sys_inv s'"
proof (cases "azure s = Az_Loop")
  case loop: True
  have inv: "hub_inv (sys_hub s)" using sys_inv_hub_inv [OF assms] loop by simp
  have parts: "wifi_ok_inv s" "hub_ok s" "adc_cnt_ok (adc_locals s)" "\<forall>d \<in> set (reported s). status d \<in> {0, 1}"
    "cloud_ok (sys_hub s) (reported s) (lost s)" and el: "el_inv (sys_light s)" and q: "queue_inv (sys_queue s)"
    using assms by (simp_all add: sys_inv_def reports_ok_def hub_ok_def)
  show ?thesis
  proof (cases "hub_send_enabled (sys_hub s)")
    case False
    obtain go h where h: "hub_round clk (during [] inp) (sys_hub s) = Some (go, h)" "hub_inv h"
      "samples h = sys_queue s" "sent_msgs h = sent_msgs (sys_hub s)"
      using idle_round [OF inv False, where inp = "during [] inp" and clk = clk] by auto
    then show ?thesis
      using sys_inv_round [OF parts(1,2) h(2) parts(3,4) _ loop, of go] cloud_frame [OF h(4,3)] parts(5) False loop
      by (simp add: azure_round_def)
  next
    case True
    note en = True
    show ?thesis
    proof (cases "has_task Adc_Task s")
      case False
      obtain go h where h: "hub_round clk (during [] inp) (sys_hub s) = Some (go, h)" "hub_inv h"
        "cloud_ok h (reported s) (lost s)"
        using round_cloud [OF inv en parts(5), where inp = "during [] inp" and clk = clk] ring.items_le [OF q]
        by (auto simp: overrun_def)
      then show ?thesis
        using sys_inv_round [OF parts(1,2) h(2) parts(3,4) h(3) loop, of go] False loop by (simp add: azure_round_def)
    next
      case True
      obtain outs st q' where a: "adc_task cal cal1 (map (seen_by s) adcs) (adc_locals s) (sys_queue s) = Some (outs, st, q')"
        using adc_task_total [OF q] by blast
      let ?s = "note_reported outs st s"
      have st: "adc_cnt_ok st" using adc_task_cnt_ok [OF a parts(3)] .
      have outs: "\<forall>d \<in> set outs. status d \<in> {0, 1}"
        using adc_task_inserts [OF q a] el by (auto simp: el_inv_def)
      obtain go h where h: "hub_round clk (during outs inp) (sys_hub s) = Some (go, h)" "hub_inv h"
        "cloud_ok h (reported ?s) (lost ?s)"
        using round_cloud [OF inv en parts(5), where inp = "during outs inp" and clk = clk] by auto
      have "wifi_ok_inv ?s" "hub_ok ?s" using parts(1,2) by (simp_all add: wifi_ok_inv_def hub_ok_def)
      then have "sys_inv (set_hub h (?s\<lparr>azure := (if go then Az_Loop else Az_Closing)\<rparr>))"
        using h(2,3) st outs parts(4) loop by (intro sys_inv_round) auto
      then show ?thesis using a h(1) en True loop by (simp add: azure_round_def)
    qed
  qed
qed (use assms in \<open>simp add: azure_round_def\<close>)

text \<open>A round of the Azure task is \<^verbatim>\<open>azure_round\<close>, after the reports of the hand-over were noted.\<close>

lemma do_azure_round:
  assumes "sys_do cal cal1 clk (Azure_Round inp adcs) s = Some s'"
  obtains outs t where "azure_round clk (during outs inp) t = Some s'" "gw t = gw s" "azure t = azure s"
    "restarted t = restarted s" "prefix (reported s) (reported t)" "lost s \<le> lost t"
proof (cases "azure s = Az_Loop \<and> hub_send_enabled (sys_hub s) \<and> has_task Adc_Task s")
  case True
  then obtain outs st q where "azure_round clk (during outs inp) (note_reported outs st s) = Some s'"
    using assms by (auto split: bind_splits prod.splits)
  then show ?thesis by (rule that) (simp_all add: note_reported_def)
next
  case False
  then have "azure_round clk (during [] inp) s = Some s'" using assms by auto
  then show ?thesis by (rule that) simp_all
qed

text \<open>The LED task's steps, each as a step of the light.\<close>

lemma led_check_light:
  obtains levels n l where "led_flash_lights (led_cnt s) ble (wifi_check_connection (gw s)) (iothub_check_connection (sys_hub s))
      (sys_light s) = (levels, n, l)"
    "led_check ble s = (if led_due s then s else set_light l (s\<lparr>led_cnt := n, led_due := end_of_test (tg (sys_light s))\<rparr>))"
proof -
  obtain levels n l where 1: "led_flash_lights (led_cnt s) ble (wifi_check_connection (gw s)) (iothub_check_connection (sys_hub s))
      (sys_light s) = (levels, n, l)"
    by (metis prod_cases3)
  then show ?thesis using that [OF 1] lights_ok(1) [OF 1] by (simp add: led_check_def end_of_test_enable_check_def)
qed

lemma sys_inv_led [simp]: "sys_inv (s\<lparr>led_cnt := n\<rparr>) = sys_inv s" "sys_inv (s\<lparr>led_due := d\<rparr>) = sys_inv s"
  by (simp_all add: sys_inv_def hub_ok_def reports_ok_def wifi_ok_inv_def)

lemma led_check_inv:
  assumes "sys_inv s"
  shows "sys_inv (led_check ble s)"
proof -
  obtain levels n l where 1: "led_flash_lights (led_cnt s) ble (wifi_check_connection (gw s)) (iothub_check_connection (sys_hub s))
      (sys_light s) = (levels, n, l)"
    "led_check ble s = (if led_due s then s else set_light l (s\<lparr>led_cnt := n, led_due := end_of_test (tg (sys_light s))\<rparr>))"
    by (rule led_check_light)
  have "el_inv l" using lights_ok(2) [OF 1(1)] assms by (simp add: sys_inv_def hub_ok_def)
  then have "sys_inv (set_light l (s\<lparr>led_cnt := n, led_due := end_of_test (tg (sys_light s))\<rparr>))"
    using assms by (intro sys_inv_light) simp_all
  then show ?thesis using 1(2) assms by simp
qed

lemma led_act_inv:
  assumes "sys_inv s"
  shows "\<exists>s'. led_act clk s = Some s' \<and> sys_inv s'"
proof -
  have "el_inv (sys_light s)" using assms by (simp add: sys_inv_def hub_ok_def)
  then obtain l where l: "app_emergency_light_test_button clk False (sys_light s) = Some l" "el_inv l"
    using button_off_ok by blast
  have "sys_inv (set_light l (s\<lparr>led_due := False\<rparr>))" using l(2) assms by (intro sys_inv_light) simp_all
  then show ?thesis using l(1) assms by (simp add: led_act_def)
qed

lemma timer_alarm_inv:
  assumes "sys_inv s"
  shows "\<exists>s'. timer_alarm clk s = Some s' \<and> sys_inv s'"
proof -
  have el: "el_inv (sys_light s)" using assms by (simp add: sys_inv_def hub_ok_def)
  obtain l where l: "el_isr clk (sys_light s) = Some l" "el_inv l" using isr_ok [OF el] by blast
  show ?thesis using sys_inv_light [OF assms l(2)] l(1) by (simp add: timer_alarm_def del: sys_frame)
qed

lemma wifi_action_inv:
  assumes "sys_inv s"
  shows "\<exists>s'. sys_do cal cal1 clk (Wifi_Action ok a) s = Some s' \<and> sys_inv s'"
proof (cases "sc_exec ok a (wifi_view s)")
  case (Inl c)
  then show ?thesis using assms by (simp add: sys_inv_def hub_ok_def reports_ok_def wifi_ok_inv_def)
next
  case (Inr v)
  have w: "wifi_inv (sc_wifi (wifi_view s))" "connected (sc_wifi (wifi_view s)) \<longrightarrow> link (wifi_view s)"
    using assms by (simp_all add: sys_inv_def wifi_ok_inv_def wifi_view_def)
  then have "wifi_inv (sc_wifi v) \<and> (connected (sc_wifi v) \<longrightarrow> link v)"
    using sc_exec_step [OF Inr] sc_step_inv sc_step_link by blast
  then show ?thesis
    using Inr assms by (simp add: set_wifi_view_def sys_inv_def hub_ok_def reports_ok_def wifi_ok_inv_def)
qed

lemma sys_do_inv:
  assumes "sys_inv s"
  shows "\<exists>s'. sys_do cal cal1 clk a s = Some s' \<and> sys_inv s'"
proof (cases a)
  case (Timer_Ticks n)
  have "el_inv ((sys_light s)\<lparr>tg := hw_elapse n (tg (sys_light s))\<rparr>)"
    using assms by (auto simp: sys_inv_def hub_ok_def el_inv_def hw_elapse_def tg_inv_def)
  from sys_inv_light [OF assms this] show ?thesis using Timer_Ticks by (simp del: sys_frame)
next
  case Evt_Step
  have "el_inv (sys_light s)" using assms by (simp add: sys_inv_def hub_ok_def)
  from sys_inv_light [OF assms evt_ok(1) [OF this]] show ?thesis using Evt_Step by (simp del: sys_frame)
qed (use assms in \<open>simp_all only: sys_do.simps(2,3,5,6,7,8) led_check_inv led_act_inv adc_round_inv azure_begin_inv azure_connect_inv azure_round_inv
    azure_close_inv timer_alarm_inv wifi_action_inv option.inject ex_simps simp_thms\<close>)

section \<open>The tasks stay\<close>

lemma tasks_frame [simp]:
  "tasks (gw (set_hub h s)) = tasks (gw s)" "tasks (gw (azure_next out h s)) = tasks (gw s)"
  "tasks (gw (azure_begin g s)) = tasks (gw s)" "tasks (gw (set_wifi_view v s)) = tasks (gw s)"
  by (simp_all add: set_hub_def azure_next_def azure_begin_def set_wifi_view_def)

lemma sys_do_tasks: "sys_do cal cal1 clk a s = Some s' \<Longrightarrow> tasks (gw s') = tasks (gw s)"
  by (cases a) (auto simp: azure_connect_def azure_setup_def azure_round_def azure_close_def light_steps
      split: bind_splits prod.splits if_splits sum.splits)

section \<open>Runs\<close>

lemma sys_step_inv:
  assumes "sys_inv s"
  shows "\<exists>s'. sys_step cal cal1 clk a s = Some s' \<and> sys_inv s'"
  using sys_do_inv [OF assms] assms by (simp add: sys_step_def)

interpretation sys: total_system "\<lambda>_. True" sys_inv "sys_step cal cal1 clk" for cal cal1 clk
  by unfold_locales (rule sys_step_inv)

text \<open>The contract of a property of the program's states that every allowed action keeps. It is stated on
  the actions that happen; a step that does not happen keeps everything. Runs keep the property, too.\<close>

locale sys_property =
  fixes cal :: "u32 \<Rightarrow> u32"
    and cal1 :: "u32 \<Rightarrow> u32"
    and clk :: nat
    and allowed :: "sys_action \<Rightarrow> bool"
    and holds :: "system \<Rightarrow> bool"
  assumes holds_inv: "holds s \<Longrightarrow> sys_inv s"
    and holds_do: "holds s \<Longrightarrow> allowed a \<Longrightarrow> sys_do cal cal1 clk a s = Some s' \<Longrightarrow> sys_inv s' \<Longrightarrow> holds s'"
begin

lemma holds_step:
  assumes "holds s" "allowed a"
  shows "\<exists>s'. sys_step cal cal1 clk a s = Some s' \<and> holds s'"
proof -
  obtain s' where "sys_step cal cal1 clk a s = Some s'" "sys_inv s'"
    using sys_step_inv [OF holds_inv [OF assms(1)]] by blast
  then show ?thesis using assms holds_do by (auto simp: sys_step_def split: if_splits)
qed

sublocale total_system allowed holds "sys_step cal cal1 clk"
  by unfold_locales (rule holds_step)

end

lemma sys_run_inv: "sys_inv s \<Longrightarrow> \<exists>s'. sys_run cal cal1 clk as s = Some s' \<and> sys_inv s'"
  by (rule sys.run_ok) (simp_all add: list_all_iff)

lemma sys_run_tasks: "sys_run cal cal1 clk as s = Some s' \<Longrightarrow> tasks (gw s') = tasks (gw s)"
proof (induction as arbitrary: s)
  case (Cons a as)
  then obtain s1 where 1: "sys_step cal cal1 clk a s = Some s1" "sys_run cal cal1 clk as s1 = Some s'"
    by (auto split: bind_splits)
  then have "tasks (gw s1) = tasks (gw s)" using sys_do_tasks by (fastforce simp: sys_step_def split: if_splits)
  then show ?case using Cons.IH [OF 1(2)] by simp
qed simp

lemma booted_start:
  assumes "app_main b reset_state = Inr g"
  obtains t where "booted b t g" "tg_inv t" "timer_queue t = []" "counter_en (hw_timers t ! 0)" "alarm_ready (hw_timers t ! 0)"
    "evt_pending t = []" "app_timer (clk_base b) tg_reset = Some t"
proof -
  obtain n where n: "nvs_start b = Inr n" using assms by (cases "nvs_start b") (auto simp: app_main_def)
  have wifi: "find (\<lambda>c. \<not> wifi_ok b c) wifi_start_calls = None"
    using assms app_main_abort [of b] n by (metis Inl_Inr_False not_None_eq)
  obtain t where t: "app_timer (clk_base b) tg_reset = Some t" "tg_inv t" "timer_queue t = []"
    "counter_en (hw_timers t ! 0)" "alarm_ready (hw_timers t ! 0)" "evt_task t = evt_task tg_reset"
    using app_timer_effect [OF tg_inv_reset, of "clk_base b"] by blast
  have "booted b t g" using app_main_booted [OF n wifi t(1)] assms by auto
  moreover have "evt_pending t = []" using t(3,6) by (simp add: evt_pending_def tg_reset_def)
  ultimately show ?thesis using t by (intro that)
qed

lemma sys_start_inv:
  assumes "app_main b reset_state = Inr g"
  shows "sys_inv (sys_start junk g)"
proof -
  obtain t where g: "booted b t g" and t: "tg_inv t" "evt_pending t = []" using booted_start [OF assms] .
  have "el_inv (sys_light (sys_start junk g))"
    using g t by (simp add: sys_start_def booted_def el_inv_def gpio_ini_def el_reset_def)
  moreover have "cloud_ok (hub g) [] 0"
    using g by (simp add: cloud_ok_def accounted_def booted_def queue_items_init sent_msgs_def List.map_filter_def)
  ultimately show ?thesis
    using g by (simp add: sys_inv_def wifi_ok_inv_def hub_ok_def reports_ok_def sys_start_def booted_def
        wifi_inv_def connected_def adc_cnt_start queue_inv_init)
qed

lemma sys_start_armed:
  assumes "app_main b reset_state = Inr g"
  shows "alarm_armed (sys_start junk g)" and "evt_pending (tg (sys_light (sys_start junk g))) = []"
proof -
  obtain t where "booted b t g" "counter_en (hw_timers t ! 0)" "alarm_ready (hw_timers t ! 0)" "evt_pending t = []"
    using booted_start [OF assms] .
  then show "alarm_armed (sys_start junk g)" "evt_pending (tg (sys_light (sys_start junk g))) = []"
    by (simp_all add: alarm_armed_def el_armed_def sys_start_def booted_def Let_def)
qed

lemma sys_run_from_start:
  assumes "app_main b reset_state = Inr g" "sys_run cal cal1 clk as (sys_start junk g) = Some s"
  shows "sys_inv s"
  using sys_run_inv [OF sys_start_inv [OF assms(1)], of cal cal1 clk as junk] assms(2) by simp

section \<open>The Azure task on its own\<close>

text \<open>The actions of one connection, without ADC rounds in between.\<close>

definition conn_actions :: "conn_input \<Rightarrow> sys_action list" where
  "conn_actions c = Azure_Connect c # map (\<lambda>inp. Azure_Round inp []) (rounds c) @ [Azure_Close c]"

definition azure_runs :: "system \<Rightarrow> bool" where
  "azure_runs s \<longleftrightarrow> \<not> restarted s \<and> has_task Azure_Task s"

lemma azure_runs_frame [simp]:
  "azure_runs (set_hub h s) = azure_runs s" "azure_runs (s\<lparr>azure := pc\<rparr>) = azure_runs s"
  "azure_runs (azure_next out h s) = azure_runs s" "(s\<lparr>azure := pc\<rparr>)\<lparr>azure := pc'\<rparr> = s\<lparr>azure := pc'\<rparr>"
  "set_hub h' (set_hub h s) = set_hub h' s" "(set_hub h s)\<lparr>azure := pc\<rparr> = set_hub h (s\<lparr>azure := pc\<rparr>)"
  "azure (azure_next out h s) = (if out = Continue_Loop then Az_Connect else Az_Deleted)"
  "azure_next out h' (set_hub h s) = azure_next out h' s" "azure_next out h' (s\<lparr>azure := pc\<rparr>) = azure_next out h' s"
  "azure_runs (s\<lparr>az_wait := w\<rparr>) = azure_runs s" "azure_runs (wake_azure s) = azure_runs s"
  by (simp_all add: azure_runs_def has_task_def set_hub_def azure_next_def)

lemma sys_step_azure: "azure_runs s \<Longrightarrow> runs_in a = Some Azure_Task \<Longrightarrow> sys_step cal cal1 clk a s = sys_do cal cal1 clk a s"
  by (simp add: sys_step_def azure_runs_def)

lemma note_nothing: "queue_inv (sys_queue s) \<Longrightarrow> note_reported [] (adc_locals s) s = s"
  using ring.items_le by (simp add: note_reported_def overrun_def)

lemma round_alone:
  assumes "queue_inv (sys_queue s)" "in_inserts inp = []" "others_quiet inp"
  shows "sys_do cal cal1 clk (Azure_Round inp []) s = azure_round clk inp s"
proof -
  have "during [] inp = inp" using assms(2,3) by (simp add: during_def others_quiet_def)
  then show ?thesis using note_nothing [OF assms(1)] by simp
qed

lemma rounds_idle:
  "azure s \<noteq> Az_Loop \<Longrightarrow> azure_runs s \<Longrightarrow>
   sys_run cal cal1 clk (map (\<lambda>inp. Azure_Round inp []) inps) s = Some s"
  by (induction inps) (simp_all add: sys_step_azure azure_round_def)

lemma session_alone:
  "hub_inv (sys_hub s) \<Longrightarrow> azure s = Az_Loop \<Longrightarrow> azure_runs s \<Longrightarrow> \<forall>inp \<in> set inps. in_inserts inp = [] \<and> others_quiet inp \<Longrightarrow>
   hub_session clk inps (sys_hub s) = Some (ended, h) \<Longrightarrow>
   sys_run cal cal1 clk (map (\<lambda>inp. Azure_Round inp []) inps) s =
     Some (set_hub h (s\<lparr>azure := (if ended then Az_Closing else Az_Loop)\<rparr>))"
proof (induction inps arbitrary: s)
  case Nil
  then show ?case by (simp add: set_hub_def)
next
  case (Cons inp inps)
  obtain go h1 where 1: "hub_round clk inp (sys_hub s) = Some (go, h1)" "hub_inv h1"
    using hub_round_ok [OF Cons.prems(1)] by blast
  let ?s1 = "set_hub h1 (s\<lparr>azure := (if go then Az_Loop else Az_Closing)\<rparr>)"
  have step: "sys_step cal cal1 clk (Azure_Round inp []) s = Some ?s1"
    using Cons.prems 1(1) hub_inv_parts [OF Cons.prems(1)] round_alone [of s inp]
    by (simp add: sys_step_azure azure_round_def del: sys_do.simps)
  show ?case
  proof (cases go)
    case True
    then have "sys_run cal cal1 clk (map (\<lambda>inp. Azure_Round inp []) inps) ?s1 =
        Some (set_hub h (?s1\<lparr>azure := (if ended then Az_Closing else Az_Loop)\<rparr>))"
      using Cons.prems 1 by (intro Cons.IH) simp_all
    then show ?thesis using step by simp
  next
    case False
    then show ?thesis using step Cons.prems(3,5) 1(1) rounds_idle [of ?s1] by simp
  qed
qed

text \<open>When no other task comes in between, the steps of the Azure task in the system are exactly one connection of
  \<^verbatim>\<open>iothub_client_sample_mqtt_run\<close>, from the end of the wait before it: the system and the function that
  models the source's loops agree.\<close>

lemma connection_alone:
  fixes s :: system and c :: conn_input
  defines "t \<equiv> s\<lparr>az_wait := Not_Waiting\<rparr>"
  assumes "hub_inv (sys_hub s)" "azure s = Az_Connect" "wait_passes s" "azure_runs s"
    and "\<forall>inp \<in> set (rounds c). in_inserts inp = [] \<and> others_quiet inp"
    and "hub_connection clk c (sys_hub s) = Some (out, h)"
  shows "sys_run cal cal1 clk (conn_actions c) s =
    Some (if out = Still_Running then set_hub h (t\<lparr>azure := Az_Loop\<rparr>) else azure_next out h t)"
proof -
  have t: "sys_hub t = sys_hub s" "azure t = Az_Connect" "azure_runs t" using assms by simp_all
  have connect: "sys_step cal cal1 clk (Azure_Connect c) s = azure_setup clk c t"
    using assms by (simp add: sys_step_azure azure_connect_def)
  show ?thesis
  proof (cases "platform_ok c \<and> client_ok c \<and> callback_ok c")
    case True
    let ?h0 = "(sys_hub s)\<lparr>iothub_connection := True\<rparr>"
    let ?s0 = "set_hub ?h0 (t\<lparr>azure := Az_Loop\<rparr>)"
    obtain ended h1 where 1: "hub_session clk (rounds c) ?h0 = Some (ended, h1)"
      using hub_session_ok [of ?h0 clk "rounds c"] assms(2) by auto
    have "sys_step cal cal1 clk (Azure_Connect c) s = Some ?s0"
      using True connect t(1) by (simp add: azure_setup_def)
    moreover have "sys_run cal cal1 clk (map (\<lambda>inp. Azure_Round inp []) (rounds c)) ?s0 =
        Some (set_hub h1 (?s0\<lparr>azure := (if ended then Az_Closing else Az_Loop)\<rparr>))"
      using assms(2,6) t(3) 1 by (intro session_alone) simp_all
    ultimately show ?thesis
      using 1 assms(7) t(3) True
      by (auto simp: conn_actions_def run_steps_append sys_step_azure azure_close_def hub_connection_def hub_reconnects_def
          split: if_splits)
  next
    case False
    have "sys_run cal cal1 clk (conn_actions c) s = Some s1"
      if "azure_setup clk c t = Some s1" "azure s1 \<noteq> Az_Loop \<and> azure s1 \<noteq> Az_Closing \<and> azure_runs s1" for s1
      using that connect rounds_idle [of s1 cal cal1 clk "rounds c"]
      by (simp add: conn_actions_def sys_step_azure run_steps_append azure_close_def)
    then show ?thesis
      using False assms(7) t
      by (auto simp: azure_setup_def hub_connection_def hub_reconnects_def split: if_splits)
  qed
qed

text \<open>What a run of the first steps unfolds to.\<close>

lemmas first_steps = sys_step_def sys_start_def wifi_view_def set_wifi_view_def wake_azure_def sc_signal_def sc_wake_def
  azure_begin_def wait_passes_def wait_bits_def wifi_defs azure_runs_def has_task_def azure_connect_def azure_setup_def set_hub_def

section \<open>Properties\<close>

text \<open>C4: After a start that is not aborted, no order of rounds, alarms, commands, Wi-Fi and smartconfig
  events and answers of the libraries makes the program leave an array. In every state it reaches
  the queue and the light are well formed, at most one message is handed over and not confirmed,
  the connected bit is set only while the station holds an address, and the Wi-Fi flag tells
  whether the Azure task is between its first wait and its end.\<close>

theorem system_never_stuck:
  assumes "app_main b reset_state = Inr g"
  shows "\<exists>s. sys_run cal cal1 clk as (sys_start junk g) = Some s \<and> queue_inv (sys_queue s) \<and> el_inv (sys_light s) \<and>
    (azure s \<noteq> Az_Wait \<longrightarrow> length (in_flight (sys_hub s)) \<le> 1) \<and>
    (s_wifi_event_group (wifi (gw s)) AND CONNECTED_BIT \<noteq> 0 \<longrightarrow> has_addr s) \<and>
    (wifi_check_connection (gw s) \<longleftrightarrow> azure s \<in> {Az_Connect, Az_Loop, Az_Closing})"
proof -
  obtain s where s: "sys_run cal cal1 clk as (sys_start junk g) = Some s" "sys_inv s"
    using sys_run_inv [OF sys_start_inv [OF assms]] by blast
  have "length (in_flight (sys_hub s)) \<le> 1" if "azure s \<noteq> Az_Wait"
    using sys_inv_hub_inv [OF s(2) that] unfolding hub_inv_def by linarith
  then show ?thesis
    using s by (simp add: sys_inv_def hub_ok_def wifi_ok_inv_def connected_def wifi_check_connection_def)
qed

text \<open>A start in which everything succeeds, and the inputs of a short run.\<close>

definition boot_example :: boot_input where
  "boot_example = \<lparr>nvs_init_1 = Nvs_Ok, nvs_erase = Nvs_Ok, nvs_init_2 = Nvs_Ok, wifi_ok = (\<lambda>_. True),
     task_mem = (\<lambda>_. True), clk_base = 80000000\<rparr>"

definition conn_example :: conn_input where
  "conn_example = \<lparr>platform_ok = True, client_ok = True, callback_ok = True,
     rounds = [\<lparr>in_now = 0, in_inserts = [], in_sleep = [], in_pause = [],
       in_create = Some 1, in_send_ok = True, in_events = [Ack], in_conn_lost = True\<rparr>],
     final_events = (\<lambda>_. []), destroy_events = []\<rparr>"

definition adc_example :: adc_input where
  "adc_example = \<lparr>adc1_raw_0 = \<lambda>_. 100, adc1_raw_1 = \<lambda>_. 400, adc2_raw = \<lambda>_. 0, status_el = 0\<rparr>"

definition run_example :: "sys_action list" where
  "run_example = [Wifi_Action (\<lambda>_. True) (Sc_Event STA_START), Adc_Round adc_example,
     Wifi_Action (\<lambda>_. True) (Sc_Event STA_GOT_IP), Azure_Begin (\<lambda>_. \<lparr>messageHandle = None, messageTrackingId = 0\<rparr>)]"

lemma boot_example_ok:
  "\<exists>g. app_main boot_example reset_state = Inr g \<and> s_wifi_event_group (wifi g) = 0 \<and>
     tasks g = [Led_Ctrl_Task, Azure_Task, Adc_Task, Rtc_Time_Task, Timer_Evt_Task]"
proof -
  have "nvs_start boot_example = Inr 0" "find (\<lambda>c. \<not> wifi_ok boot_example c) wifi_start_calls = None"
    by (simp_all add: nvs_start_def boot_example_def wifi_start_calls_def)
  from app_main_ok [OF this] show ?thesis by (auto simp: boot_example_def)
qed

theorem system_never_stuck_witness:
  "\<exists>g s. app_main boot_example reset_state = Inr g \<and>
     sys_run (\<lambda>x. x) (\<lambda>x. x) 80000000 (run_example @ conn_actions conn_example) (sys_start zero_sample g) = Some s \<and>
     queue_inv (sys_queue s)"
  using boot_example_ok system_never_stuck [of boot_example _ "\<lambda>x. x" "\<lambda>x. x" 80000000
      "run_example @ conn_actions conn_example" zero_sample]
  by blast

text \<open>C2: What the cloud gets. In every state the program reaches, the messages sent are the texts of
  samples; these, and after them the samples still in the queue, are samples the ADC task reported,
  in the order of the reports and none twice; and exactly as many reported samples are missing as
  insertions hit a full queue. If none did, nothing is missing.\<close>

theorem cloud_gets_reported_samples:
  assumes "app_main b reset_state = Inr g" "sys_run cal cal1 clk as (sys_start junk g) = Some s"
  shows "\<exists>ss times. length times = length ss \<and> sent_msgs (sys_hub s) = map2 sprintf_msg times ss \<and>
    subseq (ss @ queue_items (sys_queue s)) (reported s) \<and>
    length (reported s) = length ss + length (queue_items (sys_queue s)) + lost s \<and>
    (lost s = 0 \<longrightarrow> ss @ queue_items (sys_queue s) = reported s)"
proof -
  obtain ss times where ss: "length times = length ss" "sent_msgs (sys_hub s) = map2 sprintf_msg times ss"
    "subseq (ss @ queue_items (sys_queue s)) (reported s)"
    "length (reported s) = length ss + length (queue_items (sys_queue s)) + lost s"
    using sys_run_from_start [OF assms] by (auto simp: sys_inv_def reports_ok_def cloud_ok_def accounted_def)
  then have "lost s = 0 \<longrightarrow> ss @ queue_items (sys_queue s) = reported s"
    using subseq_same_length [OF ss(3)] by simp
  with ss show ?thesis by (intro exI [of _ ss] exI [of _ times] conjI)
qed

theorem cloud_gets_reported_samples_witness:
  "\<exists>g s ss times. app_main boot_example reset_state = Inr g \<and>
     sys_run (\<lambda>x. x) (\<lambda>x. x) 80000000 (run_example @ conn_actions conn_example) (sys_start zero_sample g) = Some s \<and>
     sent_msgs (sys_hub s) = map2 sprintf_msg times ss \<and> subseq (ss @ queue_items (sys_queue s)) (reported s)"
proof -
  obtain g where g: "app_main boot_example reset_state = Inr g" using boot_example_ok by blast
  obtain s where s: "sys_run (\<lambda>x. x) (\<lambda>x. x) 80000000 (run_example @ conn_actions conn_example) (sys_start zero_sample g) = Some s"
    using sys_run_inv [OF sys_start_inv [OF g]] by blast
  show ?thesis using cloud_gets_reported_samples [OF g s] g s by blast
qed

text \<open>C37: The small integers of the program keep their small types: every status reported is 0 or 1, and so
  are the light's status and the level of its pin; the ADC task's round counter never exceeds ten,
  and of the event group only the two low bits are ever set.\<close>

theorem system_well_typed:
  assumes "app_main b reset_state = Inr g" "sys_run cal cal1 clk as (sys_start junk g) = Some s"
  shows "(\<forall>d \<in> set (reported s). status d \<in> {0, 1}) \<and> unat (cnt (adc_locals s)) \<le> 10 \<and>
    s_wifi_event_group (wifi (gw s)) \<in> {0, 1, 2, 3} \<and>
    app_emergency_light_read_status (sys_light s) \<in> {0, 1} \<and> gpio_out (sys_light s) GPIO_OUTPUT_IO_TEST_BUTTON \<in> {0, 1}"
  using sys_run_from_start [OF assms]
  by (auto simp: sys_inv_def reports_ok_def adc_cnt_ok_def wifi_ok_inv_def wifi_inv_def hub_ok_def el_inv_def
      app_emergency_light_read_status_def)

theorem system_well_typed_witness:
  "\<exists>g s. app_main boot_example reset_state = Inr g \<and>
     sys_run (\<lambda>x. x) (\<lambda>x. x) 80000000 (run_example @ [Led_Check True, Led_Act]) (sys_start zero_sample g) = Some s \<and>
     (\<forall>d \<in> set (reported s). status d \<in> {0, 1})"
proof -
  obtain g where g: "app_main boot_example reset_state = Inr g" using boot_example_ok by blast
  obtain s where s: "sys_run (\<lambda>x. x) (\<lambda>x. x) 80000000 (run_example @ [Led_Check True, Led_Act]) (sys_start zero_sample g) = Some s"
    using sys_run_inv [OF sys_start_inv [OF g]] by blast
  show ?thesis using system_well_typed [OF g s] g s by blast
qed

end
