(* ===== verification/Light_Order.thy ===== *)
theory Light_Order
  imports System_Safety
begin

text \<open>
  How the light may change in the running program. \<open>light_order\<close> is the contract of a preorder on
  the light's states that the operations of the light respect: the two commands (those the runs in
  question deliver), the LED task, the timer, its interrupt and the event task (where the runs contain
  them). Its lemmas carry the preorder over the callbacks of the telemetry loop to every step of the
  system, once for all uses.
\<close>

section \<open>Actions by what they do to the light\<close>

text \<open>\<open>light_ok p own\<close>: the action delivers only events with \<open>p\<close>, and is one of \<open>own\<close> when it is none of
  the Azure task.\<close>

definition conn_ok :: "(hub_event \<Rightarrow> bool) \<Rightarrow> conn_input \<Rightarrow> bool" where
  "conn_ok p c \<longleftrightarrow> list_all p (destroy_events c) \<and> (\<forall>i < DOWORK_LOOP_NUM. list_all p (final_events c i))"

fun light_ok :: "(hub_event \<Rightarrow> bool) \<Rightarrow> (sys_action \<Rightarrow> bool) \<Rightarrow> sys_action \<Rightarrow> bool" where
  "light_ok p own (Azure_Connect c) = conn_ok p c"
| "light_ok p own (Azure_Round inp adcs) = list_all p (in_events inp)"
| "light_ok p own (Azure_Close c) = conn_ok p c"
| "light_ok p own a = own a"

lemma light_ok_all [simp]: "light_ok (\<lambda>_. True) (\<lambda>_. True) a"
  by (cases a) (simp_all add: conn_ok_def list_all_iff)

lemma memcmp_whole: "length s = length t \<Longrightarrow> memcmp_eq s t (length s) \<longleftrightarrow> s = t"
  by (simp add: memcmp_eq_def)

text \<open>The callback of a message is the command it holds, or nothing.\<close>

lemma receive_command:
  "map_option light_state (ReceiveMessageCallback clk content h) =
    (if content = Some ''TEST ON'' then app_emergency_light_test_button clk True (light_state h)
     else if content = Some ''TEST OFF'' then app_emergency_light_test_button clk False (light_state h)
     else Some (light_state h))"
proof (cases content)
  case (Some buffer)
  have "length buffer = length t \<and> memcmp_eq buffer t (length buffer) \<longleftrightarrow> buffer = t" for t
    using memcmp_whole by auto
  then show ?thesis
    by (simp add: Some ReceiveMessageCallback_def Let_def del: list.size) (auto simp: option.map_comp comp_def split: bind_splits)
qed (simp add: ReceiveMessageCallback_def)

lemma sys_light_next [simp]: "sys_light (azure_next out h s) = light_state h"
  by (simp add: azure_next_def set_hub_def)

lemma sys_light_begin [simp]: "sys_light (azure_begin garbage s) = sys_light s"
  by (simp add: azure_begin_def iothub_start_def)

lemma sys_inv_light_ok: "sys_inv s \<Longrightarrow> el_inv (sys_light s)"
  by (simp add: sys_inv_def hub_ok_def)

section \<open>The contract\<close>

locale light_order =
  fixes clk :: nat
    and p :: "hub_event \<Rightarrow> bool"
    and own :: "sys_action \<Rightarrow> bool"
    and rel :: "el_state \<Rightarrow> el_state \<Rightarrow> bool"
  assumes refl [simp]: "rel l l"
    and trans: "rel l1 l2 \<Longrightarrow> rel l2 l3 \<Longrightarrow> rel l1 l3"
    and test_on: "p (Receive (Some ''TEST ON'')) \<Longrightarrow> el_inv l \<Longrightarrow>
      app_emergency_light_test_button clk True l = Some l' \<Longrightarrow> rel l l'"
    and test_off: "p (Receive (Some ''TEST OFF'')) \<Longrightarrow> el_inv l \<Longrightarrow>
      app_emergency_light_test_button clk False l = Some l' \<Longrightarrow> rel l l'"
    and lights: "el_inv l \<Longrightarrow> led_flash_lights k b1 b2 b3 l = (levels, k', l') \<Longrightarrow> rel l l'"
    and led_off: "own Led_Act \<Longrightarrow> el_inv l \<Longrightarrow> app_emergency_light_test_button clk False l = Some l' \<Longrightarrow> rel l l'"
    and ticks: "own (Timer_Ticks n) \<Longrightarrow> el_inv l \<Longrightarrow> rel l (l\<lparr>tg := hw_elapse n (tg l)\<rparr>)"
    and isr: "own Timer_Alarm \<Longrightarrow> el_inv l \<Longrightarrow> el_isr clk l = Some l' \<Longrightarrow> rel l l'"
    and evt: "own Evt_Step \<Longrightarrow> el_inv l \<Longrightarrow> rel l (el_evt l)"
begin

lemma event_rel:
  assumes "hub_inv h" "p e" "hub_event_step clk e h = Some h'"
  shows "rel (light_state h) (light_state h')"
proof (cases e)
  case Ack
  then show ?thesis using assms(3)
    by (auto simp: hub_event_step_def SendConfirmationCallback_def Let_def split: list.splits bind_splits)
next
  case (Receive content)
  have el: "el_inv (light_state h)" using assms(1) by (simp add: hub_inv_def)
  have "map_option light_state (ReceiveMessageCallback clk content h) = Some (light_state h')"
    using assms(3) Receive by (simp add: hub_event_step_def)
  then show ?thesis
    using test_on [OF _ el] test_off [OF _ el] assms(2) Receive by (auto simp: receive_command split: if_splits)
qed

lemma dowork_rel:
  "hub_inv h \<Longrightarrow> list_all p es \<Longrightarrow> IoTHubClient_LL_DoWork clk es h = Some h' \<Longrightarrow> rel (light_state h) (light_state h')"
proof (induction es arbitrary: h)
  case (Cons e es)
  obtain h1 where 1: "hub_event_step clk e h = Some h1" "hub_inv h1" using event_ok [OF Cons.prems(1)] by blast
  then have "IoTHubClient_LL_DoWork clk es h1 = Some h'" using Cons.prems(3) by simp
  then have "rel (light_state h1) (light_state h')" using Cons.IH [OF 1(2)] Cons.prems(2) by simp
  with event_rel [OF Cons.prems(1) _ 1(1)] Cons.prems(2) show ?case by (auto intro: trans)
qed simp

lemma final_rel:
  "hub_inv h \<Longrightarrow> \<forall>i < n. list_all p (evs i) \<Longrightarrow> final_dowork clk evs n h = Some h' \<Longrightarrow>
   rel (light_state h) (light_state h')"
proof (induction n arbitrary: h')
  case (Suc n)
  obtain h1 where 1: "final_dowork clk evs n h = Some h1" "hub_inv h1" using final_dowork_ok [OF Suc.prems(1)] by blast
  then have "IoTHubClient_LL_DoWork clk (evs n) h1 = Some h'" using Suc.prems(3) by simp
  moreover have "list_all p (evs n)" using Suc.prems(2) by simp
  ultimately have "rel (light_state h1) (light_state h')" by (rule dowork_rel [OF 1(2), rotated])
  with Suc.IH [OF Suc.prems(1) _ 1(1)] Suc.prems(2) show ?case by (auto intro: trans)
qed simp

lemma after_session_rel:
  assumes "hub_inv h" "conn_ok p c" "hub_after_session clk c h = Some h'"
  shows "rel (light_state h) (light_state h')"
proof (cases "int MESSAGE_COUNT \<le> callbackCounter h")
  case True
  obtain h1 where 1: "final_dowork clk (final_events c) DOWORK_LOOP_NUM h = Some h1" "hub_inv h1"
    using final_dowork_ok [OF assms(1)] by blast
  then have "IoTHubClient_LL_DoWork clk (destroy_events c) h1 = Some h'"
    using assms(3) True by (simp add: hub_after_session_def)
  from dowork_rel [OF 1(2) _ this] final_rel [OF assms(1) _ 1(1)] assms(2)
  show ?thesis by (auto simp: conn_ok_def intro: trans)
next
  case False
  then have "IoTHubClient_LL_DoWork clk (destroy_events c) h = Some h'" using assms(3) by (simp add: hub_after_session_def)
  from dowork_rel [OF assms(1) _ this] assms(2) show ?thesis by (simp add: conn_ok_def)
qed

lemma round_rel:
  assumes "hub_inv h" "list_all p (in_events inp)" "hub_round clk inp h = Some (go, h')" "others_quiet inp"
  shows "rel (light_state h) (light_state h')"
proof -
  obtain h1 where 1: "(if hub_send_enabled h then hub_send inp h else Some h) = Some h1" "hub_inv h1"
    "light_state h1 = light_state h"
    using hub_send_ok [OF assms(1), of inp] assms(1) by (cases "hub_send_enabled h") auto
  then have "IoTHubClient_LL_DoWork clk (in_events inp) h1 = Some h'"
    using assms(3) by (auto simp: hub_round_quiet [OF assms(4)] split: bind_splits if_splits)
  from dowork_rel [OF 1(2) assms(2) this] show ?thesis using 1(3) by simp
qed

lemma connect_rel:
  assumes "sys_inv s" "conn_ok p c" "azure_connect clk c s = Some s'"
  shows "rel (sys_light s) (sys_light s')"
proof (cases "azure s = Az_Connect")
  case True
  have inv: "hub_inv (sys_hub s)" using sys_inv_hub_inv [OF assms(1)] True by simp
  have "rel (sys_light s) (light_state h)" if "IoTHubClient_LL_DoWork clk (destroy_events c) (sys_hub s) = Some h" for h
    using dowork_rel [OF inv _ that] assms(2) by (simp add: conn_ok_def)
  then show ?thesis using assms(3) by (auto simp: azure_connect_def azure_setup_def split: if_splits)
qed (use assms(3) in \<open>simp add: azure_connect_def azure_setup_def\<close>)

lemma close_rel:
  assumes "sys_inv s" "conn_ok p c" "azure_close clk c s = Some s'"
  shows "rel (sys_light s) (sys_light s')"
proof (cases "azure s = Az_Closing")
  case True
  have inv: "hub_inv (sys_hub s)" using sys_inv_hub_inv [OF assms(1)] True by simp
  show ?thesis using assms(3) True after_session_rel [OF inv assms(2)] by (auto simp: azure_close_def)
qed (use assms(3) in \<open>simp add: azure_close_def\<close>)

lemma azure_round_rel:
  assumes "azure s = Az_Loop \<Longrightarrow> hub_inv (sys_hub s)" "list_all p (in_events inp)" "azure_round clk inp s = Some s'"
    and "others_quiet inp"
  shows "rel (sys_light s) (sys_light s')"
proof (cases "azure s = Az_Loop")
  case True
  then show ?thesis using assms(3,4) round_rel [OF assms(1) assms(2)] by (auto simp: azure_round_def)
qed (use assms(3) in \<open>simp add: azure_round_def\<close>)

text \<open>Every step of the system respects the preorder.\<close>

lemma sys_do_rel:
  assumes "sys_inv s" "light_ok p own a" "sys_do cal cal1 clk a s = Some s'"
  shows "rel (sys_light s) (sys_light s')"
proof (cases a)
  case (Azure_Round inp adcs)
  have inv: "azure t = Az_Loop \<Longrightarrow> hub_inv (sys_hub t)" if "gw t = gw s" "azure t = azure s" for t
    using sys_inv_hub_inv [OF assms(1)] that by simp
  obtain outs t where "azure_round clk (during outs inp) t = Some s'" "gw t = gw s" "azure t = azure s"
    using do_azure_round assms(3) Azure_Round by blast
  then show ?thesis using azure_round_rel [of t "during outs inp" s'] inv [of t] assms(2) Azure_Round by simp
next
  case (Led_Check ble)
  obtain levels n l where 1: "led_flash_lights (led_cnt s) ble (wifi_check_connection (gw s)) (iothub_check_connection (sys_hub s))
      (sys_light s) = (levels, n, l)"
    "led_check ble s = (if led_due s then s else set_light l (s\<lparr>led_cnt := n, led_due := end_of_test (tg (sys_light s))\<rparr>))"
    by (rule led_check_light)
  have "s' = led_check ble s" using assms(3) Led_Check by simp
  then show ?thesis using lights [OF sys_inv_light_ok [OF assms(1)] 1(1)] by (cases "led_due s") (simp_all add: 1(2))
next
  case Led_Act
  then show ?thesis using led_off [OF _ sys_inv_light_ok [OF assms(1)]] assms(2,3) by (auto simp: led_act_def split: if_splits)
next
  case Timer_Alarm
  then show ?thesis using isr [OF _ sys_inv_light_ok [OF assms(1)]] assms(2,3) by (auto simp: timer_alarm_def)
next
  case Evt_Step
  then show ?thesis using evt [OF _ sys_inv_light_ok [OF assms(1)]] assms(2,3) by auto
next
  case (Timer_Ticks n)
  then show ?thesis using ticks [OF _ sys_inv_light_ok [OF assms(1)]] assms(2,3) by auto
next
  case (Wifi_Action ok b)
  then show ?thesis using assms(3) by (auto simp: set_wifi_view_def split: sum.splits)
qed (use assms connect_rel close_rel in \<open>auto split: bind_splits prod.splits\<close>)

lemma sys_step_rel:
  assumes "sys_inv s" "light_ok p own a"
  shows "\<exists>s'. sys_step cal cal1 clk a s = Some s' \<and> sys_inv s' \<and> rel (sys_light s) (sys_light s')"
proof (cases "restarted s \<or> (\<exists>t \<in> set_option (runs_in a). \<not> has_task t s)")
  case True
  then show ?thesis using assms(1) by (simp add: sys_step_def)
next
  case False
  obtain s' where s': "sys_do cal cal1 clk a s = Some s'" "sys_inv s'" using sys_do_inv [OF assms(1)] by blast
  then show ?thesis using False sys_do_rel [OF assms s'(1)] by (simp add: sys_step_def)
qed

text \<open>So a run is one of the system that keeps its invariant and stays in order with its first state.\<close>

sublocale runs: total_system "light_ok p own" "\<lambda>s. sys_inv s \<and> rel l0 (sys_light s)" "sys_step cal cal1 clk"
  for l0 cal cal1
proof
  fix s a
  assume s: "sys_inv s \<and> rel l0 (sys_light s)" and a: "light_ok p own a"
  obtain s' where "sys_step cal cal1 clk a s = Some s'" "sys_inv s'" "rel (sys_light s) (sys_light s')"
    using sys_step_rel s a by blast
  then show "\<exists>s'. sys_step cal cal1 clk a s = Some s' \<and> sys_inv s' \<and> rel l0 (sys_light s')" using s trans by blast
qed

lemma sys_run_rel:
  "sys_inv s \<Longrightarrow> list_all (light_ok p own) as \<Longrightarrow>
   \<exists>s'. sys_run cal cal1 clk as s = Some s' \<and> sys_inv s' \<and> rel (sys_light s) (sys_light s')"
  by (rule runs.run_ok) simp_all

end

end
