(* ===== verification/System_Light.thy ===== *)
theory System_Light
  imports Light_Order
begin

text \<open>
  The end of a light test in the running program. Its test ends although the other tasks, the network and
  the cloud go on in any order: what does not deliver the command \<^verbatim>\<open>TEST ON\<close> can only make the light
  darker, the event task sets the flag in at most three of its steps after the timer's interrupt, and a
  round of the LED task after that switches the light off.
\<close>

section \<open>Darker states of the light\<close>

text \<open>\<open>darker l l'\<close>: a test that has ended in \<open>l\<close> has ended in \<open>l'\<close>, and a light that is off stays off.\<close>

definition darker :: "el_state \<Rightarrow> el_state \<Rightarrow> bool" where
  "darker l l' \<longleftrightarrow> (el_ended l \<longrightarrow> el_ended l') \<and> (el_lit l' \<longrightarrow> el_lit l)"

definition quiet_event :: "hub_event \<Rightarrow> bool" where
  "quiet_event e \<longleftrightarrow> e \<noteq> Receive (Some ''TEST ON'')"

text \<open>The actions that do not deliver \<^verbatim>\<open>TEST ON\<close>; the alarm is one of them.\<close>

abbreviation quiet :: "sys_action \<Rightarrow> bool" where
  "quiet \<equiv> light_ok quiet_event (\<lambda>_. True)"

lemma button_off_darker:
  "el_inv l \<Longrightarrow> app_emergency_light_test_button clk False l = Some l' \<Longrightarrow> darker l l'"
  using button_off_ok [of l clk] by (auto simp: darker_def)

lemma lights_darker: "led_flash_lights k b1 b2 b3 l = (levels, k', l') \<Longrightarrow> darker l l'"
  using lights_ok by (simp add: darker_def)

lemma isr_darker: "el_inv l \<Longrightarrow> el_isr clk l = Some l' \<Longrightarrow> darker l l'"
  using isr_ok [of l clk] by (auto simp: darker_def)

lemma evt_darker: "el_inv l \<Longrightarrow> darker l (el_evt l)"
  using evt_ok by (auto simp: darker_def)

interpretation dark: light_order clk quiet_event "\<lambda>_. True" darker for clk
  by unfold_locales (use button_off_darker isr_darker evt_darker lights_darker in
    \<open>auto simp: darker_def quiet_event_def el_ended_def el_lit_def hw_elapse_def\<close>)

section \<open>The event task\<close>

text \<open>What is not a step of the event task leaves it where it stands, with the events queued for it; only the
  interrupt adds one.\<close>

definition events_kept :: "el_state \<Rightarrow> el_state \<Rightarrow> bool" where
  "events_kept l l' \<longleftrightarrow> evt_task (tg l') = evt_task (tg l) \<and> (timer_queue (tg l) \<noteq> [] \<longrightarrow> timer_queue (tg l') \<noteq> [])"

definition same_events :: "el_state \<Rightarrow> el_state \<Rightarrow> bool" where
  "same_events l l' \<longleftrightarrow> evt_task (tg l') = evt_task (tg l) \<and> timer_queue (tg l') = timer_queue (tg l)"

lemma same_kept: "same_events l l' \<Longrightarrow> events_kept l l'"
  by (simp add: same_events_def events_kept_def)

lemma button_events:
  assumes "el_inv l" "app_emergency_light_test_button clk on l = Some l'"
  shows "same_events l l'"
proof (cases on)
  case True
  then show ?thesis
    using trigger_effect [of "tg l" clk "dbl_of_nat TIMER_EL_TEST_TIMEOUT_SEC"] assms
    by (auto simp: el_defs el_inv_def same_events_def)
next
  case False
  then show ?thesis using button_off_ok [OF assms(1), of clk] assms(2) by (auto simp: same_events_def)
qed

lemma isr_events: "el_inv l \<Longrightarrow> el_isr clk l = Some l' \<Longrightarrow> events_kept l l'"
  using isr_ok [of l clk] by (cases "el_armed l") (auto simp: events_kept_def el_isr_def)

interpretation other: light_order clk "\<lambda>_. True" "\<lambda>a. a \<noteq> Evt_Step" events_kept for clk
  by unfold_locales (use button_events isr_events lights_ok(1) same_kept in
    \<open>auto simp: events_kept_def same_events_def hw_elapse_def\<close>)

interpretation eventless: light_order clk "\<lambda>_. True" "\<lambda>a. a \<noteq> Evt_Step \<and> a \<noteq> Timer_Alarm" same_events for clk
  by unfold_locales (use button_events lights_ok(1) in \<open>auto simp: same_events_def hw_elapse_def\<close>)

text \<open>How many of its steps the event task needs to set the flag.\<close>

fun evt_rank :: "evt_pc \<Rightarrow> nat" where
  "evt_rank Ev_Receive = 3"
| "evt_rank (Ev_Time evt) = 2"
| "evt_rank (Ev_Flag evt) = 1"

definition flag_due :: "nat \<Rightarrow> el_state \<Rightarrow> bool" where
  "flag_due n l \<longleftrightarrow> el_ended l \<or> (evt_pending (tg l) \<noteq> [] \<and> evt_rank (evt_task (tg l)) \<le> n)"

lemma evt_flag_due:
  assumes "el_inv l" "flag_due (Suc n) l"
  shows "flag_due n (el_evt l)"
proof (cases "el_ended l")
  case True
  then show ?thesis using evt_ok(3) [OF assms(1)] by (simp add: flag_due_def)
next
  case False
  have "\<forall>e \<in> set (evt_pending (tg l)). timer_idx e = 0" using assms(1) by (simp add: el_inv_def)
  then show ?thesis
    using assms(2) False
    by (auto simp: flag_due_def el_evt_def evt_step_def evt_time_def evt_flag_def evt_pending_def el_ended_def
        split: evt_pc.splits list.splits)
qed

lemma flag_due_more: "flag_due n l \<Longrightarrow> n \<le> m \<Longrightarrow> flag_due m l"
  by (auto simp: flag_due_def)

lemma flag_due_none: "flag_due 0 l \<Longrightarrow> el_ended l"
  by (cases "evt_task (tg l)") (auto simp: flag_due_def)

lemma flag_due_other: "events_kept l l' \<Longrightarrow> darker l l' \<Longrightarrow> flag_due n l \<Longrightarrow> flag_due n l'"
  by (auto simp: flag_due_def events_kept_def darker_def evt_pending_def split: evt_pc.splits)

lemma timer_alarm_pending:
  assumes "sys_inv s" "timer_alarm clk s = Some s'" "alarm_armed s"
  shows "evt_pending (tg (sys_light s')) \<noteq> [] \<and> flag_due 3 (sys_light s')"
proof -
  have "timer_queue (tg (sys_light s')) \<noteq> []"
    using isr_ok [OF sys_inv_light_ok [OF assms(1)], of clk] assms(2,3) by (auto simp: timer_alarm_def alarm_armed_def)
  then show ?thesis by (cases "evt_task (tg (sys_light s'))") (simp_all add: flag_due_def evt_pending_def)
qed

section \<open>The end of a test\<close>

text \<open>The promises that quiet steps keep: at most \<open>n\<close> steps of the event task end the light's test; it has ended;
  the light is off, or the LED task is about to switch it off; it is off.\<close>

definition test_due :: "nat \<Rightarrow> system \<Rightarrow> bool" where
  "test_due n s \<longleftrightarrow> sys_inv s \<and> has_task Led_Ctrl_Task s \<and> has_task Timer_Evt_Task s \<and>
     (restarted s \<or> flag_due n (sys_light s))"

definition test_over :: "system \<Rightarrow> bool" where
  "test_over s \<longleftrightarrow> sys_inv s \<and> has_task Led_Ctrl_Task s \<and> (restarted s \<or> el_ended (sys_light s))"

definition light_doomed :: "system \<Rightarrow> bool" where
  "light_doomed s \<longleftrightarrow> test_over s \<and> (restarted s \<or> led_due s \<or> \<not> el_lit (sys_light s))"

definition light_off :: "system \<Rightarrow> bool" where
  "light_off s \<longleftrightarrow> test_over s \<and> (restarted s \<or> \<not> el_lit (sys_light s))"

text \<open>Only the LED task's own steps change whether it is about to act.\<close>

fun led_action :: "sys_action \<Rightarrow> bool" where
  "led_action (Led_Check ble) = True"
| "led_action Led_Act = True"
| "led_action _ = False"

lemma other_due:
  assumes "\<not> led_action a" "sys_do cal cal1 clk a s = Some s'"
  shows "led_due s' = led_due s"
  using assms
  by (cases a) (auto simp: azure_begin_def azure_connect_def azure_setup_def azure_round_def azure_close_def azure_next_def
      timer_alarm_def set_hub_def note_reported_def set_wifi_view_def wake_azure_def simp del: sc_exec.simps
      split: bind_splits prod.splits if_splits sum.splits)

lemma other_run_due:
  "list_all (\<lambda>a. \<not> led_action a) as \<Longrightarrow> sys_run cal cal1 clk as s = Some s' \<Longrightarrow> led_due s' = led_due s"
proof (induction as arbitrary: s)
  case (Cons a as)
  then obtain s1 where 1: "sys_step cal cal1 clk a s = Some s1" "sys_run cal cal1 clk as s1 = Some s'"
    by (auto split: bind_splits)
  then have "led_due s1 = led_due s" using Cons.prems(1) other_due by (auto simp: sys_step_def split: if_splits)
  then show ?case using Cons.IH [OF _ 1(2)] Cons.prems(1) by simp
qed simp

lemma led_check_due: "led_due (led_check ble s) = (led_due s \<or> el_ended (sys_light s))"
proof -
  obtain levels n l where "led_check ble s = (if led_due s then s else
      set_light l (s\<lparr>led_cnt := n, led_due := end_of_test (tg (sys_light s))\<rparr>))"
    by (rule led_check_light)
  then show ?thesis by (cases "led_due s") (simp_all add: el_ended_def set_hub_def)
qed

lemma led_act_off:
  assumes "sys_inv s" "led_act clk s = Some s'"
  shows "\<not> led_due s' \<and> (if led_due s then \<not> el_lit (sys_light s') \<and> tg (sys_light s') = tg (sys_light s) else s' = s)"
  using assms button_off_ok [OF sys_inv_light_ok [OF assms(1)], of clk] by (auto simp: led_act_def set_hub_def split: if_splits)

lemma light_ok_own: "own a \<Longrightarrow> light_ok (\<lambda>_. True) own a"
  by (cases a) (simp_all add: conn_ok_def list_all_iff)

lemma quiet_step_due:
  assumes "test_due n s" "quiet a"
  shows "\<exists>s'. sys_step cal cal1 clk a s = Some s' \<and> test_due n s'"
proof (cases "restarted s \<or> (\<exists>t \<in> set_option (runs_in a). \<not> has_task t s)")
  case True
  then show ?thesis using assms(1) by (simp add: sys_step_def)
next
  case False
  have inv: "sys_inv s" and due: "flag_due n (sys_light s)" using assms(1) False by (simp_all add: test_due_def)
  obtain s' where s': "sys_do cal cal1 clk a s = Some s'" "sys_inv s'" using sys_do_inv [OF inv] by blast
  have "flag_due n (sys_light s')"
  proof (cases "a = Evt_Step")
    case True
    then have l: "sys_light s' = el_evt (sys_light s)" using s'(1) by auto
    show ?thesis
    proof (cases n)
      case 0
      then show ?thesis using due evt_ok(3) [OF sys_inv_light_ok [OF inv]] flag_due_none l by (auto simp: flag_due_def)
    next
      case (Suc m)
      then show ?thesis using evt_flag_due [OF sys_inv_light_ok [OF inv]] due flag_due_more [of m _ n] l by simp
    qed
  next
    case False
    then show ?thesis
      using other.sys_do_rel [OF inv light_ok_own s'(1)] dark.sys_do_rel [OF inv assms(2) s'(1)] due flag_due_other by blast
  qed
  then show ?thesis using s' False assms(1) sys_do_tasks [OF s'(1)] by (simp add: sys_step_def test_due_def has_task_def)
qed

lemma evt_step_due:
  assumes "test_due (Suc n) s"
  shows "\<exists>s'. sys_step cal cal1 clk Evt_Step s = Some s' \<and> test_due n s'"
proof (cases "restarted s")
  case False
  have inv: "sys_inv s" and task: "has_task Timer_Evt_Task s" using assms by (simp_all add: test_due_def)
  obtain s' where s': "sys_do cal cal1 clk Evt_Step s = Some s'" "sys_inv s'" using sys_do_inv [OF inv] by blast
  have "flag_due n (sys_light s')"
    using evt_flag_due [OF sys_inv_light_ok [OF inv]] assms False s'(1) by (auto simp: test_due_def)
  then show ?thesis using s' False task assms sys_do_tasks [OF s'(1)] by (simp add: sys_step_def test_due_def has_task_def)
qed (use assms in \<open>simp add: sys_step_def test_due_def\<close>)

lemma test_due_over: "test_due 0 s \<Longrightarrow> test_over s"
  using flag_due_none by (auto simp: test_due_def test_over_def)

text \<open>A quiet step, when it happens.\<close>

lemma quiet_do_over:
  assumes "test_over s" "quiet a" "\<not> restarted s" "sys_do cal cal1 clk a s = Some s'" "sys_inv s'"
  shows "test_over s' \<and> (light_doomed s \<longrightarrow> light_doomed s') \<and> (light_off s \<longrightarrow> light_off s')"
proof -
  have inv: "sys_inv s" using assms(1) by (simp add: test_over_def)
  have dark: "darker (sys_light s) (sys_light s')" by (rule dark.sys_do_rel [OF inv assms(2,4)])
  then have over: "test_over s'"
    using assms sys_do_tasks [OF assms(4)] by (auto simp: test_over_def darker_def has_task_def)
  have off: "light_off s \<longrightarrow> light_off s'" using dark over assms(3) by (auto simp: light_off_def darker_def)
  have "light_doomed s'" if "light_doomed s" "\<not> light_off s"
  proof -
    have due: "led_due s" using that over assms(1,3) by (auto simp: light_doomed_def light_off_def)
    show ?thesis
    proof (cases "led_action a")
      case False
      then show ?thesis using other_due [OF False assms(4)] due over by (simp add: light_doomed_def)
    next
      case True
      then show ?thesis
        using assms(4) due over led_act_off [OF inv, of clk s']
        by (cases a) (auto simp: light_doomed_def led_check_def)
    qed
  qed
  with over off show ?thesis by (auto simp: light_doomed_def light_off_def)
qed

lemma quiet_step_over:
  assumes "test_over s" "quiet a"
  shows "\<exists>s'. sys_step cal cal1 clk a s = Some s' \<and> test_over s' \<and> (light_doomed s \<longrightarrow> light_doomed s') \<and>
    (light_off s \<longrightarrow> light_off s')"
proof (cases "restarted s \<or> (\<exists>t \<in> set_option (runs_in a). \<not> has_task t s)")
  case True
  then show ?thesis using assms(1) by (simp add: sys_step_def)
next
  case False
  obtain s' where "sys_do cal cal1 clk a s = Some s'" "sys_inv s'"
    using sys_do_inv [of s cal cal1 clk a] assms(1) by (auto simp: test_over_def)
  then show ?thesis using False quiet_do_over [OF assms] by (simp add: sys_step_def)
qed

lemma led_step_happens:
  assumes "test_over s" "\<not> restarted s" "led_action a"
  shows "sys_step cal cal1 clk a s = sys_do cal cal1 clk a s"
  using assms by (cases a) (simp_all add: sys_step_def test_over_def)

text \<open>The check of the LED task dooms the light, and its next step switches it off.\<close>

lemma led_check_dooms:
  assumes "test_over s"
  shows "\<exists>s'. sys_step cal cal1 clk (Led_Check ble) s = Some s' \<and> light_doomed s'"
proof -
  obtain s' where s': "sys_step cal cal1 clk (Led_Check ble) s = Some s'" "test_over s'"
    using quiet_step_over [OF assms, of "Led_Check ble"] light_ok.simps by metis
  have "restarted s' \<or> led_due s'"
  proof (cases "restarted s")
    case True
    then show ?thesis using s'(1) by (simp add: sys_step_def)
  next
    case False
    then have "s' = led_check ble s" using s'(1) led_step_happens [OF assms] by simp
    then show ?thesis using led_check_due assms False by (simp add: test_over_def)
  qed
  then show ?thesis using s' by (auto simp: light_doomed_def)
qed

lemma led_act_switches_off:
  assumes "light_doomed s"
  shows "\<exists>s'. sys_step cal cal1 clk Led_Act s = Some s' \<and> light_off s'"
proof -
  have over: "test_over s" using assms by (simp add: light_doomed_def)
  then obtain s' where s': "sys_step cal cal1 clk Led_Act s = Some s'" "test_over s'"
    using quiet_step_over [OF over, of Led_Act] light_ok.simps by metis
  have "restarted s' \<or> \<not> el_lit (sys_light s')"
  proof (cases "restarted s")
    case True
    then show ?thesis using s'(1) by (simp add: sys_step_def)
  next
    case False
    then have "led_act clk s = Some s'" using s'(1) led_step_happens [OF over] by simp
    then show ?thesis using led_act_off [of s clk s'] over assms False by (auto simp: test_over_def light_doomed_def split: if_splits)
  qed
  then show ?thesis using s' by (auto simp: light_off_def)
qed

text \<open>The stages of the end of a test, and the steps that lead through them.\<close>

definition light_stage :: "nat \<Rightarrow> system \<Rightarrow> bool" where
  "light_stage i = (if i < 3 then test_due (3 - i) else if i = 3 then test_over else if i = 4 then light_doomed else light_off)"

abbreviation ending_steps :: "bool \<Rightarrow> sys_action list" where
  "ending_steps ble \<equiv> [Evt_Step, Evt_Step, Evt_Step, Led_Check ble, Led_Act]"

interpretation ends: staged_system quiet "sys_step cal cal1 clk" light_stage "ending_steps ble" for cal cal1 clk ble
proof
  fix i s a
  assume st: "light_stage i s" and a: "quiet a"
  show "\<exists>s'. sys_step cal cal1 clk a s = Some s' \<and> light_stage i s'"
  proof (cases "i < 3")
    case True
    then show ?thesis using quiet_step_due [OF _ a] st by (simp add: light_stage_def)
  next
    case False
    then have "test_over s" using st by (auto simp: light_stage_def light_doomed_def light_off_def split: if_splits)
    from quiet_step_over [OF this a, of cal cal1 clk] show ?thesis using st False by (auto simp: light_stage_def)
  qed
next
  fix i s
  assume i: "i < length (ending_steps ble)" and st: "light_stage i s"
  consider "i = 0" | "i = 1" | "i = 2" | "i = 3" | "i = 4" using i by fastforce
  then show "\<exists>s'. sys_step cal cal1 clk (ending_steps ble ! i) s = Some s' \<and> light_stage (Suc i) s'"
  proof cases
    case 1
    then show ?thesis using st evt_step_due [of 2 s cal cal1 clk] by (simp add: light_stage_def numeral_3_eq_3 numeral_2_eq_2)
  next
    case 2
    then show ?thesis using st evt_step_due [of 1 s cal cal1 clk] by (simp add: light_stage_def numeral_3_eq_3 numeral_2_eq_2)
  next
    case 3
    then show ?thesis using st evt_step_due [of 0 s cal cal1 clk] test_due_over by (auto simp: light_stage_def numeral_3_eq_3 numeral_2_eq_2)
  next
    case 4
    then show ?thesis using st led_check_dooms [of s cal cal1 clk ble] by (simp add: light_stage_def)
  next
    case 5
    then show ?thesis using st led_act_switches_off [of s cal cal1 clk] by (simp add: light_stage_def)
  qed
qed

text \<open>So a run in which they occur in this order, with quiet steps around them, switches the light off.\<close>

lemma quiet_run_ends:
  assumes "test_due 3 s" "list_all quiet bs" "subseq (ending_steps ble) bs"
  shows "\<exists>s'. sys_run cal cal1 clk bs s = Some s' \<and> sys_inv s' \<and>
    (restarted s' \<or> (gpio_out (sys_light s') GPIO_OUTPUT_IO_TEST_BUTTON = 0 \<and>
       app_emergency_light_read_status (sys_light s') = 0))"
proof -
  obtain s' where s': "sys_run cal cal1 clk bs s = Some s'" "light_off s'"
    using ends.passes [of 0 ble bs s cal cal1 clk] assms by (auto simp: light_stage_def)
  then have "sys_inv s'" by (simp add: light_off_def test_over_def)
  then show ?thesis
    using s' sys_inv_light_ok [of s']
    by (auto simp: light_off_def el_lit_def el_inv_def app_emergency_light_read_status_def)
qed

section \<open>Properties\<close>

text \<open>C5: In the running program a test of the light ends. Whatever happened before, once the timer's alarm has
  come, in any order of steps after its interrupt that does not deliver \<^verbatim>\<open>TEST ON\<close> and in which the event task
  takes three steps and then the LED task a check and an act, whatever else happens in between, the light is off,
  its status is 0 and the pin is low (unless a failed Wi-Fi call has restarted the program).\<close>

theorem test_ends_in_program:
  assumes "app_main b reset_state = Inr g" "sys_run cal cal1 clk as (sys_start junk g) = Some s"
    and "has_task Timer_Evt_Task s" "has_task Led_Ctrl_Task s" "alarm_armed s"
    and "list_all quiet bs" "subseq [Evt_Step, Evt_Step, Evt_Step, Led_Check ble, Led_Act] bs"
  shows "\<exists>s'. sys_run cal cal1 clk (Timer_Alarm # bs) s = Some s' \<and>
    (restarted s' \<or> (gpio_out (sys_light s') GPIO_OUTPUT_IO_TEST_BUTTON = 0 \<and>
       app_emergency_light_read_status (sys_light s') = 0))"
proof -
  have inv: "sys_inv s" by (rule sys_run_from_start [OF assms(1,2)])
  obtain s1 where 1: "sys_step cal cal1 clk Timer_Alarm s = Some s1" "sys_inv s1" using sys_step_inv [OF inv] by blast
  have "test_due 3 s1"
  proof (cases "restarted s")
    case True
    then show ?thesis using 1 assms(3,4) by (simp add: sys_step_def test_due_def)
  next
    case False
    then have do: "sys_do cal cal1 clk Timer_Alarm s = Some s1" using 1(1) by (simp add: sys_step_def)
    have "flag_due 3 (sys_light s1)"
      using timer_alarm_pending [OF inv _ assms(5)] do by simp
    then show ?thesis using 1(2) assms(3,4) sys_do_tasks [OF do] by (simp add: test_due_def has_task_def)
  qed
  then obtain s' where "sys_run cal cal1 clk bs s1 = Some s'"
    "restarted s' \<or> (gpio_out (sys_light s') GPIO_OUTPUT_IO_TEST_BUTTON = 0 \<and>
      app_emergency_light_read_status (sys_light s') = 0)"
    using quiet_run_ends [OF _ assms(6,7)] by blast
  then show ?thesis using 1(1) by simp
qed

theorem test_ends_in_program_witness:
  "\<exists>g s'. app_main boot_example reset_state = Inr g \<and>
     sys_run (\<lambda>x. x) (\<lambda>x. x) 80000000 [Timer_Alarm, Evt_Step, Adc_Round adc_example, Evt_Step, Led_Check False, Evt_Step,
       Led_Check True, Led_Act] (sys_start zero_sample g) = Some s' \<and>
     (restarted s' \<or> (gpio_out (sys_light s') GPIO_OUTPUT_IO_TEST_BUTTON = 0 \<and>
        app_emergency_light_read_status (sys_light s') = 0))"
proof -
  obtain g where g: "app_main boot_example reset_state = Inr g"
    "tasks g = [Led_Ctrl_Task, Azure_Task, Adc_Task, Rtc_Time_Task, Timer_Evt_Task]"
    using boot_example_ok by blast
  have s: "sys_run (\<lambda>x. x) (\<lambda>x. x) 80000000 [] (sys_start zero_sample g) = Some (sys_start zero_sample g)" by simp
  have "has_task Timer_Evt_Task (sys_start zero_sample g)" "has_task Led_Ctrl_Task (sys_start zero_sample g)"
    using g(2) by (simp_all add: has_task_def sys_start_def)
  from test_ends_in_program [OF g(1) s this sys_start_armed(1) [OF g(1)], of "[Evt_Step, Adc_Round adc_example, Evt_Step,
      Led_Check False, Evt_Step, Led_Check True, Led_Act]" True]
  show ?thesis using g(1) by (auto simp del: run_steps.simps)
qed

end
