(* ===== verification/System_Command.thy ===== *)
theory System_Command
  imports System_Light
begin

text \<open>
  The start of a light test in the running program. Every state the program reaches has the alarm of
  the timer enabled, so the command \<^verbatim>\<open>TEST ON\<close>, when the telemetry loop receives it, arms the alarm; and
  until the alarm or \<^verbatim>\<open>TEST OFF\<close> no step of any task ends the test, unless something of the test before is
  left: when the LED task was just about to end that test, or when the event task has not yet handled its
  alarm, the command is lost. \<open>test_ends_in_program\<close> continues from there.
\<close>

section \<open>The alarm stays enabled\<close>

definition alarm_enabled :: "el_state \<Rightarrow> bool" where
  "alarm_enabled l \<longleftrightarrow> alarm_ready (hw_timers (tg l) ! 0)"

lemma button_on_starts:
  assumes "el_inv l" "app_emergency_light_test_button clk True l = Some l'"
  shows "counter_en (hw_timers (tg l') ! 0) \<and> alarm_enabled l' = alarm_enabled l \<and> el_lit l' \<and> \<not> el_ended l'"
  using trigger_effect [of "tg l" clk "dbl_of_nat TIMER_EL_TEST_TIMEOUT_SEC"] button_on_ok [OF assms(1), of clk] assms
  by (auto simp: el_defs el_inv_def alarm_enabled_def)

lemma elapse_timer0:
  assumes "el_inv l"
  shows "alarm_ready (hw_timers (hw_elapse n (tg l)) ! 0) = alarm_ready (hw_timers (tg l) ! 0)"
    and "counter_en (hw_timers (hw_elapse n (tg l)) ! 0) = counter_en (hw_timers (tg l) ! 0)"
  using assms by (simp_all add: el_inv_def tg_inv_def hw_elapse_def alarm_ready_def)

text \<open>The event task changes of a timer only what latching its counter changes.\<close>

lemma evt_field:
  assumes "\<And>t. f (hw_update t) = f t" "el_inv l"
  shows "f (hw_timers (tg (el_evt l)) ! 0) = f (hw_timers (tg l) ! 0)"
  using assms
  by (auto simp: el_evt_def evt_step_def evt_time_def evt_flag_def get_cv_id_def el_inv_def tg_inv_def nth_list_update
      split: evt_pc.splits list.splits)

lemma evt_timer0:
  assumes "el_inv l"
  shows "alarm_ready (hw_timers (tg (el_evt l)) ! 0) = alarm_ready (hw_timers (tg l) ! 0)"
    and "counter_en (hw_timers (tg (el_evt l)) ! 0) = counter_en (hw_timers (tg l) ! 0)"
  by (rule evt_field [OF _ assms]; simp add: hw_update_def alarm_ready_def)+

lemma button_off_enabled:
  "el_inv l \<Longrightarrow> app_emergency_light_test_button clk False l = Some l' \<Longrightarrow> alarm_enabled l' = alarm_enabled l"
  using button_off_ok [of l clk] by (auto simp: alarm_enabled_def)

lemma isr_keeps_enabled: "el_inv l \<Longrightarrow> el_isr clk l = Some l' \<Longrightarrow> alarm_enabled l \<Longrightarrow> alarm_enabled l'"
  using isr_ok [of l clk] by (cases "el_armed l") (auto simp: alarm_enabled_def el_isr_def)

interpretation armed: light_order clk "\<lambda>_. True" "\<lambda>_. True" "\<lambda>l l'. alarm_enabled l \<longrightarrow> alarm_enabled l'" for clk
  by unfold_locales (use button_on_starts button_off_enabled isr_keeps_enabled lights_ok evt_timer0 elapse_timer0 in
    \<open>auto simp: alarm_enabled_def\<close>)

text \<open>Without an interrupt a running timer keeps running, so the alarm stays armed.\<close>

lemma armed_enabled: "el_armed l \<longleftrightarrow> counter_en (hw_timers (tg l) ! 0) \<and> alarm_enabled l"
  by (simp add: el_armed_def alarm_enabled_def Let_def)

lemma button_off_armed: "el_inv l \<Longrightarrow> app_emergency_light_test_button clk False l = Some l' \<Longrightarrow> el_armed l' = el_armed l"
  using button_off_ok [of l clk] by (auto simp: el_armed_def)

interpretation running: light_order clk "\<lambda>_. True" "\<lambda>a. a \<noteq> Timer_Alarm" "\<lambda>l l'. el_armed l \<longrightarrow> el_armed l'" for clk
  by unfold_locales (use button_on_starts button_off_armed lights_ok evt_timer0 elapse_timer0 in
    \<open>auto simp: armed_enabled alarm_enabled_def\<close>)

lemma reached_enabled:
  assumes "app_main b reset_state = Inr g" "sys_run cal cal1 clk as (sys_start junk g) = Some s"
  shows "sys_inv s \<and> alarm_enabled (sys_light s)"
proof -
  have "alarm_enabled (sys_light (sys_start junk g))"
    using sys_start_armed(1) [OF assms(1)] by (simp add: alarm_armed_def armed_enabled)
  then show ?thesis
    using armed.sys_run_rel [OF sys_start_inv [OF assms(1)], of as cal cal1 clk junk] assms(2)
    by (auto simp: list_all_iff)
qed

section \<open>A test runs\<close>

text \<open>The light is on in a test the timer will end, and of no earlier alarm an event is left to be handled.\<close>

definition under_test :: "el_state \<Rightarrow> bool" where
  "under_test l \<longleftrightarrow> el_lit l \<and> \<not> el_ended l \<and> el_armed l \<and> evt_pending (tg l) = []"

definition not_off :: "hub_event \<Rightarrow> bool" where
  "not_off e \<longleftrightarrow> e \<noteq> Receive (Some ''TEST OFF'')"

text \<open>The actions that neither deliver \<^verbatim>\<open>TEST OFF\<close> nor are the alarm.\<close>

abbreviation patient :: "sys_action \<Rightarrow> bool" where
  "patient \<equiv> light_ok not_off (\<lambda>a. a \<noteq> Timer_Alarm)"

lemma pending_same: "same_events l l' \<Longrightarrow> evt_pending (tg l') = evt_pending (tg l)"
  by (simp add: same_events_def evt_pending_def)

lemma button_on_test:
  assumes "el_inv l" "app_emergency_light_test_button clk True l = Some l'"
  shows "el_lit l' \<and> \<not> el_ended l' \<and> (alarm_enabled l \<longrightarrow> el_armed l') \<and> evt_pending (tg l') = evt_pending (tg l)"
  using button_on_starts [OF assms] pending_same [OF button_events [OF assms]] by (simp add: armed_enabled)

interpretation test: light_order clk not_off "\<lambda>a. a \<noteq> Timer_Alarm \<and> a \<noteq> Led_Act" "\<lambda>l l'. under_test l \<longrightarrow> under_test l'"
  for clk
proof
  fix l l' :: el_state
  assume "el_inv l" "app_emergency_light_test_button clk True l = Some l'"
  then show "under_test l \<longrightarrow> under_test l'" using button_on_test by (simp add: under_test_def armed_enabled)
next
  fix l l' :: el_state and k b1 b2 b3 levels k'
  assume "led_flash_lights k b1 b2 b3 l = (levels, k', l')"
  then show "under_test l \<longrightarrow> under_test l'" using lights_ok by (simp add: under_test_def el_armed_def)
next
  fix l :: el_state and n
  assume "el_inv l"
  then show "under_test l \<longrightarrow> under_test (l\<lparr>tg := hw_elapse n (tg l)\<rparr>)"
    using elapse_timer0 by (simp add: under_test_def armed_enabled alarm_enabled_def el_lit_def el_ended_def)
      (simp add: hw_elapse_def)
next
  fix l :: el_state
  show "under_test l \<longrightarrow> under_test (el_evt l)" by (simp add: under_test_def evt_idle)
qed (auto simp: not_off_def)

text \<open>The test runs and the LED task is not about to end the one before.\<close>

definition test_runs :: "system \<Rightarrow> bool" where
  "test_runs s \<longleftrightarrow> sys_inv s \<and> under_test (sys_light s) \<and> \<not> led_due s"

lemma due_under_test:
  assumes "\<not> el_ended (sys_light s)" "\<not> led_due s" "sys_do cal cal1 clk a s = Some s'"
  shows "\<not> led_due s'"
proof (cases "led_action a")
  case True
  then show ?thesis using assms by (cases a) (auto simp: led_check_due led_act_def)
qed (use other_due assms in blast)

lemma due_after_step:
  "\<not> el_ended (sys_light s) \<Longrightarrow> \<not> led_due s \<Longrightarrow> sys_step cal cal1 clk a s = Some s' \<Longrightarrow> \<not> led_due s'"
  using due_under_test by (auto simp: sys_step_def split: if_splits)

lemma patient_do:
  assumes "test_runs s" "patient a" "sys_do cal cal1 clk a s = Some s'" "sys_inv s'"
  shows "test_runs s'"
proof (cases "a = Led_Act")
  case True
  then show ?thesis using assms(1,3) by (simp add: test_runs_def led_act_def)
next
  case False
  then have "light_ok not_off (\<lambda>a. a \<noteq> Timer_Alarm \<and> a \<noteq> Led_Act) a" using assms(2) by (cases a) simp_all
  from test.sys_do_rel [OF _ this assms(3)] due_under_test [OF _ _ assms(3)] assms(1,4)
  show ?thesis by (simp add: test_runs_def under_test_def)
qed

interpretation tested: sys_property cal cal1 clk patient test_runs for cal cal1 clk
proof
  show "sys_inv s" if "test_runs s" for s using that by (simp add: test_runs_def)
qed (rule patient_do)

lemma dowork_append:
  "IoTHubClient_LL_DoWork clk (es @ es') h = Option.bind (IoTHubClient_LL_DoWork clk es h) (IoTHubClient_LL_DoWork clk es')"
  by (induction es arbitrary: h) (auto split: bind_splits)

text \<open>The last event of a round's \<^verbatim>\<open>DoWork\<close> is the command: what comes before it, and the call of the
  button.\<close>

lemma round_last_on:
  assumes "hub_inv h" "in_events inp = es @ [Receive (Some ''TEST ON'')]" "hub_round clk inp h = Some (go, h')"
    and "others_quiet inp"
  obtains h1 h2 where "hub_inv h1" "light_state h1 = light_state h" "IoTHubClient_LL_DoWork clk es h1 = Some h2" "hub_inv h2"
    "app_emergency_light_test_button clk True (light_state h2) = Some (light_state h')"
proof -
  obtain h1 where 1: "(if hub_send_enabled h then hub_send inp h else Some h) = Some h1" "hub_inv h1"
    "light_state h1 = light_state h"
    using hub_send_ok [OF assms(1), of inp] assms(1) by (cases "hub_send_enabled h") auto
  then have dw: "IoTHubClient_LL_DoWork clk (es @ [Receive (Some ''TEST ON'')]) h1 = Some h'"
    using assms(2,3) by (auto simp: hub_round_quiet [OF assms(4)] split: bind_splits if_splits)
  obtain h2 where 2: "IoTHubClient_LL_DoWork clk es h1 = Some h2" "hub_inv h2" using dowork_ok [OF 1(2)] by blast
  then have "ReceiveMessageCallback clk (Some ''TEST ON'') h2 = Some h'"
    using dw by (auto simp: dowork_append hub_event_step_def split: bind_splits)
  then show ?thesis using that [OF 1(2,3) 2] receive_command [of clk "Some ''TEST ON''" h2] by simp
qed

lemma round_test_on:
  assumes "hub_inv h" "alarm_enabled (light_state h)" "in_events inp = es @ [Receive (Some ''TEST ON'')]"
    and "hub_round clk inp h = Some (go, h')" "others_quiet inp"
  shows "el_lit (light_state h') \<and> \<not> el_ended (light_state h') \<and> el_armed (light_state h') \<and>
    evt_pending (tg (light_state h')) = evt_pending (tg (light_state h))"
proof -
  obtain h1 h2 where 1: "hub_inv h1" "light_state h1 = light_state h" "IoTHubClient_LL_DoWork clk es h1 = Some h2" "hub_inv h2"
    "app_emergency_light_test_button clk True (light_state h2) = Some (light_state h')"
    using round_last_on [OF assms(1,3,4,5)] .
  have all: "list_all (\<lambda>_. True) es" by (simp add: list_all_iff)
  have "alarm_enabled (light_state h2)" "same_events (light_state h) (light_state h2)"
    using armed.dowork_rel [OF 1(1) all 1(3)] eventless.dowork_rel [OF 1(1) all 1(3)] assms(2) 1(2) by simp_all
  then show ?thesis using button_on_test [OF _ 1(5)] 1(4) pending_same by (simp add: hub_inv_def)
qed

text \<open>In the system a round of the loop is one of the hub on the light as it was.\<close>

lemma sys_round:
  assumes "sys_inv s" "azure_runs s" "azure s = Az_Loop"
  obtains outs go h s' where "sys_step cal cal1 clk (Azure_Round inp adcs) s = Some s'" "sys_inv s'"
    "hub_round clk (during outs inp) (sys_hub s) = Some (go, h)" "sys_light s' = light_state h" "hub_inv (sys_hub s)"
    "restarted s' = restarted s" "led_due s' = led_due s"
proof -
  obtain s1 where 1: "sys_do cal cal1 clk (Azure_Round inp adcs) s = Some s1" "sys_inv s1"
    using sys_do_inv [OF assms(1)] by blast
  obtain outs t where t: "azure_round clk (during outs inp) t = Some s1" "gw t = gw s" "azure t = azure s"
    "restarted t = restarted s"
    using do_azure_round [OF 1(1)] .
  obtain go h where h: "hub_round clk (during outs inp) (sys_hub s) = Some (go, h)" "sys_light s1 = light_state h"
    "restarted s1 = restarted s"
    using t assms(3) by (auto simp: azure_round_def set_hub_def)
  have "hub_inv (sys_hub s)" using sys_inv_hub_inv [OF assms(1)] assms(3) by simp
  then show ?thesis
    using that h 1 other_due [OF _ 1(1)] sys_step_azure [OF assms(2), of "Azure_Round inp adcs"] by simp
qed

lemma round_starts_test:
  assumes "sys_inv s" "alarm_enabled (sys_light s)" "azure_runs s" "azure s = Az_Loop"
    and "in_events inp = es @ [Receive (Some ''TEST ON'')]"
  shows "\<exists>s'. sys_step cal cal1 clk (Azure_Round inp adcs) s = Some s' \<and> sys_inv s' \<and> el_lit (sys_light s') \<and>
    \<not> el_ended (sys_light s') \<and> el_armed (sys_light s') \<and>
    evt_pending (tg (sys_light s')) = evt_pending (tg (sys_light s)) \<and> led_due s' = led_due s \<and> restarted s' = restarted s"
proof -
  obtain outs go h s' where s': "sys_step cal cal1 clk (Azure_Round inp adcs) s = Some s'" "sys_inv s'"
    "hub_round clk (during outs inp) (sys_hub s) = Some (go, h)" "sys_light s' = light_state h" "hub_inv (sys_hub s)"
    "restarted s' = restarted s" "led_due s' = led_due s"
    using sys_round [OF assms(1,3,4)] .
  then show ?thesis using round_test_on [OF s'(5) assms(2) _ s'(3)] assms(5) by auto
qed

text \<open>For the instances: the program at its telemetry loop, nothing of the light changed since its start.\<close>

definition to_inner_loop :: "sys_action list" where
  "to_inner_loop = [Wifi_Action (\<lambda>_. True) (Sc_Event STA_GOT_IP),
     Azure_Begin (\<lambda>_. \<lparr>messageHandle = None, messageTrackingId = 0\<rparr>), Azure_Connect conn_example]"

lemma inner_loop_reached:
  obtains g s where "app_main boot_example reset_state = Inr g"
    "sys_run (\<lambda>x. x) (\<lambda>x. x) 80000000 to_inner_loop (sys_start zero_sample g) = Some s"
    "azure_runs s" "azure s = Az_Loop" "\<not> led_due s" "sys_light s = sys_light (sys_start zero_sample g)"
    "tasks (gw s) = [Led_Ctrl_Task, Azure_Task, Adc_Task, Rtc_Time_Task, Timer_Evt_Task]"
proof -
  obtain g where g: "app_main boot_example reset_state = Inr g" "s_wifi_event_group (wifi g) = 0"
    "tasks g = [Led_Ctrl_Task, Azure_Task, Adc_Task, Rtc_Time_Task, Timer_Evt_Task]"
    using boot_example_ok by blast
  obtain s where s: "sys_run (\<lambda>x. x) (\<lambda>x. x) 80000000 to_inner_loop (sys_start zero_sample g) = Some s"
    using sys_run_inv [OF sys_start_inv [OF g(1)]] by blast
  have "azure_runs s" "azure s = Az_Loop" "\<not> led_due s" "sys_light s = sys_light (sys_start zero_sample g)"
    "tasks (gw s) = tasks g"
    using s g(2,3) by (auto simp: to_inner_loop_def first_steps conn_example_def iothub_start_def)
  then show ?thesis using that [OF g(1) s] g(3) by simp
qed

definition test_on_example :: hub_input where
  "test_on_example = \<lparr>in_now = 0, in_inserts = [], in_sleep = [], in_pause = [], in_create = Some 1, in_send_ok = True,
     in_events = [] @ [Receive (Some ''TEST ON'')], in_conn_lost = False\<rparr>"

lemma test_on_example_events: "in_events test_on_example = [] @ [Receive (Some ''TEST ON'')]"
  by (simp add: test_on_example_def)

section \<open>Properties\<close>

text \<open>C6: In the running program a test of the light begins and is not cut short, if nothing of the test before is
  left. When the telemetry loop of any state the program reaches receives \<^verbatim>\<open>TEST ON\<close> as its last event, no
  event of an earlier alarm is left for the event task, queued or half handled, and the LED task is not just
  about to end the test before, then in any order of further steps of all tasks, as long as the timer's
  interrupt has not come and \<^verbatim>\<open>TEST OFF\<close> is not delivered, the pin of the light is high, its status is 1,
  and the alarm that will end the test is armed.\<close>

theorem test_on_runs_in_program:
  assumes "app_main b reset_state = Inr g" "sys_run cal cal1 clk as (sys_start junk g) = Some s"
    and "azure_runs s" "azure s = Az_Loop" "\<not> led_due s" "evt_pending (tg (sys_light s)) = []"
    and "in_events inp = es @ [Receive (Some ''TEST ON'')]" "list_all patient bs"
  shows "\<exists>s'. sys_run cal cal1 clk (Azure_Round inp adcs # bs) s = Some s' \<and>
    gpio_out (sys_light s') GPIO_OUTPUT_IO_TEST_BUTTON = 1 \<and> app_emergency_light_read_status (sys_light s') = 1 \<and>
    \<not> end_of_test_enable_check (tg (sys_light s')) \<and> alarm_armed s'"
proof -
  have s: "sys_inv s" "alarm_enabled (sys_light s)" using reached_enabled [OF assms(1,2)] by simp_all
  obtain s1 where 1: "sys_step cal cal1 clk (Azure_Round inp adcs) s = Some s1" "test_runs s1"
    using round_starts_test [OF s assms(3,4,7), of cal cal1 clk adcs] assms(5,6) by (auto simp: test_runs_def under_test_def)
  obtain s' where s': "sys_run cal cal1 clk bs s1 = Some s'" "test_runs s'"
    using tested.run_ok [OF 1(2) assms(8)] by blast
  have "sys_run cal cal1 clk (Azure_Round inp adcs # bs) s = Some s'" using s'(1) 1(1) by simp
  then show ?thesis
    using s'(2) el_lit_status [OF sys_inv_light_ok [of s']]
    by (simp add: test_runs_def under_test_def el_lit_def el_ended_def alarm_armed_def
        app_emergency_light_read_status_def end_of_test_enable_check_def)
qed

theorem test_on_runs_in_program_witness:
  "\<exists>g s s'. app_main boot_example reset_state = Inr g \<and>
     sys_run (\<lambda>x. x) (\<lambda>x. x) 80000000 to_inner_loop (sys_start zero_sample g) = Some s \<and>
     sys_run (\<lambda>x. x) (\<lambda>x. x) 80000000 [Azure_Round test_on_example [adc_example], Led_Check True, Led_Act, Timer_Ticks 1000,
       Evt_Step, Adc_Round adc_example, Led_Check True] s = Some s' \<and>
     gpio_out (sys_light s') GPIO_OUTPUT_IO_TEST_BUTTON = 1 \<and> alarm_armed s'"
proof -
  obtain g s where g: "app_main boot_example reset_state = Inr g"
    and s: "sys_run (\<lambda>x. x) (\<lambda>x. x) 80000000 to_inner_loop (sys_start zero_sample g) = Some s"
    "azure_runs s" "azure s = Az_Loop" "\<not> led_due s" "sys_light s = sys_light (sys_start zero_sample g)"
    by (rule inner_loop_reached)
  have "evt_pending (tg (sys_light s)) = []" using sys_start_armed(2) [OF g] s(5) by simp
  moreover have "list_all patient [Led_Check True, Led_Act, Timer_Ticks 1000, Evt_Step, Adc_Round adc_example, Led_Check True]"
    by simp
  ultimately show ?thesis
    using test_on_runs_in_program [OF g s(1-4) _ test_on_example_events] g s(1) by blast
qed

text \<open>C18: A \<^verbatim>\<open>TEST ON\<close> that comes after the interrupt of the test before, but before the event task has handled
  its event, starts a test that ends at once. In any state the program reaches in which an event is still to be
  handled, the round of the telemetry loop that receives the command switches the light on; but in any order of
  steps after it that delivers no \<^verbatim>\<open>TEST ON\<close> and holds no further interrupt, and in which the event task takes
  three steps and the LED task a check and an act, the light is off and its status is 0 (or a failed Wi-Fi call
  has restarted the program), although the alarm of the new test has not come: it is still armed.\<close>

theorem stale_event_ends_test:
  assumes "app_main b reset_state = Inr g" "sys_run cal cal1 clk as (sys_start junk g) = Some s"
    and "azure_runs s" "azure s = Az_Loop" "has_task Timer_Evt_Task s" "has_task Led_Ctrl_Task s"
    and "evt_pending (tg (sys_light s)) \<noteq> []" "in_events inp = es @ [Receive (Some ''TEST ON'')]"
    and "list_all quiet bs" "Timer_Alarm \<notin> set bs" "subseq [Evt_Step, Evt_Step, Evt_Step, Led_Check ble, Led_Act] bs"
  shows "\<exists>s1 s'. sys_run cal cal1 clk [Azure_Round inp adcs] s = Some s1 \<and>
    gpio_out (sys_light s1) GPIO_OUTPUT_IO_TEST_BUTTON = 1 \<and> \<not> end_of_test_enable_check (tg (sys_light s1)) \<and>
    sys_run cal cal1 clk bs s1 = Some s' \<and> alarm_armed s' \<and>
    (restarted s' \<or> (gpio_out (sys_light s') GPIO_OUTPUT_IO_TEST_BUTTON = 0 \<and>
       app_emergency_light_read_status (sys_light s') = 0))"
proof -
  have s: "sys_inv s" "alarm_enabled (sys_light s)" using reached_enabled [OF assms(1,2)] by simp_all
  obtain s1 where 1: "sys_step cal cal1 clk (Azure_Round inp adcs) s = Some s1" "sys_inv s1" "el_lit (sys_light s1)"
    "\<not> el_ended (sys_light s1)" "el_armed (sys_light s1)" "evt_pending (tg (sys_light s1)) = evt_pending (tg (sys_light s))"
    using round_starts_test [OF s assms(3,4,8), of cal cal1 clk adcs] by blast
  have "tasks (gw s1) = tasks (gw s)"
    using sys_run_tasks [of cal cal1 clk "[Azure_Round inp adcs]" s s1] 1(1) by (simp add: run_steps_single)
  moreover have "flag_due 3 (sys_light s1)"
    using 1(6) assms(7) by (cases "evt_task (tg (sys_light s1))") (simp_all add: flag_due_def)
  ultimately have "test_due 3 s1" using 1(2) assms(5,6) by (simp add: test_due_def has_task_def)
  from quiet_run_ends [OF this assms(9,11)] obtain s' where s': "sys_run cal cal1 clk bs s1 = Some s'"
    "restarted s' \<or> (gpio_out (sys_light s') GPIO_OUTPUT_IO_TEST_BUTTON = 0 \<and>
      app_emergency_light_read_status (sys_light s') = 0)"
    by blast
  have "list_all (light_ok (\<lambda>_. True) (\<lambda>a. a \<noteq> Timer_Alarm)) bs"
    using assms(10) light_ok_own [of "\<lambda>a. a \<noteq> Timer_Alarm"] unfolding list_all_iff by metis
  then have "alarm_armed s'"
    using running.sys_run_rel [OF 1(2), of bs cal cal1 clk] s'(1) 1(5) by (auto simp: alarm_armed_def)
  then show ?thesis
    using s' 1(1,3,4) by (simp add: run_steps_single el_lit_def el_ended_def end_of_test_enable_check_def)
qed

theorem stale_event_ends_test_witness:
  "\<exists>g s s1 s'. app_main boot_example reset_state = Inr g \<and>
     sys_run (\<lambda>x. x) (\<lambda>x. x) 80000000 (to_inner_loop @ [Timer_Alarm]) (sys_start zero_sample g) = Some s \<and>
     sys_run (\<lambda>x. x) (\<lambda>x. x) 80000000 [Azure_Round test_on_example []] s = Some s1 \<and>
     gpio_out (sys_light s1) GPIO_OUTPUT_IO_TEST_BUTTON = 1 \<and>
     sys_run (\<lambda>x. x) (\<lambda>x. x) 80000000 [Evt_Step, Evt_Step, Evt_Step, Led_Check True, Led_Act] s1 = Some s' \<and> alarm_armed s'"
proof -
  obtain g s where g: "app_main boot_example reset_state = Inr g"
    and s: "sys_run (\<lambda>x. x) (\<lambda>x. x) 80000000 to_inner_loop (sys_start zero_sample g) = Some s"
    "azure_runs s" "azure s = Az_Loop" "\<not> led_due s" "sys_light s = sys_light (sys_start zero_sample g)"
    "tasks (gw s) = [Led_Ctrl_Task, Azure_Task, Adc_Task, Rtc_Time_Task, Timer_Evt_Task]"
    by (rule inner_loop_reached)
  have inv: "sys_inv s" by (rule sys_run_from_start [OF g s(1)])
  obtain s2 where 2: "timer_alarm 80000000 s = Some s2" using timer_alarm_inv [OF inv] by blast
  have step: "sys_step (\<lambda>x. x) (\<lambda>x. x) 80000000 Timer_Alarm s = Some s2"
    using 2 s(2) by (simp add: sys_step_def azure_runs_def)
  then have run: "sys_run (\<lambda>x. x) (\<lambda>x. x) 80000000 (to_inner_loop @ [Timer_Alarm]) (sys_start zero_sample g) = Some s2"
    using s(1) by (simp add: run_steps_append run_steps_single)
  have "alarm_armed s" using sys_start_armed(1) [OF g] s(5) by (simp add: alarm_armed_def)
  then have pending: "evt_pending (tg (sys_light s2)) \<noteq> []" using timer_alarm_pending [OF inv 2] by blast
  have frame: "azure s2 = azure s" "azure_runs s2 = azure_runs s" "tasks (gw s2) = tasks (gw s)"
    using 2 by (auto simp: timer_alarm_def azure_runs_def has_task_def set_hub_def)
  have "azure_runs s2" "azure s2 = Az_Loop" "has_task Timer_Evt_Task s2" "has_task Led_Ctrl_Task s2"
    using s(2,3,6) frame by (simp_all add: has_task_def)
  from stale_event_ends_test [OF g run this pending test_on_example_events, of "ending_steps True" True "[]"]
  show ?thesis using g run by auto
qed

lemma led_check_frame:
  "azure (led_check ble s) = azure s" "restarted (led_check ble s) = restarted s" "tasks (gw (led_check ble s)) = tasks (gw s)"
  by (simp_all add: led_check_def set_hub_def Let_def split: prod.split)

lemma sys_start_ended:
  assumes "app_main b reset_state = Inr g"
  shows "el_ended (sys_light (sys_start junk g))"
proof -
  obtain t where "booted b t g" "app_timer (clk_base b) tg_reset = Some t" using booted_start [OF assms] .
  then show ?thesis
    using app_timer_effect [OF tg_inv_reset, of "clk_base b"]
    by (auto simp: el_ended_def sys_start_def booted_def tg_reset_def)
qed

text \<open>C15: A \<^verbatim>\<open>TEST ON\<close> that falls into a round of the LED task can be lost. In any state the program reaches in
  which the manager has found a test ended and is about to act on it, the round of the telemetry loop that
  receives the command as its last event, followed by the manager's act, leaves the light off with status 0, although the
  end of the test before is cleared and the timer runs as for a test.\<close>

theorem command_lost_in_program:
  assumes "app_main b reset_state = Inr g" "sys_run cal cal1 clk as (sys_start junk g) = Some s"
    and "azure_runs s" "azure s = Az_Loop" "led_due s" "has_task Led_Ctrl_Task s"
    and "in_events inp = es @ [Receive (Some ''TEST ON'')]"
  shows "\<exists>s'. sys_run cal cal1 clk [Azure_Round inp adcs, Led_Act] s = Some s' \<and>
    gpio_out (sys_light s') GPIO_OUTPUT_IO_TEST_BUTTON = 0 \<and> app_emergency_light_read_status (sys_light s') = 0 \<and>
    \<not> end_of_test_enable_check (tg (sys_light s')) \<and> alarm_armed s'"
proof -
  have s: "sys_inv s" "alarm_enabled (sys_light s)" using reached_enabled [OF assms(1,2)] by simp_all
  obtain s1 where 1: "sys_step cal cal1 clk (Azure_Round inp adcs) s = Some s1" "sys_inv s1" "\<not> el_ended (sys_light s1)" "el_armed (sys_light s1)"
    "led_due s1 = led_due s" "restarted s1 = restarted s"
    using round_starts_test [OF s assms(3,4,7), of cal cal1 clk adcs] by blast
  have "has_task Led_Ctrl_Task s1"
    using sys_run_tasks [of cal cal1 clk "[Azure_Round inp adcs]" s s1] 1(1) assms(6) by (simp add: run_steps_single has_task_def)
  moreover obtain s2 where 2: "led_act clk s1 = Some s2" "sys_inv s2" using sys_do_inv [OF 1(2), of cal cal1 clk Led_Act] by auto
  moreover have "\<not> restarted s1" using 1(6) assms(3) by (simp add: azure_runs_def)
  ultimately have "sys_run cal cal1 clk [Azure_Round inp adcs, Led_Act] s = Some s2" using 1(1) by (simp add: sys_step_def)
  moreover have "\<not> el_lit (sys_light s2)" "tg (sys_light s2) = tg (sys_light s1)"
    using led_act_off [OF 1(2) 2(1)] 1(5) assms(5) by simp_all
  ultimately show ?thesis
    using 1(3,4) sys_inv_light_ok [OF 2(2)]
    by (auto simp: el_lit_def el_ended_def el_inv_def el_armed_def alarm_armed_def
        app_emergency_light_read_status_def end_of_test_enable_check_def)
qed

theorem command_lost_in_program_witness:
  "\<exists>g s s'. app_main boot_example reset_state = Inr g \<and>
     sys_run (\<lambda>x. x) (\<lambda>x. x) 80000000 (to_inner_loop @ [Led_Check True]) (sys_start zero_sample g) = Some s \<and>
     sys_run (\<lambda>x. x) (\<lambda>x. x) 80000000 [Azure_Round test_on_example [], Led_Act] s = Some s' \<and>
     app_emergency_light_read_status (sys_light s') = 0 \<and> alarm_armed s'"
proof -
  obtain g s where g: "app_main boot_example reset_state = Inr g"
    and s: "sys_run (\<lambda>x. x) (\<lambda>x. x) 80000000 to_inner_loop (sys_start zero_sample g) = Some s"
    "azure_runs s" "azure s = Az_Loop" "\<not> led_due s" "sys_light s = sys_light (sys_start zero_sample g)"
    "tasks (gw s) = [Led_Ctrl_Task, Azure_Task, Adc_Task, Rtc_Time_Task, Timer_Evt_Task]"
    by (rule inner_loop_reached)
  let ?s = "led_check True s"
  have due: "led_due ?s" using s(5) sys_start_ended [OF g] by (simp add: led_check_due)
  have "sys_step (\<lambda>x. x) (\<lambda>x. x) 80000000 (Led_Check True) s = Some ?s"
    using s(2,6) by (simp add: sys_step_def azure_runs_def has_task_def)
  then have run: "sys_run (\<lambda>x. x) (\<lambda>x. x) 80000000 (to_inner_loop @ [Led_Check True]) (sys_start zero_sample g) = Some ?s"
    using s(1) by (simp add: run_steps_append run_steps_single)
  have "azure_runs ?s" "azure ?s = Az_Loop" "has_task Led_Ctrl_Task ?s"
    using s(2,3,6) by (simp_all add: led_check_frame azure_runs_def has_task_def)
  then show ?thesis using command_lost_in_program [OF g run _ _ due _ test_on_example_events] g run by blast
qed

end
