(* ===== verification/Json_Text.thy ===== *)
theory Json_Text
  imports Reader
begin

text \<open>
  A reader of JSON, as far as messages that are one flat object with string and number members need it:
  strings without escapes, and numbers without sign and exponent. The value of a number is its integer
  part and the digits of its fraction.
\<close>

datatype json_value = J_String string | J_Number nat string

definition plain :: "char \<Rightarrow> bool" where
  "plain c \<longleftrightarrow> c \<noteq> CHR 0x22 \<and> c \<noteq> CHR 0x5C \<and> 32 \<le> (of_char c :: nat)"

definition js_space :: "string \<Rightarrow> string" where
  "js_space = dropWhile (\<lambda>c. c \<in> {CHR 0x20, CHR 0x09, CHR 0x0A, CHR 0x0D})"

definition js_string :: "string reader" where
  "js_string s = do {
     (_, s) \<leftarrow> rd_char CHR 0x22 s;
     (_, r) \<leftarrow> rd_char CHR 0x22 (dropWhile plain s);
     Some (takeWhile plain s, r)
   }"

text \<open>A number has no superfluous leading zero, and a point is followed by a digit.\<close>

definition js_number :: "json_value reader" where
  "js_number s = do {
     (n, r) \<leftarrow> rd_number s;
     if hd s = CHR ''0'' \<and> is_digit (s ! 1) \<and> 1 < length s then None
     else (case rd_char CHR ''.'' r of
         None \<Rightarrow> Some (J_Number n [], r)
       | Some (_, r) \<Rightarrow>
           (let f = takeWhile is_digit r in if f = [] then None else Some (J_Number n f, dropWhile is_digit r)))
   }"

definition js_value :: "json_value reader" where
  "js_value s =
     (if s \<noteq> [] \<and> hd s = CHR 0x22 then map_option (\<lambda>(t, r). (J_String t, r)) (js_string s) else js_number s)"

definition js_member :: "(string \<times> json_value) reader" where
  "js_member s = do {
     (k, s) \<leftarrow> js_string (js_space s);
     (_, s) \<leftarrow> rd_char CHR '':'' (js_space s);
     (v, s) \<leftarrow> js_value (js_space s);
     Some ((k, v), js_space s)
   }"

lemma js_space_le: "length (js_space s) \<le> length s"
  by (simp add: js_space_def length_dropWhile_le)

lemma rd_char_less: "rd_char c s = Some (x, r) \<Longrightarrow> length r < length s"
  by (auto simp: rd_char_def split: list.splits if_splits)

lemma js_string_less: "js_string s = Some (t, r) \<Longrightarrow> length r < length s"
proof -
  assume "js_string s = Some (t, r)"
  then obtain u s1 u' where "rd_char CHR 0x22 s = Some (u, s1)" "rd_char CHR 0x22 (dropWhile plain s1) = Some (u', r)"
    by (auto simp: js_string_def split: bind_splits)
  then have "length s1 < length s" "length r < length (dropWhile plain s1)" by (simp_all add: rd_char_less)
  then show ?thesis using length_dropWhile_le [of plain s1] by simp
qed

lemma rd_number_le: "rd_number s = Some (n, r) \<Longrightarrow> length r \<le> length s"
  using length_dropWhile_le [of is_digit s] by (auto simp: rd_number_def Let_def split: if_splits)

lemma js_number_le: "js_number s = Some (v, r) \<Longrightarrow> length r \<le> length s"
proof -
  assume a: "js_number s = Some (v, r)"
  then obtain n s1 where 1: "rd_number s = Some (n, s1)" by (auto simp: js_number_def split: bind_splits)
  have "length r \<le> length s1"
  proof (cases "rd_char CHR ''.'' s1")
    case None
    then show ?thesis using a 1 by (auto simp: js_number_def split: if_splits)
  next
    case (Some p)
    then have "r = dropWhile is_digit (snd p)" using a 1 by (auto simp: js_number_def Let_def split: if_splits prod.splits)
    moreover have "length (snd p) < length s1" using Some rd_char_less by (cases p) auto
    ultimately show ?thesis using length_dropWhile_le [of is_digit "snd p"] by simp
  qed
  then show ?thesis using rd_number_le [OF 1] by simp
qed

lemma js_value_le: "js_value s = Some (v, r) \<Longrightarrow> length r \<le> length s"
  using js_string_less js_number_le by (fastforce simp: js_value_def split: if_splits)

lemma js_member_less: "js_member s = Some (m, r) \<Longrightarrow> length r < length s"
proof -
  assume "js_member s = Some (m, r)"
  then obtain k s1 u s2 v s3 where *: "js_string (js_space s) = Some (k, s1)"
    "rd_char CHR '':'' (js_space s1) = Some (u, s2)" "js_value (js_space s2) = Some (v, s3)" "r = js_space s3"
    by (auto simp: js_member_def split: bind_splits)
  have "length s1 < length s" using js_string_less [OF *(1)] js_space_le [of s] by simp
  moreover have "length s2 < length s1" using rd_char_less [OF *(2)] js_space_le [of s1] by simp
  moreover have "length s3 \<le> length s2" using js_value_le [OF *(3)] js_space_le [of s2] by simp
  ultimately show ?thesis using *(4) js_space_le [of s3] by simp
qed

function js_members :: "(string \<times> json_value) list reader" where
  "js_members s =
     (case js_member s of
        None \<Rightarrow> None
      | Some (m, r) \<Rightarrow>
          (case r of
             [] \<Rightarrow> None
           | c # r' \<Rightarrow>
               if c = CHR ''}'' then Some ([m], r')
               else if c = CHR '','' then map_option (\<lambda>(ms, r). (m # ms, r)) (js_members r')
               else None))"
  by pat_completeness auto
termination
  by (relation "measure length") (auto dest!: js_member_less)

declare js_members.simps [simp del]

definition json_object :: "string \<Rightarrow> (string \<times> json_value) list option" where
  "json_object s = do {
     (_, s) \<leftarrow> rd_char CHR ''{'' (js_space s);
     (ms, r) \<leftarrow> js_members s;
     if js_space r = [] then Some ms else None
   }"

section \<open>Reading what was printed\<close>

lemma js_string_plain: "\<forall>c \<in> set t. plain c \<Longrightarrow> js_string (CHR 0x22 # t @ CHR 0x22 # r) = Some (t, r)"
  by (simp add: js_string_def plain_def)

lemma js_space_skip [simp]: "js_space (CHR 0x20 # s) = js_space s"
  by (simp add: js_space_def)

lemma js_space_stop: "c \<notin> {CHR 0x20, CHR 0x09, CHR 0x0A, CHR 0x0D} \<Longrightarrow> js_space (c # s) = c # s"
  by (auto simp: js_space_def)

lemma digit_not_special: "is_digit c \<Longrightarrow> c \<noteq> CHR 0x22 \<and> c \<notin> {CHR 0x20, CHR 0x09, CHR 0x0A, CHR 0x0D} \<and> plain c"
  by (auto simp: is_digit_def digit_value_def plain_def split: if_splits)

lemma no_leading_zero:
  assumes "\<not> starts_digit r"
  shows "\<not> (hd (dec_digits n @ r) = CHR ''0'' \<and> is_digit ((dec_digits n @ r) ! 1) \<and> 1 < length (dec_digits n @ r))"
proof
  assume a: "hd (dec_digits n @ r) = CHR ''0'' \<and> is_digit ((dec_digits n @ r) ! 1) \<and> 1 < length (dec_digits n @ r)"
  then have "length (dec_digits n) = 1" using dec_digits_zero by simp
  moreover from this obtain c where "dec_digits n = [c]" by (auto simp: length_Suc_conv)
  ultimately show False using a assms by (cases r) (auto simp: starts_digit_def)
qed

lemma js_number_fraction:
  assumes "f \<noteq> []" "\<forall>c \<in> set f. is_digit c" "\<not> starts_digit r"
  shows "js_number (dec_digits n @ ''.'' @ f @ r) = Some (J_Number n f, r)"
proof -
  have pt: "\<not> starts_digit (''.'' @ f @ r)" by (simp add: starts_digit_def is_digit_def digit_value_def)
  show ?thesis
    using rd_number_dec [OF pt, of n] no_leading_zero [OF pt, of n] take_digits [OF assms(2,3)] assms(1)
    by (simp add: js_number_def Let_def)
qed

lemma js_number_int:
  assumes "\<not> starts_digit r" "r = [] \<or> hd r \<noteq> CHR ''.''"
  shows "js_number (dec_digits n @ r) = Some (J_Number n [], r)"
  using rd_number_dec [OF assms(1), of n] no_leading_zero [OF assms(1), of n] assms(2)
  by (cases r) (simp_all add: js_number_def rd_char_def)

text \<open>A member as it is printed: its key, a colon, a blank, and a value that reads as itself.\<close>

lemma js_member_printed:
  assumes "\<forall>c \<in> set k. plain c" "js_space (v @ r) = v @ r" "js_value (v @ r) = Some (x, r)" "js_space r = r"
  shows "js_member (CHR 0x22 # k @ CHR 0x22 # CHR '':'' # CHR 0x20 # v @ r) = Some ((k, x), r)"
  using assms(2-4) by (simp add: js_member_def js_space_stop js_string_plain [OF assms(1)])

lemma js_value_string:
  assumes "\<forall>c \<in> set t. plain c"
  shows "js_value (CHR 0x22 # t @ CHR 0x22 # r) = Some (J_String t, r)"
  using js_string_plain [OF assms] by (simp add: js_value_def)

lemma digits_first:
  shows "js_space (dec_digits n @ r) = dec_digits n @ r" "js_value (dec_digits n @ r) = js_number (dec_digits n @ r)"
proof -
  obtain c cs where c: "dec_digits n = c # cs" by (cases "dec_digits n") auto
  then have "is_digit c" using dec_digits_digits [of c n] by simp
  from digit_not_special [OF this]
  show "js_space (dec_digits n @ r) = dec_digits n @ r" "js_value (dec_digits n @ r) = js_number (dec_digits n @ r)"
    by (simp_all add: c js_space_stop js_value_def)
qed

lemma js_members_more:
  "js_member s = Some (m, CHR '','' # r) \<Longrightarrow> js_members s = map_option (\<lambda>(ms, r). (m # ms, r)) (js_members r)"
  by (simp add: js_members.simps [of s])

lemma js_members_last: "js_member s = Some (m, CHR ''}'' # r) \<Longrightarrow> js_members s = Some ([m], r)"
  by (simp add: js_members.simps [of s])

end
