(* ===== verification/Telemetry_Text.thy ===== *)
theory Telemetry_Text
  imports Iothub Json_Text
begin

text \<open>
  The text of a telemetry message as its receiver sees it: it is a JSON object with five members, whose
  values are those of the sample. \<open>cloud_reads\<close> is a receiver that looks the members up by name.
\<close>

section \<open>The message is a JSON object\<close>

lemma test_id_plain: "\<forall>c \<in> set test_id. plain c"
  by (simp add: test_id_def plain_def)

lemma strftime_plain:
  assumes "tm_mon x < 12" "tm_mday x \<le> 31" "tm_hour x < 24" "tm_min x < 60" "tm_sec x < 60"
  shows "\<forall>c \<in> set (strftime_z x). plain c"
proof -
  have d: "\<forall>c \<in> set (dec_digits n). plain c" for n using dec_digits_digits digit_not_special by blast
  have t: "\<forall>c \<in> set (two_digits n). plain c" if "n < 100" for n
    using two_digits_digits [OF that] digit_not_special by blast
  show ?thesis
    using d [of "tm_year x + 1900"] t [of "tm_mon x + 1"] t [of "tm_mday x"] t [of "tm_hour x"] t [of "tm_min x"]
      t [of "tm_sec x"] assms
    by (simp add: strftime_z_def ball_Un plain_def)
qed

lemma timestamp_plain: "\<forall>c \<in> set (snd (local_time_read now)). plain c"
  using gmtime_fields by (auto simp: local_time_read_def localtime_in_def Let_def intro!: strftime_plain [THEN bspec])

text \<open>The members of the message, the last one first.\<close>

lemma read_status:
  "js_members (''\"status\": '' @ dec_digits n @ ''}'') = Some ([(''status'', J_Number n [])], [])"
proof -
  have "js_value (dec_digits n @ ''}'') = Some (J_Number n [], ''}'')"
    unfolding digits_first by (rule js_number_int) (simp_all add: starts_digit_def is_digit_def digit_value_def)
  from js_member_printed [OF _ digits_first(1) this, of "''status''"]
  have "js_member (''\"status\": '' @ dec_digits n @ ''}'') = Some ((''status'', J_Number n []), CHR ''}'' # [])"
    by (simp add: plain_def js_space_def)
  then show ?thesis by (rule js_members_last)
qed

lemma read_number_member:
  assumes "\<forall>c \<in> set k. plain c" "js_members r = Some (ms, [])"
  shows "js_members (CHR 0x22 # k @ CHR 0x22 # CHR '':'' # CHR 0x20 # printf_1f v @ CHR '','' # r) =
    Some ((k, J_Number (unat v) ''0'') # ms, [])"
proof -
  have rest: "\<not> starts_digit (CHR '','' # r)" by (simp add: starts_digit_def is_digit_def digit_value_def)
  have "js_value (printf_1f v @ CHR '','' # r) = Some (J_Number (unat v) ''0'', CHR '','' # r)"
    using js_number_fraction [OF _ _ rest, of "''0''" "unat v"] digits_first(2) [of "unat v"]
    by (simp add: printf_1f_def is_digit_def digit_value_def)
  moreover have "js_space (printf_1f v @ CHR '','' # r) = printf_1f v @ CHR '','' # r"
    using digits_first(1) [of "unat v" "''.0'' @ CHR '','' # r"] by (simp add: printf_1f_def)
  ultimately have "js_member (CHR 0x22 # k @ CHR 0x22 # CHR '':'' # CHR 0x20 # printf_1f v @ CHR '','' # r) =
      Some ((k, J_Number (unat v) ''0''), CHR '','' # r)"
    by (intro js_member_printed assms(1)) (simp_all add: js_space_def)
  then show ?thesis using assms(2) by (simp add: js_members_more)
qed

lemma read_string_member:
  assumes "\<forall>c \<in> set k. plain c" "\<forall>c \<in> set t. plain c" "js_members r = Some (ms, [])"
  shows "js_members (CHR 0x22 # k @ CHR 0x22 # CHR '':'' # CHR 0x20 # CHR 0x22 # t @ CHR 0x22 # CHR '','' # r) =
    Some ((k, J_String t) # ms, [])"
proof -
  have "js_member (CHR 0x22 # k @ CHR 0x22 # CHR '':'' # CHR 0x20 # (CHR 0x22 # t @ [CHR 0x22]) @ CHR '','' # r) =
      Some ((k, J_String t), CHR '','' # r)"
    using js_value_string [OF assms(2), of "CHR '','' # r"]
    by (intro js_member_printed assms(1)) (simp_all add: js_space_def)
  then show ?thesis using assms(3) by (simp add: js_members_more)
qed

definition msg_members :: "string \<Rightarrow> def_queue_buffer \<Rightarrow> (string \<times> json_value) list" where
  "msg_members time d = [(''deviceId'', J_String test_id), (''timestamp'', J_String time),
     (''brightness'', J_Number (unat (mv1 d)) ''0''), (''vdd'', J_Number (unat (mv2 d)) ''0''),
     (''status'', J_Number (unat (status d)) [])]"

lemma read_msg_json:
  assumes "\<forall>c \<in> set time. plain c"
  shows "json_object (msg_json time d) = Some (msg_members time d)"
proof -
  let ?m5 = "''\"status\": '' @ dec_digits (unat (status d)) @ ''}''"
  let ?m4 = "CHR 0x22 # ''vdd'' @ CHR 0x22 # CHR '':'' # CHR 0x20 # printf_1f (mv2 d) @ CHR '','' # ?m5"
  let ?m3 = "CHR 0x22 # ''brightness'' @ CHR 0x22 # CHR '':'' # CHR 0x20 # printf_1f (mv1 d) @ CHR '','' # ?m4"
  let ?m2 = "CHR 0x22 # ''timestamp'' @ CHR 0x22 # CHR '':'' # CHR 0x20 # CHR 0x22 # time @ CHR 0x22 # CHR '','' # ?m3"
  let ?m1 = "CHR 0x22 # ''deviceId'' @ CHR 0x22 # CHR '':'' # CHR 0x20 # CHR 0x22 # test_id @ CHR 0x22 # CHR '','' # ?m2"
  have "js_members ?m4 = Some (drop 3 (msg_members time d), [])"
    using read_number_member [OF _ read_status, of "''vdd''" "mv2 d" "unat (status d)"]
    by (simp add: msg_members_def plain_def)
  from read_number_member [OF _ this, of "''brightness''" "mv1 d"]
  have "js_members ?m3 = Some (drop 2 (msg_members time d), [])" by (simp add: msg_members_def plain_def)
  from read_string_member [OF _ assms this, of "''timestamp''"]
  have "js_members ?m2 = Some (drop 1 (msg_members time d), [])" by (simp add: msg_members_def plain_def)
  from read_string_member [OF _ test_id_plain this, of "''deviceId''"]
  have "js_members ?m1 = Some (msg_members time d, [])" by (simp add: msg_members_def plain_def)
  moreover have "msg_json time d = CHR ''{'' # ?m1" by (simp add: msg_json_def)
  ultimately show ?thesis by (simp add: json_object_def js_space_def)
qed

section \<open>A receiver\<close>

fun whole_number :: "json_value \<Rightarrow> nat option" where
  "whole_number (J_Number n f) = (if list_all (\<lambda>c. c = CHR ''0'') f then Some n else None)"
| "whole_number (J_String t) = None"

definition cloud_reads :: "string \<Rightarrow> (nat \<times> nat \<times> nat) option" where
  "cloud_reads m = do {
     ms \<leftarrow> json_object m;
     b \<leftarrow> Option.bind (map_of ms ''brightness'') whole_number;
     v \<leftarrow> Option.bind (map_of ms ''vdd'') whole_number;
     c \<leftarrow> Option.bind (map_of ms ''status'') whole_number;
     Some (b, v, c)
   }"

definition reading :: "def_queue_buffer \<Rightarrow> nat \<times> nat \<times> nat" where
  "reading d = (unat (mv1 d), unat (mv2 d), unat (status d))"

text \<open>A message that was not cut off is read, whatever its time is.\<close>

lemma uncut: "length (sprintf_msg now d) < 1023 \<Longrightarrow> sprintf_msg now d = msg_json (snd (local_time_read now)) d"
  by (simp add: sprintf_msg_def)

lemma cloud_reads_uncut:
  assumes "length (sprintf_msg now d) < 1023"
  shows "cloud_reads (sprintf_msg now d) = Some (reading d)"
  using read_msg_json [OF timestamp_plain, of now d]
  by (simp add: uncut [OF assms] cloud_reads_def msg_members_def reading_def)

section \<open>Properties\<close>

text \<open>C27: The text of a message is a well-formed JSON object with exactly five members: the constant device
  address, the time stamp, the two measurements as numbers with a zero fraction, and the status. The
  numbers read back as the values of the sample.\<close>

theorem message_reads_back:
  assumes "now < 2 ^ 31"
  shows "json_object (sprintf_msg now d) = Some (msg_members (snd (local_time_read now)) d) \<and>
    cloud_reads (sprintf_msg now d) = Some (unat (mv1 d), unat (mv2 d), unat (status d))"
proof -
  have short: "length (sprintf_msg now d) < 1023" using conjunct2 [OF fits_buffer [OF assms, of d]] by linarith
  then show ?thesis
    using cloud_reads_uncut [OF short] read_msg_json [OF timestamp_plain, of now d] uncut [OF short]
    by (simp add: reading_def)
qed

theorem message_reads_back_witness:
  "cloud_reads (sprintf_msg 1556000000 (zero_sample\<lparr>mv1 := 4294967295, mv2 := 0, status := 1\<rparr>)) = Some (4294967295, 0, 1)"
  using message_reads_back [of 1556000000 "zero_sample\<lparr>mv1 := 4294967295, mv2 := 0, status := 1\<rparr>"] by simp

end
