(* ===== verification/System_Cloud.thy ===== *)
theory System_Cloud
  imports System_Safety Telemetry_Text
begin

text \<open>
  What reaches the cloud from the running program: its messages can be read, and they read as the samples
  reported (\<open>cloud_reads_reported_samples\<close>); while the library takes and confirms messages, every
  report gets there (\<open>reported_samples_reach_cloud\<close>); after one hand-over that fails, nothing does any
  more (\<open>failed_handover_silences_program\<close>).
\<close>

section \<open>The times of the messages\<close>

lemma log_append [simp]:
  "sent_msgs (h\<lparr>hub_log := hub_log h @ cs\<rparr>) = sent_msgs h @ List.map_filter (\<lambda>c. case c of Send_Event m \<Rightarrow> Some m | _ \<Rightarrow> None) cs"
  by (simp add: sent_msgs_def map_filter_append)

lemma hub_send_sent:
  assumes "hub_send inp h = Some h'"
  shows "set (sent_msgs h') \<subseteq> set (sent_msgs h) \<union> range (sprintf_msg (in_now inp))"
  using assms
  by (auto simp: hub_send_def Let_def sent_msgs_def map_filter_append map_filter_single split: bind_splits option.splits if_splits)

lemma dowork_sent: "IoTHubClient_LL_DoWork clk es h = Some h' \<Longrightarrow> sent_msgs h' = sent_msgs h"
proof (induction es arbitrary: h)
  case (Cons e es)
  then obtain h1 where 1: "hub_event_step clk e h = Some h1" "IoTHubClient_LL_DoWork clk es h1 = Some h'"
    by (auto split: bind_splits)
  have "sent_msgs h1 = sent_msgs h"
    using 1(1) by (cases e) (auto simp: hub_event_step_def SendConfirmationCallback_def ReceiveMessageCallback_def Let_def
        sent_msgs_def map_filter_append map_filter_single split: list.splits bind_splits)
  then show ?case using Cons.IH [OF 1(2)] by simp
qed simp

lemma final_sent: "final_dowork clk evs n h = Some h' \<Longrightarrow> sent_msgs h' = sent_msgs h"
  by (induction n arbitrary: h') (auto dest: dowork_sent split: bind_splits)

lemma after_session_sent: "hub_after_session clk c h = Some h' \<Longrightarrow> sent_msgs h' = sent_msgs h"
  by (auto simp: hub_after_session_def dest!: dowork_sent final_sent split: bind_splits if_splits)

lemma hub_round_sent:
  "hub_round clk inp h = Some (go, h') \<Longrightarrow> others_quiet inp \<Longrightarrow>
   set (sent_msgs h') \<subseteq> set (sent_msgs h) \<union> range (sprintf_msg (in_now inp))"
  using hub_send_sent by (fastforce simp: hub_round_quiet dest: dowork_sent split: bind_splits if_splits)

text \<open>The texts a step can add to the messages sent.\<close>

fun texts_of :: "sys_action \<Rightarrow> string set" where
  "texts_of (Azure_Round inp adcs) = range (sprintf_msg (in_now inp))"
| "texts_of _ = {}"

lemma sent_start [simp]: "sent_msgs (iothub_start g h) = sent_msgs h"
  by (simp add: iothub_start_def sent_msgs_def)

lemma sent_next [simp]: "sent_msgs (sys_hub (azure_next out h s)) = sent_msgs h"
  by (simp add: azure_next_def set_hub_def)

lemma sys_do_sent:
  assumes "sys_do cal cal1 clk a s = Some s'"
  shows "set (sent_msgs (sys_hub s')) \<subseteq> set (sent_msgs (sys_hub s)) \<union> texts_of a"
proof (cases a)
  case (Azure_Round inp adcs)
  then have "sys_do cal cal1 clk (Azure_Round inp adcs) s = Some s'" using assms by simp
  then obtain outs t where t: "azure_round clk (during outs inp) t = Some s'" "gw t = gw s"
    by (rule do_azure_round)
  show ?thesis
  proof (cases "azure t = Az_Loop")
    case True
    then obtain go h where "hub_round clk (during outs inp) (sys_hub s) = Some (go, h)" "sys_hub s' = h"
      using t by (auto simp: azure_round_def)
    then show ?thesis using hub_round_sent Azure_Round by fastforce
  next
    case False
    then show ?thesis using t by (auto simp: azure_round_def)
  qed
next
  case (Azure_Begin g)
  then show ?thesis using assms by (auto simp: azure_begin_def split: if_splits)
next
  case (Azure_Connect c)
  then show ?thesis using assms by (auto simp: azure_connect_def azure_setup_def dest: dowork_sent split: if_splits)
next
  case (Azure_Close c)
  then show ?thesis using assms by (auto simp: azure_close_def dest: after_session_sent split: if_splits)
qed (use assms in \<open>auto simp: light_steps set_wifi_view_def split: bind_splits prod.splits if_splits sum.splits\<close>)

interpretation sent: observed_system "\<lambda>_. True" sys_inv "sys_step cal cal1 clk" "\<lambda>s. set (sent_msgs (sys_hub s))" texts_of
  for cal cal1 clk
proof
  fix a s s'
  assume "sys_step cal cal1 clk a s = Some s'"
  then show "set (sent_msgs (sys_hub s')) \<subseteq> set (sent_msgs (sys_hub s)) \<union> texts_of a"
    using sys_do_sent [of cal cal1 clk a s s'] by (auto simp: sys_step_def split: if_splits)
qed

text \<open>The clock of an action is in the range of a 32-bit \<^verbatim>\<open>time_t\<close>.\<close>

fun clock_ok :: "sys_action \<Rightarrow> bool" where
  "clock_ok (Azure_Round inp adcs) = (in_now inp < 2 ^ 31)"
| "clock_ok _ = True"

lemma sent_nothing_before: "app_main b reset_state = Inr g \<Longrightarrow> sent_msgs (sys_hub (sys_start junk g)) = []"
  by (erule booted_start) (simp add: booted_def sys_start_def sent_msgs_def List.map_filter_def)

lemma sent_short:
  assumes "app_main b reset_state = Inr g" "sys_run cal cal1 clk as (sys_start junk g) = Some s"
    and "list_all clock_ok as" "m \<in> set (sent_msgs (sys_hub s))"
  shows "length m < 1023"
proof -
  obtain a where a: "a \<in> set as" "m \<in> texts_of a"
    using sent.seen_has_cause [OF assms(2,4)] sent_nothing_before [OF assms(1)] by auto
  obtain inp adcs d where m: "a = Azure_Round inp adcs" "m = sprintf_msg (in_now inp) d" using a(2) by (cases a) auto
  then have "in_now inp < 2 ^ 31" using a(1) assms(3) by (auto simp: list_all_iff)
  then show ?thesis using conjunct2 [OF fits_buffer, of "in_now inp" d] m(2) by simp
qed

lemma reads_map2:
  "length ts = length ss \<Longrightarrow> \<forall>m \<in> set (map2 sprintf_msg ts ss). length m < 1023 \<Longrightarrow>
   map cloud_reads (map2 sprintf_msg ts ss) = map (Some \<circ> reading) ss"
  by (induction ts ss rule: list_induct2) (simp_all add: cloud_reads_uncut)

section \<open>Steps of the other tasks\<close>

fun azure_action :: "sys_action \<Rightarrow> bool" where
  "azure_action (Azure_Begin g) = True"
| "azure_action (Azure_Connect c) = True"
| "azure_action (Azure_Round inp adcs) = True"
| "azure_action (Azure_Close c) = True"
| "azure_action _ = False"

text \<open>They leave the message window alone.\<close>

definition same_window :: "iot_state \<Rightarrow> iot_state \<Rightarrow> bool" where
  "same_window h h' \<longleftrightarrow> in_flight h' = in_flight h \<and> iterator h' = iterator h \<and> callbackCounter h' = callbackCounter h \<and>
     g_continueRunning h' = g_continueRunning h \<and> sent_msgs h' = sent_msgs h"

lemma other_window:
  assumes "\<not> azure_action a" "sys_do cal cal1 clk a s = Some s'"
  shows "azure s' = azure s \<and> same_window (sys_hub s) (sys_hub s')"
  using assms
  by (cases a) (auto simp: same_window_def light_steps set_wifi_view_def split: bind_splits prod.splits if_splits sum.splits)

text \<open>Reports and losses are never taken back.\<close>

lemma sys_do_reports:
  assumes "sys_do cal cal1 clk a s = Some s'"
  shows "prefix (reported s) (reported s') \<and> lost s \<le> lost s'"
proof (cases a)
  case (Azure_Round inp adcs)
  then have "sys_do cal cal1 clk (Azure_Round inp adcs) s = Some s'" using assms by simp
  then obtain outs t where t: "azure_round clk (during outs inp) t = Some s'" "prefix (reported s) (reported t)"
    "lost s \<le> lost t"
    by (rule do_azure_round)
  moreover have "reported s' = reported t" "lost s' = lost t"
    using t(1) by (auto simp: azure_round_def set_hub_def split: if_splits)
  ultimately show ?thesis by simp
qed (use assms in \<open>auto simp: azure_begin_def azure_connect_def azure_setup_def azure_close_def azure_next_def set_hub_def light_steps
      set_wifi_view_def note_reported_def split: bind_splits prod.splits if_splits sum.splits\<close>)

lemma sys_step_reports: "sys_step cal cal1 clk a s = Some s' \<Longrightarrow> prefix (reported s) (reported s') \<and> lost s \<le> lost s'"
  using sys_do_reports by (fastforce simp: sys_step_def split: if_splits)

lemma sys_run_reports: "sys_run cal cal1 clk as s = Some s' \<Longrightarrow> prefix (reported s) (reported s') \<and> lost s \<le> lost s'"
proof (induction as arbitrary: s)
  case (Cons a as)
  then obtain s1 where 1: "sys_step cal cal1 clk a s = Some s1" "sys_run cal cal1 clk as s1 = Some s'"
    by (auto split: bind_splits)
  show ?case using Cons.IH [OF 1(2)] sys_step_reports [OF 1(1)] prefix_order.trans by fastforce
qed simp

section \<open>A stuck window\<close>

definition silent :: "string list \<Rightarrow> system \<Rightarrow> bool" where
  "silent m s \<longleftrightarrow> sys_inv s \<and> azure s \<noteq> Az_Wait \<and> hub_stuck (sys_hub s) \<and> sent_msgs (sys_hub s) = m"

lemma stuck_connected: "hub_stuck (h\<lparr>iothub_connection := b\<rparr>) = hub_stuck h"
  by (simp add: hub_stuck_def)

lemma silent_hub:
  "hub_stuck h \<Longrightarrow> sent_msgs h = m \<Longrightarrow> azure s' \<noteq> Az_Wait \<Longrightarrow> sys_hub s' = h \<Longrightarrow> sys_inv s' \<Longrightarrow> silent m s'"
  by (simp add: silent_def)

lemma do_silent:
  assumes "silent m s" "sys_do cal cal1 clk a s = Some s'" "sys_inv s'"
  shows "silent m s'"
proof (cases "azure_action a")
  case False
  from other_window [OF this assms(2)] have w: "azure s' = azure s" "same_window (sys_hub s) (sys_hub s')" by simp_all
  then have "hub_inv (sys_hub s')" using sys_inv_hub_inv [OF assms(3)] assms(1) by (simp add: silent_def)
  then show ?thesis using assms(1,3) w by (simp add: silent_def hub_stuck_def same_window_def)
next
  case True
  have st: "hub_stuck (sys_hub s)" "sent_msgs (sys_hub s) = m" "azure s \<noteq> Az_Wait" using assms(1) by (simp_all add: silent_def)
  show ?thesis
  proof (cases a)
    case (Azure_Begin g)
    then show ?thesis using assms st(3) by (simp add: azure_begin_def)
  next
    case (Azure_Connect c)
    obtain h where h: "IoTHubClient_LL_DoWork clk (destroy_events c) (sys_hub s) = Some h" "hub_stuck h" "sent_msgs h = m"
      using stuck_dowork [OF st(1)] st(2) by metis
    then have "azure_connect clk c s = Some s'" using Azure_Connect assms(2) by simp
    then show ?thesis
      using h st assms(1,3) by (auto simp: azure_connect_def azure_setup_def azure_next_def set_hub_def silent_def stuck_connected split: if_splits)
  next
    case (Azure_Round inp adcs)
    then have r: "azure_round clk (during [] inp) s = Some s'"
      using assms(2) stuck_not_enabled [OF st(1)] by simp
    obtain go h where h: "hub_round clk (during [] inp) (sys_hub s) = Some (go, h)" "hub_stuck h" "sent_msgs h = m"
      using stuck_round [OF st(1), of clk "during [] inp"] st(2) by auto
    then show ?thesis using r assms(1,3) by (auto simp: azure_round_def set_hub_def silent_def split: if_splits)
  next
    case (Azure_Close c)
    obtain h where h: "hub_after_session clk c (sys_hub s) = Some h" "hub_stuck h" "sent_msgs h = m"
      using stuck_after [OF st(1), of clk c] st(2) by auto
    then show ?thesis using Azure_Close assms by (auto simp: azure_close_def azure_next_def set_hub_def silent_def split: if_splits)
  qed (use True in simp_all)
qed

interpretation silent: sys_property cal cal1 clk "\<lambda>_. True" "silent m" for cal cal1 clk m
  by (unfold_locales, simp add: silent_def, rule do_silent)

section \<open>Progress\<close>

text \<open>In every round of the loop the library takes the message and confirms it, and the connection holds.\<close>

fun steady :: "sys_action \<Rightarrow> bool" where
  "steady (Azure_Round inp adcs) = taken_round inp"
| "steady _ = True"

fun is_round :: "sys_action \<Rightarrow> bool" where
  "is_round (Azure_Round inp adcs) = True"
| "is_round _ = False"

definition sys_open :: "system \<Rightarrow> bool" where
  "sys_open s \<longleftrightarrow> sys_inv s \<and> azure s = Az_Loop \<and> hub_open (sys_hub s)"

lemma accounts:
  assumes "sys_inv s"
  shows "length (reported s) = length (sent_msgs (sys_hub s)) + length (queue_items (sys_queue s)) + lost s"
  using assms by (auto simp: sys_inv_def reports_ok_def cloud_ok_def accounted_def)

lemma do_open:
  assumes "sys_open s" "steady a" "sys_do cal cal1 clk a s = Some s'" "sys_inv s'"
  shows "sys_open s' \<and> length (sent_msgs (sys_hub s')) =
    length (sent_msgs (sys_hub s)) + (if is_round a \<and> queue_items (sys_queue s) \<noteq> [] then 1 else 0)"
proof (cases "azure_action a")
  case False
  from other_window [OF this assms(3)] have w: "azure s' = azure s" "same_window (sys_hub s) (sys_hub s')" by simp_all
  then have "hub_inv (sys_hub s')" using sys_inv_hub_inv [OF assms(4)] assms(1) by (simp add: sys_open_def)
  moreover have "\<not> is_round a" using False by (cases a) simp_all
  ultimately show ?thesis using assms(1,4) w by (simp add: sys_open_def hub_open_def same_window_def)
next
  case True
  have op: "hub_open (sys_hub s)" "azure s = Az_Loop" using assms(1) by (simp_all add: sys_open_def)
  show ?thesis
  proof (cases a)
    case (Azure_Round inp adcs)
    then have "sys_do cal cal1 clk (Azure_Round inp adcs) s = Some s'" using assms by simp
    then obtain outs t where t: "azure_round clk (during outs inp) t = Some s'" "gw t = gw s" "azure t = azure s"
      by (rule do_azure_round)
    have "taken_round (during outs inp)" using assms(2) Azure_Round by (simp add: taken_round_def hub_accepts_def)
    from open_round_any [OF op(1) this, of clk, OF during_simps(7)] obtain h where h:
      "hub_round clk (during outs inp) (sys_hub s) = Some (True, h)" "hub_open h"
      "sent_msgs h = sent_msgs (sys_hub s) @ map2 sprintf_msg [in_now inp] (queue_items (sys_queue s))"
      by auto
    then have "s' = set_hub h (t\<lparr>azure := Az_Loop\<rparr>)" using t op(2) by (simp add: azure_round_def)
    then show ?thesis
      using h(2,3) assms(4) Azure_Round by (cases "queue_items (sys_queue s)") (simp_all add: sys_open_def set_hub_def)
  qed (use True assms op in \<open>simp_all add: azure_begin_def azure_connect_def azure_setup_def azure_close_def\<close>)
qed

lemma step_runs:
  assumes "sys_step cal cal1 clk a s = Some s'" "azure_runs s'"
  shows "azure_runs s"
  using assms sys_do_tasks [of cal cal1 clk a s s'] by (auto simp: sys_step_def azure_runs_def has_task_def split: if_splits)

lemma run_runs: "sys_run cal cal1 clk as s = Some s' \<Longrightarrow> azure_runs s' \<Longrightarrow> azure_runs s"
  by (induction as arbitrary: s) (auto dest: step_runs split: bind_splits)

lemma rounds_send:
  "sys_open s \<Longrightarrow> list_all steady bs \<Longrightarrow> sys_run cal cal1 clk bs s = Some s' \<Longrightarrow> azure_runs s' \<Longrightarrow> lost s' = 0 \<Longrightarrow>
   R \<le> length (reported s) \<Longrightarrow> min R (length (sent_msgs (sys_hub s)) + length (filter is_round bs)) \<le> length (sent_msgs (sys_hub s'))"
proof (induction bs arbitrary: s)
  case (Cons a bs)
  obtain s1 where 1: "sys_step cal cal1 clk a s = Some s1" "sys_run cal cal1 clk bs s1 = Some s'"
    using Cons.prems(3) by (auto split: bind_splits)
  have runs: "azure_runs s" using step_runs [OF 1(1)] run_runs [OF 1(2)] Cons.prems(4) by simp
  have rep: "prefix (reported s) (reported s1)" "lost s = 0" "lost s1 = 0"
    using sys_step_reports [OF 1(1)] sys_run_reports [OF 1(2)] Cons.prems(5) by simp_all
  have inv: "sys_inv s" "sys_inv s1" using Cons.prems(1) sys_step_inv [of s cal cal1 clk a] 1(1) by (simp_all add: sys_open_def)
  have o: "sys_open s1 \<and> length (sent_msgs (sys_hub s)) \<le> length (sent_msgs (sys_hub s1)) \<and>
      (is_round a \<longrightarrow> queue_items (sys_queue s) \<noteq> [] \<longrightarrow> length (sent_msgs (sys_hub s1)) = length (sent_msgs (sys_hub s)) + 1)"
  proof (cases "s1 = s \<and> \<not> is_round a")
    case True
    then show ?thesis using Cons.prems(1) by simp
  next
    case False
    moreover have "is_round a \<Longrightarrow> runs_in a = Some Azure_Task" by (cases a) simp_all
    ultimately have "sys_do cal cal1 clk a s = Some s1"
      using 1(1) runs by (auto simp: sys_step_def azure_runs_def split: if_splits)
    from do_open [OF Cons.prems(1) _ this inv(2)] Cons.prems(2) show ?thesis by auto
  qed
  have "R \<le> length (reported s1)" using rep(1) Cons.prems(6) prefix_length_le by fastforce
  with Cons.IH [OF _ _ 1(2) Cons.prems(4,5)] o Cons.prems(2)
  have ih: "min R (length (sent_msgs (sys_hub s1)) + length (filter is_round bs)) \<le> length (sent_msgs (sys_hub s'))" by simp
  have "R \<le> length (sent_msgs (sys_hub s))" if "queue_items (sys_queue s) = []"
    using accounts [OF inv(1)] that rep(2) Cons.prems(6) by simp
  then show ?case using ih o by (cases "queue_items (sys_queue s) = []") auto
qed simp

text \<open>So after as many rounds as samples were queued, all reports are among the samples sent.\<close>

lemma rounds_deliver:
  assumes "sys_open s" "list_all steady bs" "length (queue_items (sys_queue s)) \<le> length (filter is_round bs)"
    and "sys_run cal cal1 clk bs s = Some s'" "azure_runs s'" "lost s' = 0"
  shows "\<exists>ss times. length times = length ss \<and> sent_msgs (sys_hub s') = map2 sprintf_msg times ss \<and> prefix (reported s) ss"
proof -
  have inv: "sys_inv s" using assms(1) by (simp add: sys_open_def)
  then have inv': "sys_inv s'" using sys_run_inv [of s cal cal1 clk bs] assms(4) by simp
  have rep: "prefix (reported s) (reported s')" "lost s = 0" using sys_run_reports [OF assms(4)] assms(6) by simp_all
  from rounds_send [OF assms(1,2,4-6), of "length (reported s)"]
  have many: "length (reported s) \<le> length (sent_msgs (sys_hub s'))"
    using accounts [OF inv] assms(3) rep(2) by simp
  obtain ss times where ss: "length times = length ss" "sent_msgs (sys_hub s') = map2 sprintf_msg times ss"
    "accounted ss (queue_items (sys_queue s')) (reported s') 0"
    using inv' assms(6) by (auto simp: sys_inv_def reports_ok_def cloud_ok_def)
  then have "ss @ queue_items (sys_queue s') = reported s'"
    using subseq_same_length [of "ss @ queue_items (sys_queue s')" "reported s'"] by (simp add: accounted_def)
  then have part: "prefix ss (reported s')" by (metis prefixI)
  have "length (reported s) \<le> length ss" using many ss(1) unfolding ss(2) by simp
  from prefix_length_prefix [OF rep(1) part this] show ?thesis using ss(1,2) by blast
qed

text \<open>Single steps of a loop that runs smoothly: nothing was ever lost.\<close>

definition smooth :: "system \<Rightarrow> bool" where
  "smooth s \<longleftrightarrow> sys_open s \<and> azure_runs s \<and> lost s = 0"

lemma smooth_round:
  assumes "smooth s" "taken_round inp"
  shows "\<exists>s'. sys_step cal cal1 clk (Azure_Round inp []) s = Some s' \<and> smooth s' \<and> reported s' = reported s \<and>
    length (queue_items (sys_queue s')) = length (queue_items (sys_queue s)) - 1"
proof -
  have op: "sys_open s" "azure_runs s" "lost s = 0" and inv: "sys_inv s" using assms(1) by (simp_all add: smooth_def sys_open_def)
  obtain s' where s': "sys_do cal cal1 clk (Azure_Round inp []) s = Some s'" "sys_inv s'" using sys_do_inv [OF inv] by blast
  have q: "queue_inv (sys_queue s)" using inv by (simp add: sys_inv_def hub_ok_def)
  then have "azure_round clk (during [] inp) s = Some s'" using s'(1) note_nothing [OF q] by (auto split: if_splits)
  then have keep: "azure_runs s'" "lost s' = 0" "reported s' = reported s"
    using op by (auto simp: azure_round_def set_hub_def azure_runs_def has_task_def split: if_splits)
  have o: "sys_open s'" "length (sent_msgs (sys_hub s')) = length (sent_msgs (sys_hub s)) +
      (if queue_items (sys_queue s) \<noteq> [] then 1 else 0)"
    using do_open [OF op(1) _ s'] assms(2) by simp_all
  have "length (queue_items (sys_queue s')) = length (queue_items (sys_queue s)) - 1"
    using accounts [OF inv] accounts [OF s'(2)] keep(2,3) op(3) o(2)
    by (cases "queue_items (sys_queue s) = []") (simp_all del: length_queue_items)
  moreover have "sys_step cal cal1 clk (Azure_Round inp []) s = Some s'" using sys_step_azure [OF op(2)] s'(1) by simp
  ultimately show ?thesis using keep o(1) by (simp add: smooth_def del: length_queue_items)
qed

lemma smooth_adc:
  assumes "smooth s" "has_task Adc_Task s" "length (queue_items (sys_queue s)) < 5"
  shows "\<exists>s'. sys_step cal cal1 clk (Adc_Round inp) s = Some s' \<and> smooth s' \<and>
    length (queue_items (sys_queue s')) \<le> length (queue_items (sys_queue s)) + 1"
proof -
  have op: "sys_open s" "azure_runs s" "lost s = 0" and inv: "sys_inv s" using assms(1) by (simp_all add: smooth_def sys_open_def)
  have "queue_inv (sys_queue s)" using inv by (simp add: sys_inv_def hub_ok_def)
  from adc_iteration_total [OF this] obtain outs st q where
    a: "adc_iteration cal cal1 (seen_by s inp) (adc_locals s) (sys_queue s) = Some (outs, st, q)" by blast
  let ?s = "set_hub ((sys_hub s)\<lparr>samples := q\<rparr>) (note_reported outs st s)"
  have d: "sys_do cal cal1 clk (Adc_Round inp) s = Some ?s" using a by simp
  moreover obtain s2 where "sys_do cal cal1 clk (Adc_Round inp) s = Some s2" "sys_inv s2" using sys_do_inv [OF inv] by blast
  ultimately have inv': "sys_inv ?s" by simp
  have few: "length outs \<le> 1" using a by (auto simp: adc_iteration_def Let_def split: prod.splits if_splits)
  have "lost ?s = 0" using few assms(3) op(3) by (simp add: overrun_def del: length_queue_items)
  moreover have "azure_runs ?s" using op(2) by (simp add: set_hub_def note_reported_def azure_runs_def has_task_def)
  moreover have o: "sys_open ?s" "length (sent_msgs (sys_hub ?s)) = length (sent_msgs (sys_hub s))"
    using do_open [OF op(1) _ d inv'] by simp_all
  moreover have "length (queue_items (sys_queue ?s)) \<le> length (queue_items (sys_queue s)) + 1"
    using accounts [OF inv] accounts [OF inv'] op(3) few o(2) \<open>lost ?s = 0\<close> by (simp del: length_queue_items)
  moreover have "sys_step cal cal1 clk (Adc_Round inp) s = Some ?s"
    using d assms(2) op(2) by (simp add: sys_step_def azure_runs_def del: sys_do.simps)
  ultimately show ?thesis unfolding smooth_def by blast
qed

section \<open>Properties\<close>

text \<open>C3: What the cloud reads. In every state the program reaches while its clock is below \<open>2 ^ 31\<close>, a receiver
  reads every message, and the readings are those of samples the ADC task reported: together with the
  samples still queued they are a part of the reports in order, and all of them when no insertion hit
  a full queue.\<close>

theorem cloud_reads_reported_samples:
  assumes "app_main b reset_state = Inr g" "sys_run cal cal1 clk as (sys_start junk g) = Some s" "list_all clock_ok as"
  shows "\<exists>ss. map cloud_reads (sent_msgs (sys_hub s)) =
      map (\<lambda>d. Some (unat (mv1 d), unat (mv2 d), unat (status d))) ss \<and>
    subseq (ss @ queue_items (sys_queue s)) (reported s) \<and>
    (lost s = 0 \<longrightarrow> ss @ queue_items (sys_queue s) = reported s)"
proof -
  obtain ss times where ss: "length times = length ss" "sent_msgs (sys_hub s) = map2 sprintf_msg times ss"
    "accounted ss (queue_items (sys_queue s)) (reported s) (lost s)"
    using sys_run_from_start [OF assms(1,2)] by (auto simp: sys_inv_def reports_ok_def cloud_ok_def)
  have "map cloud_reads (sent_msgs (sys_hub s)) = map (Some \<circ> reading) ss"
    unfolding ss(2) using sent_short [OF assms] ss(1,2) by (intro reads_map2) auto
  then show ?thesis
    using ss(3) subseq_same_length [of "ss @ queue_items (sys_queue s)" "reported s"]
    by (intro exI [of _ ss]) (auto simp: accounted_def reading_def comp_def)
qed

theorem cloud_reads_reported_samples_witness:
  "\<exists>g s ss. app_main boot_example reset_state = Inr g \<and>
     sys_run (\<lambda>x. x) (\<lambda>x. x) 80000000 (run_example @ conn_actions conn_example) (sys_start zero_sample g) = Some s \<and>
     map cloud_reads (sent_msgs (sys_hub s)) = map (\<lambda>d. Some (unat (mv1 d), unat (mv2 d), unat (status d))) ss \<and>
     subseq (ss @ queue_items (sys_queue s)) (reported s)"
proof -
  obtain g where g: "app_main boot_example reset_state = Inr g" using boot_example_ok by blast
  obtain s where s: "sys_run (\<lambda>x. x) (\<lambda>x. x) 80000000 (run_example @ conn_actions conn_example) (sys_start zero_sample g) = Some s"
    using sys_run_inv [OF sys_start_inv [OF g]] by blast
  have "list_all clock_ok (run_example @ conn_actions conn_example)"
    by (simp add: run_example_def conn_actions_def conn_example_def)
  then show ?thesis using cloud_reads_reported_samples [OF g s] g s by blast
qed

text \<open>C8: Everything reported reaches the cloud while all goes well. From any state the program reaches in which the
  telemetry loop runs and its window is open (no earlier hand-over failed, and none is unconfirmed), let all
  tasks go on in any order, where in every round of the loop the library takes the message, confirms it, and the
  connection holds. After as many rounds as samples were queued, every sample reported before them has been
  sent, in order, if no insertion has hit a full queue since the start and the program still runs.\<close>

theorem reported_samples_reach_cloud:
  assumes "app_main b reset_state = Inr g" "sys_run cal cal1 clk as (sys_start junk g) = Some s"
    and "azure s = Az_Loop" "hub_open (sys_hub s)" "list_all steady bs"
    and "length (queue_items (sys_queue s)) \<le> length (filter is_round bs)"
  shows "\<exists>s'. sys_run cal cal1 clk bs s = Some s' \<and>
    (azure_runs s' \<and> lost s' = 0 \<longrightarrow>
      (\<exists>ss times. length times = length ss \<and> sent_msgs (sys_hub s') = map2 sprintf_msg times ss \<and> prefix (reported s) ss))"
proof -
  have inv: "sys_inv s" by (rule sys_run_from_start [OF assms(1,2)])
  then have op: "sys_open s" using assms(3,4) by (simp add: sys_open_def)
  obtain s' where "sys_run cal cal1 clk bs s = Some s'" using sys_run_inv [OF inv] by blast
  then show ?thesis using rounds_deliver [OF op assms(5,6)] by blast
qed

text \<open>The steps that bring the program into the telemetry loop, with one report on the way.\<close>

definition to_loop :: "sys_action list" where
  "to_loop = [Wifi_Action (\<lambda>_. True) (Sc_Event STA_GOT_IP),
     Azure_Begin (\<lambda>_. \<lparr>messageHandle = None, messageTrackingId = 0\<rparr>), Azure_Connect conn_example, Adc_Round adc_example]"

definition ack_round :: "sys_action" where
  "ack_round = Azure_Round \<lparr>in_now = 0, in_inserts = [], in_sleep = [], in_pause = [], in_create = Some 1, in_send_ok = True, in_events = [Ack],
     in_conn_lost = False\<rparr> []"

text \<open>The first round of the ADC task always reports, as its counter starts at zero.\<close>

lemma first_report:
  assumes "queue_inv q"
  shows "\<exists>d st' q'. adc_iteration cal cal1 inp (adc_start junk) q = Some ([d], st', q')"
  using ring.ins_items [OF assms] by (fastforce simp: adc_iteration_def adc_changed_def adc_start_def Let_def split: prod.splits)

lemma to_loop_ok:
  assumes "app_main boot_example reset_state = Inr g" "s_wifi_event_group (wifi g) = 0"
    "tasks g = [Led_Ctrl_Task, Azure_Task, Adc_Task, Rtc_Time_Task, Timer_Evt_Task]"
  shows "\<exists>s. sys_run (\<lambda>x. x) (\<lambda>x. x) 80000000 to_loop (sys_start zero_sample g) = Some s \<and> smooth s \<and>
    length (reported s) = 1 \<and> length (queue_items (sys_queue s)) = 1"
proof -
  let ?init = "sys_run (\<lambda>x. x) (\<lambda>x. x) 80000000"
  obtain s1 where s1: "?init (butlast to_loop) (sys_start zero_sample g) = Some s1" "sys_inv s1"
    using sys_run_inv [OF sys_start_inv [OF assms(1)]] by blast
  have l: "azure s1 = Az_Loop \<and> azure_runs s1 \<and> in_flight (sys_hub s1) = [] \<and>
      iterator (sys_hub s1) = callbackCounter (sys_hub s1) \<and> g_continueRunning (sys_hub s1) \<and>
      adc_locals s1 = adc_start zero_sample \<and> reported s1 = []"
    using s1(1) assms(2,3)
    by (auto simp: to_loop_def first_steps conn_example_def iothub_start_def)
  then have op: "sys_open s1" "azure_runs s1" using s1(2) sys_inv_hub_inv [OF s1(2)] by (simp_all add: sys_open_def hub_open_def)
  have "length (sent_msgs (sys_hub s1)) = 0" "length (queue_items (sys_queue s1)) = 0" and none: "lost s1 = 0"
    using accounts [OF s1(2)] l by simp_all
  then have empty: "sent_msgs (sys_hub s1) = []" "queue_items (sys_queue s1) = []" by (simp_all only: length_0_conv)
  have "queue_inv (sys_queue s1)" using s1(2) by (simp add: sys_inv_def hub_ok_def)
  from first_report [OF this] obtain e st q where
    a: "adc_iteration (\<lambda>x. x) (\<lambda>x. x) (seen_by s1 adc_example) (adc_locals s1) (sys_queue s1) = Some ([e], st, q)"
    using l by metis
  let ?s = "set_hub ((sys_hub s1)\<lparr>samples := q\<rparr>) (note_reported [e] st s1)"
  have d: "sys_do (\<lambda>x. x) (\<lambda>x. x) 80000000 (Adc_Round adc_example) s1 = Some ?s" using a by simp
  moreover obtain s2 where "sys_do (\<lambda>x. x) (\<lambda>x. x) 80000000 (Adc_Round adc_example) s1 = Some s2" "sys_inv s2"
    using sys_do_inv [OF s1(2)] by blast
  ultimately have inv: "sys_inv ?s" by simp
  have "has_task Adc_Task s1" using sys_run_tasks [OF s1(1)] assms(3) by (simp add: has_task_def sys_start_def)
  then have step: "sys_step (\<lambda>x. x) (\<lambda>x. x) 80000000 (Adc_Round adc_example) s1 = Some ?s"
    using d op(2) by (simp add: sys_step_def azure_runs_def del: sys_do.simps)
  have "azure_runs ?s" using op(2) by (simp add: set_hub_def note_reported_def azure_runs_def has_task_def)
  moreover have "sys_open ?s" "sent_msgs (sys_hub ?s) = []" using do_open [OF op(1) _ d inv] empty by simp_all
  moreover have "lost ?s = 0" "length (reported ?s) = 1"
    using l empty none by (simp_all add: overrun_def del: length_queue_items)
  moreover from calculation have "length (queue_items (sys_queue ?s)) = 1" using accounts [OF inv] by simp
  moreover have "?init (butlast to_loop @ [Adc_Round adc_example]) (sys_start zero_sample g) = Some ?s"
    using s1(1) step by (simp only: run_steps_append run_steps.simps Option.bind.bind_lunit)
  moreover have "butlast to_loop @ [Adc_Round adc_example] = to_loop" by (simp add: to_loop_def)
  ultimately show ?thesis unfolding smooth_def by metis
qed

theorem reported_samples_reach_cloud_witness:
  "\<exists>g s s' ss times. app_main boot_example reset_state = Inr g \<and>
     sys_run (\<lambda>x. x) (\<lambda>x. x) 80000000 to_loop (sys_start zero_sample g) = Some s \<and> length (reported s) = 1 \<and>
     sys_run (\<lambda>x. x) (\<lambda>x. x) 80000000 [ack_round] s = Some s' \<and>
     length times = length ss \<and> sent_msgs (sys_hub s') = map2 sprintf_msg times ss \<and> prefix (reported s) ss"
proof -
  obtain g where g: "app_main boot_example reset_state = Inr g" "s_wifi_event_group (wifi g) = 0"
    "tasks g = [Led_Ctrl_Task, Azure_Task, Adc_Task, Rtc_Time_Task, Timer_Evt_Task]"
    using boot_example_ok by blast
  obtain s where s: "sys_run (\<lambda>x. x) (\<lambda>x. x) 80000000 to_loop (sys_start zero_sample g) = Some s" "smooth s"
    "length (reported s) = 1" "length (queue_items (sys_queue s)) = 1"
    using to_loop_ok [OF g] by blast
  have op: "azure s = Az_Loop" "hub_open (sys_hub s)" using s(2) by (simp_all add: smooth_def sys_open_def)
  have taken: "taken_round \<lparr>in_now = 0, in_inserts = [], in_sleep = [], in_pause = [], in_create = Some 1, in_send_ok = True, in_events = [Ack],
     in_conn_lost = False\<rparr>" by (simp add: taken_round_def hub_accepts_def)
  obtain s' where s': "sys_run (\<lambda>x. x) (\<lambda>x. x) 80000000 [ack_round] s = Some s'" "smooth s'"
    using smooth_round [OF s(2) taken] unfolding run_steps_single ack_round_def by blast
  have "list_all steady [ack_round]" "length (queue_items (sys_queue s)) \<le> length (filter is_round [ack_round])"
    using s(4) taken by (simp_all add: ack_round_def)
  from reported_samples_reach_cloud [OF g(1) s(1) op this] show ?thesis
    using g(1) s(1,3) s' by (auto simp: smooth_def simp del: run_steps.simps)
qed

text \<open>C9: One hand-over that fails (no message object, or the library refuses it) silences the program for good.
  Whatever happens afterwards in any order, reports, confirmations, a closed connection and new ones,
  no message is sent any more.\<close>

theorem failed_handover_silences_program:
  assumes "app_main b reset_state = Inr g" "sys_run cal cal1 clk as (sys_start junk g) = Some s"
    and "azure_runs s" "azure s = Az_Loop" "hub_send_enabled (sys_hub s)" "\<not> hub_accepts inp"
  shows "\<exists>s'. sys_run cal cal1 clk (Azure_Round inp adcs # bs) s = Some s' \<and>
    sent_msgs (sys_hub s') = sent_msgs (sys_hub s)"
proof -
  have inv: "sys_inv s" by (rule sys_run_from_start [OF assms(1,2)])
  have hub: "hub_inv (sys_hub s)" using sys_inv_hub_inv [OF inv] assms(4) by simp
  obtain s1 where 1: "sys_do cal cal1 clk (Azure_Round inp adcs) s = Some s1" "sys_inv s1"
    using sys_do_inv [OF inv] by blast
  obtain outs t where t: "azure_round clk (during outs inp) t = Some s1" "gw t = gw s" "azure t = azure s"
    using do_azure_round [OF 1(1)] .
  have "\<not> hub_accepts (during outs inp)" using assms(6) by (simp add: hub_accepts_def)
  from failed_send_sticks [OF hub assms(5) this, of clk] obtain go h where
    h: "hub_round clk (during outs inp) (sys_hub s) = Some (go, h)" "hub_stuck h" "sent_msgs h = sent_msgs (sys_hub s)"
    by blast
  moreover have "azure s1 \<in> {Az_Loop, Az_Closing}" "sys_hub s1 = h" using h(1) t assms(4) by (auto simp: azure_round_def split: if_splits)
  ultimately have "silent (sent_msgs (sys_hub s)) s1" using 1(2) by (auto simp: silent_def)
  then obtain s' where s': "sys_run cal cal1 clk bs s1 = Some s'" "silent (sent_msgs (sys_hub s)) s'"
    using silent.run_ok [of "sent_msgs (sys_hub s)" s1 bs cal cal1 clk] by (auto simp: list_all_iff)
  then show ?thesis
    using 1(1) sys_step_azure [OF assms(3), of "Azure_Round inp adcs"] by (simp add: silent_def)
qed

theorem failed_handover_silences_program_witness:
  "\<exists>g s s'. app_main boot_example reset_state = Inr g \<and>
     sys_run (\<lambda>x. x) (\<lambda>x. x) 80000000 to_loop (sys_start zero_sample g) = Some s \<and>
     sys_run (\<lambda>x. x) (\<lambda>x. x) 80000000 [Azure_Round \<lparr>in_now = 0, in_inserts = [], in_sleep = [], in_pause = [], in_create = None, in_send_ok = True,
       in_events = [], in_conn_lost = False\<rparr> [], ack_round, ack_round] s = Some s' \<and>
     sent_msgs (sys_hub s') = sent_msgs (sys_hub s)"
proof -
  obtain g where g: "app_main boot_example reset_state = Inr g" "s_wifi_event_group (wifi g) = 0"
    "tasks g = [Led_Ctrl_Task, Azure_Task, Adc_Task, Rtc_Time_Task, Timer_Evt_Task]"
    using boot_example_ok by blast
  obtain s where s: "sys_run (\<lambda>x. x) (\<lambda>x. x) 80000000 to_loop (sys_start zero_sample g) = Some s"
    "azure_runs s" "length (queue_items (sys_queue s)) = 1" and op: "azure s = Az_Loop" "hub_open (sys_hub s)"
    using to_loop_ok [OF g] by (auto simp: smooth_def sys_open_def)
  have "queue_inv (sys_queue s)" using op(2) by (simp add: hub_open_def hub_inv_def)
  then have "\<not> queue_buffer_isEmpty (sys_queue s)" using ring.is_empty_iff s(3) by fastforce
  then have "hub_send_enabled (sys_hub s)" using op(2) by (simp add: hub_send_enabled_def hub_open_def)
  from failed_handover_silences_program [OF g(1) s(1,2) op(1) this, of "\<lparr>in_now = 0, in_inserts = [], in_sleep = [], in_pause = [], in_create = None,
      in_send_ok = True, in_events = [], in_conn_lost = False\<rparr>" "[]" "[ack_round, ack_round]"]
  show ?thesis using g(1) s(1) by (auto simp: hub_accepts_def simp del: run_steps.simps)
qed

end
