(* ===== verification/System_Report.thy ===== *)
theory System_Report
  imports System_Command System_Cloud
begin

text \<open>
  What the reports say of the light. The last sample the ADC task has reported always carries the status
  its last round saw; so a test that begins, with nothing of the one before left, is reported by the next
  round of the task.
\<close>

section \<open>The last report\<close>

text \<open>Before the first report the counter of the task is zero; later its sample is the last report.\<close>

definition report_ok :: "def_queue_buffer list \<Rightarrow> adc_state \<Rightarrow> bool" where
  "report_ok rep st \<longleftrightarrow> (if rep = [] then cnt st = 0 else last rep = tmp_data_queue st)"

lemma iteration_report:
  assumes "adc_iteration cal cal1 inp st q = Some (out, st', q')" "report_ok rep st"
  shows "report_ok (rep @ out) st' \<and> rep @ out \<noteq> [] \<and> status (last (rep @ out)) = status_el inp"
proof -
  obtain m1 m2 where m: "adc_measure cal cal1 inp = (m1, m2)" by force
  show ?thesis
  proof (cases "adc_changed st m1 m2 (status_el inp)")
    case True
    then show ?thesis using assms(1) m by (auto simp: adc_iteration_def report_ok_def Let_def)
  next
    case False
    then have "cnt st mod 10 \<noteq> 0" "uint (status (tmp_data_queue st)) = uint (status_el inp)"
      by (simp_all add: adc_changed_def Let_def)
    then have "cnt st \<noteq> 0" "status (tmp_data_queue st) = status_el inp" by (auto, simp add: word_uint_eq_iff)
    then show ?thesis
      using assms m False by (auto simp: adc_iteration_def report_ok_def Let_def split: if_splits)
  qed
qed

lemma task_report:
  "adc_task cal cal1 inps st q = Some (outs, st', q') \<Longrightarrow> report_ok rep st \<Longrightarrow>
   report_ok (rep @ outs) st' \<and>
   (if inps = [] then outs = [] else rep @ outs \<noteq> [] \<and> status (last (rep @ outs)) = status_el (last inps))"
proof (induction inps arbitrary: st q outs rep)
  case (Cons inp inps)
  then obtain out st1 q1 outs1 where 1: "adc_iteration cal cal1 inp st q = Some (out, st1, q1)"
    "adc_task cal cal1 inps st1 q1 = Some (outs1, st', q')" "outs = out @ outs1"
    by (auto split: bind_splits prod.splits)
  note it = iteration_report [OF 1(1) Cons.prems(2)]
  from Cons.IH [OF 1(2), of "rep @ out"] it 1(3) show ?case by (auto split: if_splits)
qed simp

definition reports_current :: "system \<Rightarrow> bool" where
  "reports_current s \<longleftrightarrow> report_ok (reported s) (adc_locals s)"

text \<open>The last report says that a test runs.\<close>

definition test_shown :: "system \<Rightarrow> bool" where
  "test_shown s \<longleftrightarrow> reported s \<noteq> [] \<and> status (last (reported s)) = 1"

fun is_adc :: "sys_action \<Rightarrow> bool" where
  "is_adc (Adc_Round inp) = True"
| "is_adc _ = False"

lemma reports_frame:
  assumes "\<not> is_adc a" "\<not> is_round a" "sys_do cal cal1 clk a s = Some s'"
  shows "reported s' = reported s" "adc_locals s' = adc_locals s"
  using assms
  by (cases a; auto simp: azure_begin_def azure_connect_def azure_setup_def azure_close_def azure_next_def set_hub_def light_steps
      set_wifi_view_def split: bind_splits prod.splits if_splits sum.splits)+

lemma round_reports:
  assumes "azure_round clk inp t = Some s'"
  shows "reported s' = reported t" "adc_locals s' = adc_locals t"
  using assms by (auto simp: azure_round_def set_hub_def split: if_splits)

lemma do_report:
  assumes "reports_current s" "sys_do cal cal1 clk a s = Some s'"
  shows "reports_current s' \<and> (status_el_gi (sys_light s) = 1 \<and> (is_adc a \<or> test_shown s) \<longrightarrow> test_shown s')"
proof (cases a)
  case (Adc_Round inp)
  obtain outs st q where it: "adc_iteration cal cal1 (seen_by s inp) (adc_locals s) (sys_queue s) = Some (outs, st, q)"
    "s' = set_hub ((sys_hub s)\<lparr>samples := q\<rparr>) (note_reported outs st s)"
    using assms(2) Adc_Round by (auto split: bind_splits)
  show ?thesis
    using iteration_report [OF it(1), of "reported s"] assms(1) it(2) by (simp add: reports_current_def test_shown_def)
next
  case (Azure_Round inp adcs)
  show ?thesis
  proof (cases "azure s = Az_Loop \<and> hub_send_enabled (sys_hub s) \<and> has_task Adc_Task s")
    case True
    then obtain outs st q where ta: "adc_task cal cal1 (map (seen_by s) adcs) (adc_locals s) (sys_queue s) = Some (outs, st, q)"
      "azure_round clk (during outs inp) (note_reported outs st s) = Some s'"
      using assms(2) Azure_Round by (auto split: bind_splits)
    show ?thesis
      using task_report [OF ta(1), of "reported s"] round_reports [OF ta(2)] assms(1) Azure_Round
      by (auto simp: reports_current_def test_shown_def last_map split: if_splits)
  next
    case False
    then have "azure_round clk (during [] inp) s = Some s'" using assms(2) Azure_Round by auto
    from round_reports [OF this] show ?thesis using assms(1) Azure_Round by (simp add: reports_current_def test_shown_def)
  qed
qed (use assms reports_frame [OF _ _ assms(2)] in \<open>simp_all add: reports_current_def test_shown_def\<close>)

section \<open>Runs\<close>

interpretation current: sys_property cal cal1 clk "\<lambda>_. True" "\<lambda>s. sys_inv s \<and> reports_current s" for cal cal1 clk
  by unfold_locales (use do_report in \<open>auto\<close>)

lemma reached_current:
  assumes "app_main b reset_state = Inr g" "sys_run cal cal1 clk as (sys_start junk g) = Some s"
  shows "reports_current s"
proof -
  have "reports_current (sys_start junk g)" by (simp add: reports_current_def report_ok_def sys_start_def adc_start_def)
  then show ?thesis
    using current.run_inv [OF _ _ assms(2)] sys_start_inv [OF assms(1)] by (simp add: list_all_iff)
qed

text \<open>A test runs, and its reports are current; then also the last report shows it.\<close>

definition test_going :: "system \<Rightarrow> bool" where
  "test_going s \<longleftrightarrow> test_runs s \<and> reports_current s"

lemma test_status: "test_going s \<Longrightarrow> status_el_gi (sys_light s) = 1"
  using el_lit_status sys_inv_light_ok by (auto simp: test_going_def test_runs_def under_test_def)

lemma patient_step:
  assumes "test_going s" "patient a"
  shows "\<exists>s'. sys_step cal cal1 clk a s = Some s' \<and> test_going s' \<and> (test_shown s \<longrightarrow> test_shown s') \<and>
    (is_adc a \<and> has_task Adc_Task s \<and> \<not> restarted s \<longrightarrow> test_shown s')"
proof -
  obtain s' where s': "sys_step cal cal1 clk a s = Some s'" "test_runs s'"
    using tested.step_ok [OF _ assms(2), of s cal cal1 clk] assms(1) by (auto simp: test_going_def)
  show ?thesis
  proof (cases "restarted s \<or> (\<exists>t \<in> set_option (runs_in a). \<not> has_task t s)")
    case True
    then have "s' = s" using s'(1) by (simp add: sys_step_def)
    moreover have "runs_in a = Some Adc_Task" if "is_adc a" using that by (cases a) simp_all
    ultimately show ?thesis using True s' assms(1) by auto
  next
    case False
    then have d: "sys_do cal cal1 clk a s = Some s'" using s'(1) by (simp add: sys_step_def)
    show ?thesis
      using do_report [OF _ d] test_status [OF assms(1)] s' assms(1) by (auto simp: test_going_def)
  qed
qed

interpretation going: total_system patient test_going "sys_step cal cal1 clk" for cal cal1 clk
  by unfold_locales (use patient_step in blast)

interpretation shown: total_system patient "\<lambda>s. test_going s \<and> test_shown s" "sys_step cal cal1 clk" for cal cal1 clk
  by unfold_locales (use patient_step in blast)

lemma patient_run_shows:
  assumes "test_going s" "list_all patient bs" "Adc_Round adc \<in> set bs" "has_task Adc_Task s"
  shows "\<exists>s'. sys_run cal cal1 clk bs s = Some s' \<and> test_going s' \<and> (restarted s' \<or> test_shown s')"
proof -
  obtain xs ys where bs: "bs = xs @ Adc_Round adc # ys" using split_list [OF assms(3)] by blast
  have patient: "list_all patient xs" "list_all patient ys" using assms(2) by (simp_all add: bs)
  obtain s1 where 1: "sys_run cal cal1 clk xs s = Some s1" "test_going s1"
    using going.run_ok [OF assms(1) patient(1)] by blast
  have task: "has_task Adc_Task s1" using sys_run_tasks [OF 1(1)] assms(4) by (simp add: has_task_def)
  obtain s2 where 2: "sys_step cal cal1 clk (Adc_Round adc) s1 = Some s2" "test_going s2" "\<not> restarted s1 \<longrightarrow> test_shown s2"
    using patient_step [OF 1(2), of "Adc_Round adc"] task light_ok.simps is_adc.simps by metis
  obtain s' where s': "sys_run cal cal1 clk ys s2 = Some s'" "test_going s'" "test_shown s2 \<longrightarrow> test_shown s'"
    using going.run_ok [OF 2(2) patient(2)] shown.run_ok [OF _ patient(2), of s2] 2(2) by fastforce
  have "restarted s'" if "restarted s1"
  proof -
    have "s2 = s1" using 2(1) that by (simp add: sys_step_def)
    moreover have "restarted s \<Longrightarrow> sys_run cal cal1 clk zs s = Some s" for zs s
      by (induction zs) (simp_all add: sys_step_def)
    ultimately show ?thesis using that s'(1) by simp
  qed
  moreover have "sys_run cal cal1 clk bs s = Some s'" using 1(1) 2(1) s'(1) by (simp add: bs run_steps_append)
  ultimately show ?thesis using 2(3) s'(2,3) by blast
qed

text \<open>After \<^verbatim>\<open>TEST ON\<close>, once the ADC task has gone round, the last report shows the test.\<close>

lemma test_on_shown:
  assumes "app_main b reset_state = Inr g" "sys_run cal cal1 clk as (sys_start junk g) = Some s"
    and "azure_runs s" "azure s = Az_Loop" "in_events inp = es @ [Receive (Some ''TEST ON'')]" "has_task Adc_Task s"
    and "list_all patient bs" "Adc_Round adc \<in> set bs" "\<not> led_due s" "evt_pending (tg (sys_light s)) = []"
  shows "\<exists>s'. sys_run cal cal1 clk (Azure_Round inp adcs # bs) s = Some s' \<and> test_going s' \<and> (restarted s' \<or> test_shown s')"
proof -
  have s: "sys_inv s" "alarm_enabled (sys_light s)" using reached_enabled [OF assms(1,2)] by simp_all
  obtain s1 where 1: "sys_step cal cal1 clk (Azure_Round inp adcs) s = Some s1" "test_runs s1"
    using round_starts_test [OF s assms(3-5), of cal cal1 clk adcs] assms(9,10) by (auto simp: test_runs_def under_test_def)
  moreover have "reports_current s1"
  proof -
    obtain s2 where "sys_step cal cal1 clk (Azure_Round inp adcs) s = Some s2" "reports_current s2"
      using current.step_ok [where s = s and a = "Azure_Round inp adcs" and cal = cal and ?cal1.0 = cal1 and clk = clk] s(1) reached_current [OF assms(1,2)] by blast
    then show ?thesis using 1(1) by simp
  qed
  ultimately have "test_going s1" by (simp add: test_going_def)
  moreover have "has_task Adc_Task s1"
    using sys_run_tasks [of cal cal1 clk "[Azure_Round inp adcs]" s s1] 1(1) assms(6) by (simp add: run_steps_single has_task_def)
  ultimately show ?thesis using patient_run_shows [OF _ assms(7,8)] 1(1) by fastforce
qed

end
