(* ===== verification/System_End.thy ===== *)
theory System_End
  imports System_Cloud
begin

text \<open>
  The end of the Azure task in the running program. When a connection ends, the task connects again only
  while 1 to 49 confirmations are counted; otherwise it deletes itself, nothing starts it again, and the
  program stays silent although every other task goes on.
\<close>

section \<open>The deleted task\<close>

definition task_deleted :: "string list \<Rightarrow> system \<Rightarrow> bool" where
  "task_deleted m s \<longleftrightarrow> sys_inv s \<and> azure s = Az_Deleted \<and> sent_msgs (sys_hub s) = m"

lemma do_deleted:
  assumes "task_deleted m s" "sys_do cal cal1 clk a s = Some s'" "sys_inv s'"
  shows "task_deleted m s'"
proof (cases "azure_action a")
  case True
  then show ?thesis
    using assms by (cases a) (auto simp: task_deleted_def azure_begin_def azure_connect_def azure_close_def azure_round_def)
next
  case False
  from other_window [OF this assms(2)] show ?thesis using assms(1,3) by (simp add: task_deleted_def same_window_def)
qed

interpretation deleted: sys_property cal cal1 clk "\<lambda>_. True" "task_deleted m" for cal cal1 clk m
  by (unfold_locales, simp add: task_deleted_def, rule do_deleted)

section \<open>The end of a connection\<close>

text \<open>A connection ends after the loop, or when it cannot be set up although the platform is ready.\<close>

definition ends_connection :: "sys_action \<Rightarrow> system \<Rightarrow> bool" where
  "ends_connection a s \<longleftrightarrow>
     (case a of
        Azure_Close c \<Rightarrow> azure s = Az_Closing
      | Azure_Connect c \<Rightarrow> azure s = Az_Connect \<and> wait_passes s \<and> platform_ok c \<and> \<not> (client_ok c \<and> callback_ok c)
      | _ \<Rightarrow> False)"

lemma ending_step:
  assumes "sys_inv s" "azure_runs s" "ends_connection a s"
  shows "\<exists>h w. sys_step cal cal1 clk a s = Some (azure_next (hub_reconnects h) h (s\<lparr>az_wait := w\<rparr>)) \<and>
    sent_msgs h = sent_msgs (sys_hub s)"
proof (cases a)
  case (Azure_Close c)
  then have pc: "azure s = Az_Closing" using assms(3) by (simp add: ends_connection_def)
  have inv: "hub_inv (sys_hub s)" using sys_inv_hub_inv [OF assms(1)] pc by simp
  obtain h where "hub_after_session clk c (sys_hub s) = Some h" "sent_msgs h = sent_msgs (sys_hub s)"
    using hub_after_session_ok [OF inv, of clk c] by auto
  then show ?thesis
    using sys_step_azure [OF assms(2), of a] Azure_Close pc
    by (intro exI [of _ h] exI [of _ "az_wait s"]) (simp add: azure_close_def)
next
  case (Azure_Connect c)
  then have pc: "azure s = Az_Connect" "wait_passes s" "platform_ok c" "\<not> (client_ok c \<and> callback_ok c)"
    using assms(3) by (simp_all add: ends_connection_def)
  have inv: "hub_inv (sys_hub s)" using sys_inv_hub_inv [OF assms(1)] pc(1) by simp
  obtain h where "IoTHubClient_LL_DoWork clk (destroy_events c) (sys_hub s) = Some h" "sent_msgs h = sent_msgs (sys_hub s)"
    using dowork_ok [OF inv, of clk "destroy_events c"] by auto
  then show ?thesis
    using sys_step_azure [OF assms(2), of a] Azure_Connect pc
    by (intro exI [of _ "if client_ok c then h else sys_hub s"] exI [of _ Not_Waiting])
      (simp add: azure_connect_def azure_setup_def)
qed (use assms(3) in \<open>simp_all add: ends_connection_def\<close>)

section \<open>Properties\<close>

text \<open>C24: When a connection of the running program ends, the Azure task connects again exactly if at least one and
  fewer than fifty confirmations are counted. Otherwise it is deleted for good: whatever happens
  afterwards, it stays deleted, no message is sent, and the Wi-Fi flag stays off.\<close>

theorem ended_connection_may_end_task:
  assumes "app_main b reset_state = Inr g" "sys_run cal cal1 clk as (sys_start junk g) = Some s"
    and "azure_runs s" "ends_connection a s"
  shows "\<exists>s'. sys_step cal cal1 clk a s = Some s' \<and> sent_msgs (sys_hub s') = sent_msgs (sys_hub s) \<and>
    (if 0 < callbackCounter (sys_hub s') \<and> callbackCounter (sys_hub s') < 50 then azure s' = Az_Connect
     else \<forall>bs. \<exists>t. sys_run cal cal1 clk bs s' = Some t \<and> azure t = Az_Deleted \<and>
       sent_msgs (sys_hub t) = sent_msgs (sys_hub s) \<and> \<not> wifi_check_connection (gw t))"
proof -
  have inv: "sys_inv s" by (rule sys_run_from_start [OF assms(1,2)])
  obtain h w where h: "sys_step cal cal1 clk a s = Some (azure_next (hub_reconnects h) h (s\<lparr>az_wait := w\<rparr>))"
    "sent_msgs h = sent_msgs (sys_hub s)"
    using ending_step [OF inv assms(3,4)] by blast
  let ?s = "azure_next (hub_reconnects h) h (s\<lparr>az_wait := w\<rparr>)"
  have hub: "sys_hub ?s = h" by (simp add: azure_next_def set_hub_def)
  have again: "hub_reconnects h = Continue_Loop \<longleftrightarrow> 0 < callbackCounter h \<and> callbackCounter h < 50"
    by (simp add: hub_reconnects_def MESSAGE_COUNT_def)
  show ?thesis
  proof (cases "hub_reconnects h = Continue_Loop")
    case True
    then show ?thesis using h again hub by (simp add: azure_next_def)
  next
    case False
    have "sys_inv ?s" using sys_step_inv [OF inv, of cal cal1 clk a] h(1) by simp
    then have "task_deleted (sent_msgs (sys_hub s)) ?s" using False h(2) by (simp add: task_deleted_def)
    then have "\<exists>t. sys_run cal cal1 clk bs ?s = Some t \<and> task_deleted (sent_msgs (sys_hub s)) t" for bs
      by (rule deleted.run_ok) (simp add: list_all_iff)
    moreover have "\<not> wifi_check_connection (gw t)" if "task_deleted (sent_msgs (sys_hub s)) t" for t
      using that by (auto simp: task_deleted_def sys_inv_def hub_ok_def wifi_check_connection_def)
    ultimately have "\<forall>bs. \<exists>t. sys_run cal cal1 clk bs ?s = Some t \<and> azure t = Az_Deleted \<and>
        sent_msgs (sys_hub t) = sent_msgs (sys_hub s) \<and> \<not> wifi_check_connection (gw t)"
      unfolding task_deleted_def by blast
    then show ?thesis using False h again hub by (intro exI [of _ ?s]) simp
  qed
qed

text \<open>The first connection cannot be set up: the client library has no memory.\<close>

definition no_client :: conn_input where
  "no_client = conn_example\<lparr>client_ok := False\<rparr>"

theorem ended_connection_may_end_task_witness:
  "\<exists>g s s' t. app_main boot_example reset_state = Inr g \<and>
     sys_run (\<lambda>x. x) (\<lambda>x. x) 80000000 (take 2 to_loop) (sys_start zero_sample g) = Some s \<and>
     sys_step (\<lambda>x. x) (\<lambda>x. x) 80000000 (Azure_Connect no_client) s = Some s' \<and>
     sys_run (\<lambda>x. x) (\<lambda>x. x) 80000000 [Azure_Connect conn_example, ack_round] s' = Some t \<and> azure t = Az_Deleted"
proof -
  obtain g where g: "app_main boot_example reset_state = Inr g" "s_wifi_event_group (wifi g) = 0"
    "tasks g = [Led_Ctrl_Task, Azure_Task, Adc_Task, Rtc_Time_Task, Timer_Evt_Task]"
    using boot_example_ok by blast
  obtain s where s: "sys_run (\<lambda>x. x) (\<lambda>x. x) 80000000 (take 2 to_loop) (sys_start zero_sample g) = Some s"
    using sys_run_inv [OF sys_start_inv [OF g(1)]] by blast
  have pc: "azure s = Az_Connect" "wait_passes s" "azure_runs s" "callbackCounter (sys_hub s) = 0"
    using s g(2,3)
    by (auto simp: to_loop_def first_steps iothub_start_def)
  have ends: "ends_connection (Azure_Connect no_client) s"
    using pc by (simp add: ends_connection_def no_client_def conn_example_def)
  have "sys_step (\<lambda>x. x) (\<lambda>x. x) 80000000 (Azure_Connect no_client) s =
      Some (azure_next Exit_Loop (sys_hub s) (s\<lparr>az_wait := Not_Waiting\<rparr>))"
    using pc sys_step_azure [OF pc(3), of "Azure_Connect no_client"]
    by (simp add: azure_connect_def azure_setup_def no_client_def conn_example_def hub_reconnects_def)
  moreover obtain s' where s': "sys_step (\<lambda>x. x) (\<lambda>x. x) 80000000 (Azure_Connect no_client) s = Some s'"
    "if 0 < callbackCounter (sys_hub s') \<and> callbackCounter (sys_hub s') < 50 then azure s' = Az_Connect
     else \<forall>bs. \<exists>t. sys_run (\<lambda>x. x) (\<lambda>x. x) 80000000 bs s' = Some t \<and> azure t = Az_Deleted \<and>
       sent_msgs (sys_hub t) = sent_msgs (sys_hub s) \<and> \<not> wifi_check_connection (gw t)"
    using ended_connection_may_end_task [OF g(1) s pc(3) ends] by blast
  ultimately have "callbackCounter (sys_hub s') = 0" using pc(4) by (auto simp: azure_next_def)
  then have "\<exists>t. sys_run (\<lambda>x. x) (\<lambda>x. x) 80000000 bs s' = Some t \<and> azure t = Az_Deleted" for bs using s'(2) by auto
  then obtain t where "sys_run (\<lambda>x. x) (\<lambda>x. x) 80000000 [Azure_Connect conn_example, ack_round] s' = Some t"
    "azure t = Az_Deleted"
    by blast
  then show ?thesis using g(1) s s'(1) by blast
qed

end
