(* ===== verification/System_Network.thy ===== *)
theory System_Network
  imports System_Cloud
begin

text \<open>
  The network and the telemetry of the running program. Only two events set a bit of the event group: the
  station gets an address, or smartconfig reports that the link is over. Before the first of them the
  Azure task waits and nothing is sent; after the second the waits of the task never hold it up again,
  whether or not the station is connected. A wait tests the bits when the task's step comes; a task that
  was blocked before and is woken by an event leaves the wait with its next step, whatever the bits are then.
\<close>

section \<open>Before the first event\<close>

fun network_news :: "sys_action \<Rightarrow> bool" where
  "network_news (Wifi_Action ok (Sc_Event STA_GOT_IP)) = True"
| "network_news (Wifi_Action ok (Sc_Status (SC_STATUS_LINK_OVER pdata))) = True"
| "network_news _ = False"

lemma no_news_event: "e \<noteq> STA_GOT_IP \<Longrightarrow> s_wifi_event_group w = 0 \<Longrightarrow> s_wifi_event_group (event_handler e w) = 0"
  by (cases e) (simp_all add: wifi_defs)

lemma no_news_status:
  assumes "sc_callback ok st w = Inr w'" "\<And>pdata. st \<noteq> SC_STATUS_LINK_OVER pdata"
  shows "s_wifi_event_group w' = s_wifi_event_group w"
proof (cases st)
  case (SC_STATUS_LINK cfg)
  then have "checked ok [Wifi_Disconnect, Wifi_Set_Config cfg, Wifi_Connect] w = Inr w'" using assms(1) by simp
  then show ?thesis by (rule checked_bits)
qed (use assms in auto)

lemma no_news_move:
  assumes "sc_task_move ok v = Inr v'" "s_wifi_event_group (sc_wifi v) = 0"
  shows "s_wifi_event_group (sc_wifi v') = 0"
  using assms checked_bits [of ok "[Smartconfig_Set_Type, Smartconfig_Start]" "sc_wifi v"]
  by (cases "sc_task v") (auto dest!: wakeup_bits simp: map_sum_Inr timeout_connect_def timeout_clear_def wifi_defs
      simp del: checked.simps split: prod.splits if_splits)

lemma no_news_exec:
  assumes "sc_exec ok a v = Inr v'" "\<not> network_news (Wifi_Action ok a)" "s_wifi_event_group (sc_wifi v) = 0"
  shows "s_wifi_event_group (sc_wifi v') = 0"
proof (cases a)
  case (Sc_Event e)
  then show ?thesis using assms no_news_event [of _ "sc_wifi v"] by (cases e) (auto simp del: event_handler.simps)
next
  case (Sc_Status st)
  then obtain w where w: "sc_callback ok st (sc_wifi v) = Inr w" "v' = sc_signal w v"
    using assms(1) by (auto simp: map_sum_Inr)
  have "st \<noteq> SC_STATUS_LINK_OVER pdata" for pdata using assms(2) Sc_Status by auto
  from no_news_status [OF w(1) this] show ?thesis using w(2) assms(3) by simp
next
  case Sc_Task_Move
  then show ?thesis using assms no_news_move by (simp del: sc_task_move.simps)
qed

text \<open>Only the actions of the Wi-Fi change its state.\<close>

fun wifi_action :: "sys_action \<Rightarrow> bool" where
  "wifi_action (Wifi_Action ok a) = True"
| "wifi_action _ = False"

lemma azure_step_wifi [simp]:
  "wifi (gw (azure_next out h s)) = wifi (gw s)" "wifi (gw (azure_begin g s)) = wifi (gw s)"
  by (simp_all add: azure_next_def azure_begin_def)

lemma other_wifi:
  assumes "\<not> wifi_action a" "sys_do cal cal1 clk a s = Some s'"
  shows "wifi (gw s') = wifi (gw s)"
  using assms by (cases a) (auto simp: azure_connect_def azure_setup_def azure_round_def azure_close_def light_steps set_hub_def
      split: bind_splits prod.splits if_splits)

definition no_network :: "string list \<Rightarrow> system \<Rightarrow> bool" where
  "no_network m s \<longleftrightarrow> sys_inv s \<and> azure s = Az_Wait \<and> az_wait s \<noteq> Woken \<and> s_wifi_event_group (wifi (gw s)) = 0 \<and>
     sent_msgs (sys_hub s) = m"

lemma other_wait:
  assumes "\<not> azure_action a" "sys_do cal cal1 clk a s = Some s'" "s_wifi_event_group (wifi (gw s')) = 0"
  shows "az_wait s' = az_wait s"
  using assms
  by (cases a) (auto simp: light_steps set_wifi_view_def wake_azure_def wait_bits_def set_hub_def note_reported_def
      simp del: sc_exec.simps split: bind_splits prod.splits if_splits sum.splits)

lemma azure_waits:
  assumes "azure_action a" "azure s = Az_Wait" "\<not> wait_passes s" "sys_do cal cal1 clk a s = Some s'"
  obtains w where "s' = s\<lparr>az_wait := w\<rparr>" "w = Blocked \<or> w = az_wait s"
proof (cases a)
  case (Azure_Begin garbage)
  then show ?thesis using assms(2-4) that [of Blocked] by (simp add: azure_begin_def)
qed (use assms that [of "az_wait s"] in \<open>simp_all add: azure_connect_def azure_round_def azure_close_def\<close>)

lemma do_no_network:
  assumes "no_network m s" "\<not> network_news a" "sys_do cal cal1 clk a s = Some s'" "sys_inv s'"
  shows "no_network m s'"
proof (cases "azure_action a")
  case True
  have "\<not> wait_passes s" "azure s = Az_Wait" using assms(1) by (simp_all add: no_network_def wait_passes_def wait_bits_def)
  then obtain w where "s' = s\<lparr>az_wait := w\<rparr>" "w = Blocked \<or> w = az_wait s" using azure_waits [OF True _ _ assms(3)] by blast
  then show ?thesis using assms(1) by (auto simp: no_network_def)
next
  case False
  from other_window [OF this assms(3)] have w: "azure s' = azure s" "sent_msgs (sys_hub s') = sent_msgs (sys_hub s)"
    by (simp_all add: same_window_def)
  have bits: "s_wifi_event_group (wifi (gw s')) = 0"
  proof (cases "wifi_action a")
    case True
    then obtain ok b where a: "a = Wifi_Action ok b" by (cases a) simp_all
    show ?thesis
      using assms(1-3) a no_news_exec [of ok b "wifi_view s"]
      by (auto simp: no_network_def wifi_view_def set_wifi_view_def simp del: sc_exec.simps split: sum.splits)
  qed (use other_wifi assms(1,3) in \<open>simp add: no_network_def\<close>)
  then show ?thesis using assms(1,4) w other_wait [OF False assms(3) bits] by (simp add: no_network_def)
qed

interpretation no_network: sys_property cal cal1 clk "\<lambda>a. \<not> network_news a" "no_network m" for cal cal1 clk m
  by (unfold_locales, simp add: no_network_def, rule do_no_network)

section \<open>After smartconfig\<close>

definition smartconfig_over :: "system \<Rightarrow> bool" where
  "smartconfig_over s \<longleftrightarrow> sys_inv s \<and> done_bit (wifi (gw s))"

lemma done_bit_cases: "wifi_inv w \<Longrightarrow> done_bit w \<longleftrightarrow> s_wifi_event_group w \<in> {2, 3}"
  by (auto simp: wifi_inv_def done_bit_def ESPTOUCH_DONE_BIT_def)

lemma over_passes: "smartconfig_over s \<Longrightarrow> wait_passes s"
  using done_bit_cases [of "wifi (gw s)"]
  by (auto simp: smartconfig_over_def wait_passes_def wait_bits_def sys_inv_def wifi_ok_inv_def CONNECTED_BIT_def ESPTOUCH_DONE_BIT_def)

lemma do_over:
  assumes "smartconfig_over s" "sys_do cal cal1 clk a s = Some s'" "sys_inv s'"
  shows "smartconfig_over s'"
proof (cases "wifi_action a")
  case True
  then obtain ok b where a: "a = Wifi_Action ok b" by (cases a) simp_all
  have inv: "wifi_inv (sc_wifi (wifi_view s))" "done_bit (sc_wifi (wifi_view s))"
    using assms(1) by (simp_all add: smartconfig_over_def sys_inv_def wifi_ok_inv_def wifi_view_def)
  have "done_bit (sc_wifi v)" if "sc_exec ok b (wifi_view s) = Inr v" for v
    using sc_exec_step [OF that] sc_step_done [OF _ inv(2)] inv(2) by blast
  then show ?thesis
    using assms a by (auto simp: smartconfig_over_def set_wifi_view_def simp del: sc_exec.simps split: sum.splits)
qed (use assms other_wifi in \<open>simp add: smartconfig_over_def\<close>)

interpretation finished: sys_property cal cal1 clk "\<lambda>_. True" smartconfig_over for cal cal1 clk
  by (unfold_locales, simp add: smartconfig_over_def, rule do_over)

lemma link_over_step:
  assumes "sys_inv s" "\<not> restarted s"
  shows "\<exists>s1. sys_step cal cal1 clk (Wifi_Action ok (Sc_Status (SC_STATUS_LINK_OVER p))) s = Some s1 \<and> smartconfig_over s1"
proof -
  let ?a = "Wifi_Action ok (Sc_Status (SC_STATUS_LINK_OVER p))"
  obtain s1 where 1: "sys_step cal cal1 clk ?a s = Some s1" "sys_inv s1" using sys_step_inv [OF assms(1)] by blast
  have "done_bit (wifi (gw s1))"
    using 1(1) assms(2) by (auto simp: sys_step_def wifi_view_def set_wifi_view_def bits_simps)
  then show ?thesis using 1 by (simp add: smartconfig_over_def)
qed

lemma start_no_network:
  assumes "app_main b reset_state = Inr g"
  shows "no_network [] (sys_start junk g)"
proof -
  obtain t where "booted b t g" using booted_start [OF assms] .
  then have "s_wifi_event_group (wifi g) = 0" "sent_msgs (hub g) = []"
    by (simp_all add: booted_def sent_msgs_def List.map_filter_def)
  then show ?thesis using sys_start_inv [OF assms] by (simp add: no_network_def sys_start_def)
qed

lemma waits_before_network:
  assumes "app_main b reset_state = Inr g" "sys_run cal cal1 clk as (sys_start junk g) = Some s"
    and "list_all (\<lambda>a. \<not> network_news a) as"
  shows "azure s = Az_Wait \<and> sent_msgs (sys_hub s) = [] \<and> \<not> wifi_check_connection (gw s)"
proof -
  have "no_network [] s" by (rule no_network.run_inv [OF start_no_network [OF assms(1)] assms(3,2)])
  then show ?thesis by (simp add: no_network_def sys_inv_def hub_ok_def wifi_check_connection_def)
qed

text \<open>The next step of the Azure task leaves the wait it is in: the first one for the connections, the one before a
  connection for its set-up.\<close>

definition leaves_wait :: "(u32 \<Rightarrow> u32) \<Rightarrow> (u32 \<Rightarrow> u32) \<Rightarrow> nat \<Rightarrow> system \<Rightarrow> bool" where
  "leaves_wait cal cal1 clk s \<longleftrightarrow>
     (azure_runs s \<and> azure s = Az_Wait \<longrightarrow>
       (\<forall>garbage. \<exists>s'. sys_step cal cal1 clk (Azure_Begin garbage) s = Some s' \<and> azure s' = Az_Connect)) \<and>
     (azure_runs s \<and> azure s = Az_Connect \<longrightarrow>
       (\<forall>c. \<exists>s'. sys_step cal cal1 clk (Azure_Connect c) s = Some s' \<and> az_wait s' = Not_Waiting \<and>
         (platform_ok c \<and> client_ok c \<and> callback_ok c \<longrightarrow> azure s' = Az_Loop \<and> iothub_check_connection (sys_hub s'))))"

lemma setup_not_waiting: "azure_setup clk c s = Some s' \<Longrightarrow> az_wait s' = az_wait s"
  by (auto simp: azure_setup_def azure_next_def set_hub_def split: if_splits)

lemma passes_leaves:
  assumes "sys_inv s" "wait_passes s"
  shows "leaves_wait cal cal1 clk s"
proof -
  have "\<exists>s'. sys_step cal cal1 clk (Azure_Connect c) s = Some s' \<and> az_wait s' = Not_Waiting \<and>
      (platform_ok c \<and> client_ok c \<and> callback_ok c \<longrightarrow> azure s' = Az_Loop \<and> iothub_check_connection (sys_hub s'))"
    if "azure_runs s" "azure s = Az_Connect" for c
  proof -
    obtain s' where "sys_step cal cal1 clk (Azure_Connect c) s = Some s'" using sys_step_inv [OF assms(1)] by blast
    moreover from this have "azure_setup clk c (s\<lparr>az_wait := Not_Waiting\<rparr>) = Some s'"
      using that assms(2) by (simp add: sys_step_azure azure_connect_def)
    ultimately show ?thesis
      using setup_not_waiting [of clk c "s\<lparr>az_wait := Not_Waiting\<rparr>"]
      by (auto simp: azure_setup_def iothub_check_connection_def set_hub_def)
  qed
  then show ?thesis using assms(2) by (simp add: leaves_wait_def sys_step_azure azure_begin_def)
qed

section \<open>A woken task\<close>

text \<open>The task is blocked, or has been woken, only in one of its two waits.\<close>

definition waits_right :: "system \<Rightarrow> bool" where
  "waits_right s \<longleftrightarrow> sys_inv s \<and> (az_wait s \<noteq> Not_Waiting \<longrightarrow> azure s = Az_Wait \<or> azure s = Az_Connect)"

lemma other_waiting:
  assumes "\<not> azure_action a" "sys_do cal cal1 clk a s = Some s'"
  shows "(az_wait s' = Not_Waiting \<longleftrightarrow> az_wait s = Not_Waiting) \<and> (az_wait s = Woken \<longrightarrow> az_wait s' = Woken)"
  using assms
  by (cases a) (auto simp: light_steps set_wifi_view_def wake_azure_def set_hub_def note_reported_def
      simp del: sc_exec.simps split: bind_splits prod.splits if_splits sum.splits)

lemma azure_waiting:
  assumes "azure_action a" "sys_do cal cal1 clk a s = Some s'" "waits_right s"
  shows "az_wait s' \<noteq> Not_Waiting \<longrightarrow> azure s' = Az_Wait \<or> azure s' = Az_Connect"
proof (cases a)
  case (Azure_Round inp adcs)
  then have "sys_do cal cal1 clk (Azure_Round inp adcs) s = Some s'" using assms(2) by simp
  then show ?thesis
    using assms(3) by (auto simp: waits_right_def azure_round_def set_hub_def note_reported_def split: bind_splits prod.splits if_splits)
next
  case (Azure_Connect c)
  then show ?thesis
    using assms(2,3) setup_not_waiting [of clk c "s\<lparr>az_wait := Not_Waiting\<rparr>" s']
    by (auto simp: waits_right_def azure_connect_def split: if_splits)
qed (use assms in \<open>auto simp: waits_right_def azure_begin_def azure_close_def azure_next_def set_hub_def split: if_splits\<close>)

interpretation waits: sys_property cal cal1 clk "\<lambda>_. True" waits_right for cal cal1 clk
proof
  fix s s' :: system and a
  assume s: "waits_right s" "sys_do cal cal1 clk a s = Some s'" "sys_inv s'"
  show "waits_right s'"
  proof (cases "azure_action a")
    case True
    then show ?thesis using azure_waiting [OF True s(2,1)] s(3) by (simp add: waits_right_def)
  next
    case False
    then show ?thesis using other_waiting [OF False s(2)] other_window [OF False s(2)] s(1,3) by (simp add: waits_right_def)
  qed
qed (simp add: waits_right_def)

text \<open>A task that was woken stays so, in its wait, until it runs, whatever happens to the bits.\<close>

definition wakes :: "azure_pc \<Rightarrow> system \<Rightarrow> bool" where
  "wakes pc s \<longleftrightarrow> sys_inv s \<and> azure s = pc \<and> az_wait s = Woken"

interpretation wakes: sys_property cal cal1 clk "\<lambda>a. \<not> azure_action a" "wakes pc" for cal cal1 clk pc
  by unfold_locales (auto simp: wakes_def dest: other_waiting other_window)

lemma wait_bits_set: "wait_bits (w OR CONNECTED_BIT)" "wait_bits (w OR ESPTOUCH_DONE_BIT)"
proof -
  have "bit ((w OR CONNECTED_BIT) AND (CONNECTED_BIT OR ESPTOUCH_DONE_BIT)) 0"
    "bit ((w OR ESPTOUCH_DONE_BIT) AND (CONNECTED_BIT OR ESPTOUCH_DONE_BIT)) 1"
    by (simp_all add: CONNECTED_BIT_def ESPTOUCH_DONE_BIT_def bit_simps)
  then show "wait_bits (w OR CONNECTED_BIT)" "wait_bits (w OR ESPTOUCH_DONE_BIT)" unfolding wait_bits_def by (metis bit_0_eq bot_apply bot_bool_def)+
qed

lemma news_bits:
  assumes "network_news (Wifi_Action ok a)"
  shows "\<exists>v. sc_exec ok a (wifi_view s) = Inr v \<and> wait_bits (s_wifi_event_group (sc_wifi v))"
  using assms
  by (cases "Wifi_Action ok a" rule: network_news.cases)
    (auto simp: xEventGroupSetBits_def wait_bits_set)

lemma news_wakes:
  assumes "sys_inv s" "\<not> restarted s" "az_wait s = Blocked" "network_news a"
  shows "\<exists>s1. sys_step cal cal1 clk a s = Some s1 \<and> wakes (azure s) s1"
proof -
  obtain ok b where a: "a = Wifi_Action ok b" using assms(4) by (cases a) simp_all
  obtain v where v: "sc_exec ok b (wifi_view s) = Inr v" "wait_bits (s_wifi_event_group (sc_wifi v))"
    using news_bits assms(4) a by blast
  let ?s1 = "wake_azure (set_wifi_view v s)"
  have step: "sys_step cal cal1 clk a s = Some ?s1" using a v(1) assms(2) by (simp add: sys_step_def del: sc_exec.simps)
  moreover have "sys_inv ?s1" using sys_step_inv [OF assms(1), of cal cal1 clk a] step by simp
  moreover have "az_wait ?s1 = Woken" using v(2) assms(3) by (simp add: wake_azure_def set_wifi_view_def)
  moreover have "azure ?s1 = azure s" by (simp add: set_wifi_view_def)
  ultimately show ?thesis by (simp add: wakes_def)
qed

section \<open>Properties\<close>

text \<open>C10: The network gates the telemetry. In every state the running program reaches, if the Azure task has
  left its first wait, a message has been sent or the Wi-Fi flag is on, then the station has got an
  address before or smartconfig has reported that the link is over. A task that is blocked is so in its first
  wait or in the one before a connection; either event wakes it there for good: whatever the other tasks and
  the network do before its next step, also when the station loses its address, this step leaves the wait, the
  first one for the connections, the other for the set-up of the connection (unless a failed Wi-Fi call has
  restarted the program). And once smartconfig has reported, all waits of the task pass for good, whether or
  not the station holds an address.\<close>

theorem network_gates_telemetry:
  assumes "app_main b reset_state = Inr g" "sys_run cal cal1 clk as (sys_start junk g) = Some s" "\<not> restarted s"
  shows "(azure s \<noteq> Az_Wait \<or> sent_msgs (sys_hub s) \<noteq> [] \<or> wifi_check_connection (gw s) \<longrightarrow> (\<exists>a \<in> set as. network_news a)) \<and>
    (az_wait s = Blocked \<and> network_news a \<longrightarrow>
      (azure s = Az_Wait \<or> azure s = Az_Connect) \<and>
      (\<exists>s1. sys_step cal cal1 clk a s = Some s1 \<and>
        (\<forall>bs. list_all (\<lambda>a. \<not> azure_action a) bs \<longrightarrow>
          (\<exists>t. sys_run cal cal1 clk bs s1 = Some t \<and> azure t = azure s \<and> leaves_wait cal cal1 clk t)))) \<and>
    (\<exists>s1. sys_step cal cal1 clk (Wifi_Action ok (Sc_Status (SC_STATUS_LINK_OVER p))) s = Some s1 \<and>
      (\<forall>bs. \<exists>t. sys_run cal cal1 clk bs s1 = Some t \<and> wait_passes t \<and> leaves_wait cal cal1 clk t))"
proof (intro conjI impI)
  have inv: "sys_inv s" by (rule sys_run_from_start [OF assms(1,2)])
  have all: "list_all (\<lambda>_. True) bs" for bs :: "sys_action list" by (simp add: list_all_iff)
  show "azure s \<noteq> Az_Wait \<or> sent_msgs (sys_hub s) \<noteq> [] \<or> wifi_check_connection (gw s) \<Longrightarrow> \<exists>a \<in> set as. network_news a"
    using waits_before_network [OF assms(1,2)] by (auto simp: list_all_iff)
  have "waits_right (sys_start junk g)" using sys_start_inv [OF assms(1)] by (simp add: waits_right_def sys_start_def)
  then have "waits_right s" using waits.run_inv [OF _ all assms(2)] by blast
  then show "azure s = Az_Wait \<or> azure s = Az_Connect" if "az_wait s = Blocked \<and> network_news a"
    using that by (simp add: waits_right_def)
  have "leaves_wait cal cal1 clk t" if "wakes pc t" for t pc
    using that passes_leaves by (auto simp: wakes_def wait_passes_def)
  moreover have "azure t = pc" if "wakes pc t" for t pc using that by (simp add: wakes_def)
  ultimately show "\<exists>s1. sys_step cal cal1 clk a s = Some s1 \<and>
      (\<forall>bs. list_all (\<lambda>a. \<not> azure_action a) bs \<longrightarrow>
        (\<exists>t. sys_run cal cal1 clk bs s1 = Some t \<and> azure t = azure s \<and> leaves_wait cal cal1 clk t))"
    if "az_wait s = Blocked \<and> network_news a"
    using news_wakes [OF inv assms(3), of a cal cal1 clk] that wakes.run_ok by meson
  have "leaves_wait cal cal1 clk t" if "smartconfig_over t" for t
    using that passes_leaves [OF _ over_passes [OF that]] by (simp add: smartconfig_over_def)
  then show "\<exists>s1. sys_step cal cal1 clk (Wifi_Action ok (Sc_Status (SC_STATUS_LINK_OVER p))) s = Some s1 \<and>
      (\<forall>bs. \<exists>t. sys_run cal cal1 clk bs s1 = Some t \<and> wait_passes t \<and> leaves_wait cal cal1 clk t)"
    using link_over_step [OF inv assms(3), of cal cal1 clk ok p] finished.run_ok [OF _ all] over_passes by meson
qed

text \<open>The Azure task is blocked before a connection, as the station has lost its address; the station gets an
  address and loses it at once; the task goes on all the same.\<close>

definition blocked_example :: "sys_action list" where
  "blocked_example = [Wifi_Action (\<lambda>_. True) (Sc_Event STA_GOT_IP),
     Azure_Begin (\<lambda>_. \<lparr>messageHandle = None, messageTrackingId = 0\<rparr>),
     Wifi_Action (\<lambda>_. True) (Sc_Event STA_DISCONNECTED), Azure_Connect conn_example]"

theorem network_gates_telemetry_witness:
  "\<exists>g s s1 t t'. app_main boot_example reset_state = Inr g \<and>
     sys_run (\<lambda>x. x) (\<lambda>x. x) 80000000 blocked_example (sys_start zero_sample g) = Some s \<and> azure s = Az_Connect \<and>
     sys_step (\<lambda>x. x) (\<lambda>x. x) 80000000 (Wifi_Action (\<lambda>_. True) (Sc_Event STA_GOT_IP)) s = Some s1 \<and>
     sys_run (\<lambda>x. x) (\<lambda>x. x) 80000000 [Wifi_Action (\<lambda>_. True) (Sc_Event STA_DISCONNECTED)] s1 = Some t \<and> \<not> has_addr t \<and>
     sys_step (\<lambda>x. x) (\<lambda>x. x) 80000000 (Azure_Connect conn_example) t = Some t' \<and> azure t' = Az_Loop"
proof -
  let ?a = "Wifi_Action (\<lambda>_. True) (Sc_Event STA_GOT_IP)"
  let ?b = "Wifi_Action (\<lambda>_. True) (Sc_Event STA_DISCONNECTED)"
  obtain g where g: "app_main boot_example reset_state = Inr g" "s_wifi_event_group (wifi g) = 0"
    "tasks g = [Led_Ctrl_Task, Azure_Task, Adc_Task, Rtc_Time_Task, Timer_Evt_Task]"
    using boot_example_ok by blast
  obtain s where s: "sys_run (\<lambda>x. x) (\<lambda>x. x) 80000000 blocked_example (sys_start zero_sample g) = Some s"
    using sys_run_inv [OF sys_start_inv [OF g(1)]] by blast
  have blocked: "\<not> restarted s" "az_wait s = Blocked" "azure s = Az_Connect" "azure_runs s"
    using s g(2,3) by (auto simp: blocked_example_def first_steps)
  have "list_all (\<lambda>a. \<not> azure_action a) [?b]" by simp
  then obtain s1 t where 1: "sys_step (\<lambda>x. x) (\<lambda>x. x) 80000000 ?a s = Some s1" "sys_run (\<lambda>x. x) (\<lambda>x. x) 80000000 [?b] s1 = Some t"
    "azure t = Az_Connect" "leaves_wait (\<lambda>x. x) (\<lambda>x. x) 80000000 t"
    using network_gates_telemetry [OF g(1) s blocked(1), of ?a] blocked(2,3) network_news.simps(1) by metis
  have "azure_runs t \<and> \<not> has_addr t"
    using 1(1,2) blocked by (auto simp: sys_step_def wifi_view_def set_wifi_view_def azure_runs_def has_task_def)
  moreover have "platform_ok conn_example \<and> client_ok conn_example \<and> callback_ok conn_example" by (simp add: conn_example_def)
  ultimately show ?thesis using g(1) s blocked(3) 1 unfolding leaves_wait_def by blast
qed

end
