(* ===== verification/System_Time.thy ===== *)
theory System_Time
  imports System_Command
begin

text \<open>
  The running program with the time of its timer. The steps of \<open>System_Run\<close> let the alarm come whenever it
  is armed; here it comes only when the counter has reached the alarm's value, as the hardware raises it.
  Every timed run is a run of the system, so its theorems hold; and a test of the light now has a length.
\<close>

section \<open>Timed runs\<close>

definition timer0 :: "el_state \<Rightarrow> hw_timer" where
  "timer0 l = hw_timers (tg l) ! 0"

definition alarm_due :: "system \<Rightarrow> bool" where
  "alarm_due s \<longleftrightarrow> (let t = timer0 (sys_light s) in alarm_value t \<le> Timer_Group.counter t)"

definition timed_step :: "(u32 \<Rightarrow> u32) \<Rightarrow> (u32 \<Rightarrow> u32) \<Rightarrow> nat \<Rightarrow> sys_action \<Rightarrow> system \<Rightarrow> system option" where
  "timed_step cal cal1 clk a s = (if a = Timer_Alarm \<and> \<not> alarm_due s then Some s else sys_step cal cal1 clk a s)"

abbreviation timed_run :: "(u32 \<Rightarrow> u32) \<Rightarrow> (u32 \<Rightarrow> u32) \<Rightarrow> nat \<Rightarrow> sys_action list \<Rightarrow> system \<Rightarrow> system option" where
  "timed_run cal cal1 clk \<equiv> run_steps (timed_step cal cal1 clk)"

lemma timed_run_is_run: "\<exists>bs. subseq bs as \<and> timed_run cal cal1 clk as s = sys_run cal cal1 clk bs s"
proof (induction as arbitrary: s)
  case (Cons a as)
  show ?case
  proof (cases "a = Timer_Alarm \<and> \<not> alarm_due s")
    case True
    then have "timed_run cal cal1 clk (a # as) s = timed_run cal cal1 clk as s" by (simp add: timed_step_def)
    then show ?thesis using Cons.IH [of s] by (metis list_emb_Cons)
  next
    case False
    then have step: "timed_step cal cal1 clk a s = sys_step cal cal1 clk a s" by (auto simp: timed_step_def)
    show ?thesis
    proof (cases "sys_step cal cal1 clk a s")
      case None
      then show ?thesis using step by (intro exI [of _ "[a]"]) auto
    next
      case (Some s1)
      obtain bs where "subseq bs as" "timed_run cal cal1 clk as s1 = sys_run cal cal1 clk bs s1" using Cons.IH by blast
      then show ?thesis using Some step by (intro exI [of _ "a # bs"]) simp
    qed
  qed
qed (intro exI [of _ "[]"], simp)

section \<open>A stopped timer is latched\<close>

text \<open>Whenever the timer stands still its latched value is the counter's: the interrupt latches it, and
  nothing but the trigger starts it again.\<close>

definition latched_timer :: "hw_timer \<Rightarrow> bool" where
  "latched_timer t \<longleftrightarrow> counter_en t \<or> cnt_value t = Timer_Group.counter t"

definition latched :: "el_state \<Rightarrow> bool" where
  "latched l \<longleftrightarrow> latched_timer (timer0 l)"

lemmas latched_defs = latched_def latched_timer_def

lemma hw_update_latched: "latched_timer (hw_update t)"
  by (simp add: latched_timer_def) (simp add: hw_update_def)

text \<open>The interrupt and the event task.\<close>

lemma isr_stops:
  assumes "el_inv l" "el_isr clk l = Some l'"
  shows "latched l \<Longrightarrow> latched l'" and "Timer_Group.counter (timer0 l') = Timer_Group.counter (timer0 l)"
    and "el_armed l \<Longrightarrow> \<not> counter_en (timer0 l')"
  using isr_ok [OF assms(1), of clk] assms(2)
  by (cases "el_armed l"; auto simp: latched_defs timer0_def el_isr_def)+

lemma evt_timer: "el_inv l \<Longrightarrow> timer0 (el_evt l) = timer0 l \<or> timer0 (el_evt l) = hw_update (timer0 l)"
  by (auto simp: timer0_def el_evt_def evt_step_def evt_time_def evt_flag_def get_cv_id_def el_inv_def tg_inv_def nth_list_update
      split: evt_pc.splits list.splits)

lemma evt_latched: "el_inv l \<Longrightarrow> latched l \<Longrightarrow> latched (el_evt l)"
  using evt_timer [of l] hw_update_latched by (auto simp: latched_def)

lemma button_on_timer:
  assumes "el_inv l" "app_emergency_light_test_button clk True l = Some l'"
  shows "alarm_value (timer0 l') = cnt_value (timer0 l) + timer_ticks clk (dbl_of_nat TIMER_EL_TEST_TIMEOUT_SEC)"
    and "Timer_Group.counter (timer0 l') = Timer_Group.counter (timer0 l)" "cnt_value (timer0 l') = cnt_value (timer0 l)"
    and "counter_en (timer0 l')"
  using trigger_effect [of "tg l" clk "dbl_of_nat TIMER_EL_TEST_TIMEOUT_SEC"] assms
  by (auto simp: el_defs el_inv_def timer0_def)

lemma elapse_timer:
  assumes "el_inv l"
  shows "timer0 (l\<lparr>tg := hw_elapse n (tg l)\<rparr>) =
    (if counter_en (timer0 l) then (timer0 l)\<lparr>Timer_Group.counter := Timer_Group.counter (timer0 l) + n\<rparr> else timer0 l)"
proof -
  have "0 < length (hw_timers (tg l))" using assms by (simp add: el_inv_def tg_inv_def)
  then show ?thesis by (simp add: timer0_def hw_elapse_def)
qed

lemma values_counter [simp]: "cnt_value (t\<lparr>Timer_Group.counter := c\<rparr>) = cnt_value t"
  "alarm_value (t\<lparr>Timer_Group.counter := c\<rparr>) = alarm_value t"
  by (simp_all add: cnt_value_def alarm_value_def)

lemma same_tg: "tg l' = tg l \<Longrightarrow> timer0 l' = timer0 l"
  by (simp add: timer0_def)

lemma button_off_timer: "el_inv l \<Longrightarrow> app_emergency_light_test_button clk False l = Some l' \<Longrightarrow> timer0 l' = timer0 l"
  using button_off_ok [of l clk] by (metis option.inject same_tg)

lemma button_off_latched:
  "el_inv l \<Longrightarrow> app_emergency_light_test_button clk False l = Some l' \<Longrightarrow> latched l' = latched l"
  using button_off_timer by (simp add: latched_def)

interpretation latch: light_order clk "\<lambda>_. True" "\<lambda>_. True" "\<lambda>l l'. latched l \<longrightarrow> latched l'" for clk
proof
  fix l l' :: el_state
  assume "el_inv l" "app_emergency_light_test_button clk True l = Some l'"
  then show "latched l \<longrightarrow> latched l'" using button_on_timer by (simp add: latched_defs)
next
  fix l l' :: el_state and k b1 b2 b3 levels k'
  assume "led_flash_lights k b1 b2 b3 l = (levels, k', l')"
  then show "latched l \<longrightarrow> latched l'" using same_tg [OF lights_ok(1)] by (simp add: latched_defs)
next
  fix l :: el_state and n
  assume "el_inv l"
  then show "latched l \<longrightarrow> latched (l\<lparr>tg := hw_elapse n (tg l)\<rparr>)" by (simp add: latched_defs elapse_timer)
next
  fix l l' :: el_state
  assume "el_inv l" "el_isr clk l = Some l'"
  then show "latched l \<longrightarrow> latched l'" using isr_stops(1) by blast
next
  fix l :: el_state
  assume "el_inv l"
  then show "latched l \<longrightarrow> latched (el_evt l)" using evt_latched by blast
qed (auto simp: button_off_latched)

lemma reached_latched:
  assumes "app_main b reset_state = Inr g" "sys_run cal cal1 clk as (sys_start junk g) = Some s"
  shows "latched (sys_light s)"
proof -
  have "latched (sys_light (sys_start junk g))"
    using sys_start_armed(1) [OF assms(1)] by (simp add: alarm_armed_def el_armed_def latched_defs timer0_def Let_def)
  then show ?thesis
    using latch.sys_run_rel [OF sys_start_inv [OF assms(1)], of as cal cal1 clk junk] assms(2) by (auto simp: list_all_iff)
qed

section \<open>The length of a test\<close>

text \<open>Before the last command of a round the counter and its latch stay: no time passes within a step.\<close>

definition same_clock :: "el_state \<Rightarrow> el_state \<Rightarrow> bool" where
  "same_clock l l' \<longleftrightarrow> Timer_Group.counter (timer0 l') = Timer_Group.counter (timer0 l) \<and>
     cnt_value (timer0 l') = cnt_value (timer0 l)"

lemma same_timer_clock: "timer0 l' = timer0 l \<Longrightarrow> same_clock l l'"
  by (simp add: same_clock_def)

text \<open>The actions of the light's own but time, the alarm, the event task's steps, and the LED task's act on the end
  of a test.\<close>

definition no_time :: "sys_action \<Rightarrow> bool" where
  "no_time a \<longleftrightarrow> a \<noteq> Timer_Alarm \<and> a \<noteq> Evt_Step \<and> a \<noteq> Led_Act \<and> (\<forall>n. a \<noteq> Timer_Ticks n)"

interpretation frozen: light_order clk "\<lambda>_. True" no_time same_clock for clk
proof
  fix l l' :: el_state
  assume "el_inv l" "app_emergency_light_test_button clk True l = Some l'"
  then show "same_clock l l'" by (simp only: same_clock_def button_on_timer)
next
  fix l l' :: el_state
  assume "el_inv l" "app_emergency_light_test_button clk False l = Some l'"
  then show "same_clock l l'" by (rule same_timer_clock [OF button_off_timer])
next
  fix l l' :: el_state and k b1 b2 b3 levels k'
  assume "led_flash_lights k b1 b2 b3 l = (levels, k', l')"
  then show "same_clock l l'" by (rule same_timer_clock [OF same_tg [OF lights_ok(1)]])
qed (simp_all add: same_clock_def no_time_def)

text \<open>A test that began when the counter was \<open>c\<close>; the command again does not move its alarm.\<close>

definition testing :: "u64 \<Rightarrow> el_state \<Rightarrow> bool" where
  "testing c l \<longleftrightarrow> under_test l \<and> cnt_value (timer0 l) = c \<and> alarm_value (timer0 l) = c + 300000000"

lemma button_on_testing:
  assumes "el_inv l" "app_emergency_light_test_button 80000000 True l = Some l'" "alarm_enabled l" "evt_pending (tg l) = []"
  shows "testing (cnt_value (timer0 l)) l'"
proof -
  have "alarm_value (timer0 l') = cnt_value (timer0 l) + 300000000"
    using button_on_timer(1) [OF assms(1,2)] by (simp only: timer_ticks_60 TIMER_EL_TEST_TIMEOUT_SEC_def)
  moreover have "under_test l'" using button_on_test [OF assms(1,2)] assms(3,4) by (simp only: under_test_def simp_thms)
  ultimately show ?thesis using button_on_timer(3) [OF assms(1,2)] by (simp only: testing_def simp_thms)
qed

definition begun_order :: "u64 \<Rightarrow> el_state \<Rightarrow> el_state \<Rightarrow> bool" where
  "begun_order c l l' \<longleftrightarrow> (testing c l \<longrightarrow> testing c l' \<and> same_clock l l')"

interpretation begun: light_order 80000000 not_off no_time "begun_order c" for c
proof
  fix l l' :: el_state
  assume l: "el_inv l" "app_emergency_light_test_button 80000000 True l = Some l'"
  have "testing c l'" if "testing c l"
  proof -
    have "alarm_enabled l" "evt_pending (tg l) = []" "cnt_value (timer0 l) = c"
      using that by (simp_all only: testing_def under_test_def armed_enabled)
    with button_on_testing [OF l] show ?thesis by (simp only:)
  qed
  then show "begun_order c l l'" using frozen.test_on [OF _ l] by (simp add: begun_order_def)
next
  fix l l' :: el_state and k b1 b2 b3 levels k'
  assume l: "el_inv l" "led_flash_lights k b1 b2 b3 l = (levels, k', l')"
  have "timer0 l' = timer0 l" by (rule same_tg [OF lights_ok(1) [OF l(2)]])
  then show "begun_order c l l'"
    using test.lights [OF l] frozen.lights [OF l] unfolding begun_order_def testing_def by argo
qed (auto simp: not_off_def begun_order_def same_clock_def no_time_def)

fun ticks_of :: "sys_action \<Rightarrow> nat" where
  "ticks_of (Timer_Ticks n) = unat n"
| "ticks_of _ = 0"

definition elapsed :: "sys_action list \<Rightarrow> nat" where
  "elapsed as = sum_list (map ticks_of as)"

text \<open>The test began at \<open>c\<close> and \<open>k\<close> ticks have passed; a program that is restarting stands still.\<close>

definition test_clock :: "u64 \<Rightarrow> nat \<Rightarrow> system \<Rightarrow> bool" where
  "test_clock c k s \<longleftrightarrow> sys_inv s \<and> \<not> led_due s \<and> testing c (sys_light s) \<and>
     unat (Timer_Group.counter (timer0 (sys_light s))) \<le> unat c + k \<and>
     (restarted s \<or> unat (Timer_Group.counter (timer0 (sys_light s))) = unat c + k)"

abbreviation obliging :: "sys_action \<Rightarrow> bool" where
  "obliging \<equiv> light_ok not_off (\<lambda>_. True)"

lemma alarm_reached:
  assumes "testing c (sys_light s)" "unat c + 300000000 < 2 ^ 64"
  shows "alarm_due s \<longleftrightarrow> unat c + 300000000 \<le> unat (Timer_Group.counter (timer0 (sys_light s)))"
proof -
  have "unat (c + 300000000) = unat c + 300000000" using assms(2) by (simp add: unat_word_ariths)
  moreover have "alarm_value (timer0 (sys_light s)) = c + 300000000" using assms(1) by (simp only: testing_def)
  ultimately show ?thesis by (simp only: alarm_due_def Let_def word_le_nat_alt)
qed

lemma clock_not_due:
  assumes "test_clock c k s" "k < 300000000" "unat c + 300000000 < 2 ^ 64"
  shows "\<not> alarm_due s"
proof -
  have "testing c (sys_light s)" "unat (Timer_Group.counter (timer0 (sys_light s))) \<le> unat c + k"
    using assms(1) by (simp_all only: test_clock_def)
  then show ?thesis using alarm_reached assms(2,3) by simp
qed

lemma clock_due:
  assumes "test_clock c k s" "\<not> restarted s" "300000000 \<le> k" "unat c + 300000000 < 2 ^ 64"
  shows "alarm_due s"
proof -
  have "testing c (sys_light s)" "unat (Timer_Group.counter (timer0 (sys_light s))) = unat c + k"
    using assms(1,2) by (simp_all only: test_clock_def simp_thms)
  then show ?thesis using alarm_reached assms(3,4) by simp
qed

text \<open>The actions but time and the alarm.\<close>

lemma obliging_cases:
  assumes "obliging a"
  obtains n where "a = Timer_Ticks n" | "a = Timer_Alarm" | "a = Led_Act" | "a = Evt_Step" | "light_ok not_off no_time a" "ticks_of a = 0" "a \<noteq> Timer_Alarm"
  using assms by (cases a) (auto simp: no_time_def)

lemma ticks_clock:
  assumes "test_clock c k s" "unat c + k + unat n < 2 ^ 64"
  shows "\<exists>s'. sys_step cal cal1 clk (Timer_Ticks n) s = Some s' \<and> test_clock c (k + unat n) s'"
proof (cases "restarted s")
  case True
  then show ?thesis using assms(1) by (simp add: sys_step_def test_clock_def)
next
  case False
  let ?s = "set_light ((sys_light s)\<lparr>tg := hw_elapse n (tg (sys_light s))\<rparr>) s"
  have now: "sys_inv s" "testing c (sys_light s)" "unat (Timer_Group.counter (timer0 (sys_light s))) = unat c + k"
    using assms(1) False by (simp_all only: test_clock_def simp_thms)
  have el: "el_inv (sys_light s)" by (rule sys_inv_light_ok [OF now(1)])
  have step: "sys_step cal cal1 clk (Timer_Ticks n) s = Some ?s" using False by (simp add: sys_step_def)
  then have inv: "sys_inv ?s" using sys_step_inv [OF now(1), of cal cal1 clk "Timer_Ticks n"] by simp
  have light: "sys_light ?s = (sys_light s)\<lparr>tg := hw_elapse n (tg (sys_light s))\<rparr>" by simp
  have "counter_en (timer0 (sys_light s))" using now(2) by (simp only: testing_def under_test_def armed_enabled timer0_def)
  then have t: "timer0 (sys_light ?s) =
      (timer0 (sys_light s))\<lparr>Timer_Group.counter := Timer_Group.counter (timer0 (sys_light s)) + n\<rparr>"
    unfolding light elapse_timer [OF el] by simp
  have "under_test (sys_light ?s)" using test.ticks [OF _ el] now(2) unfolding light testing_def by blast
  then have "testing c (sys_light ?s)" using now(2) unfolding testing_def t values_counter by blast
  moreover have "unat (Timer_Group.counter (timer0 (sys_light ?s))) = unat c + (k + unat n)"
    using now(3) assms(2) unfolding t by (simp add: unat_word_ariths)
  moreover have "\<not> led_due ?s"
    using due_after_step [OF _ _ step] assms(1) by (simp only: test_clock_def testing_def under_test_def simp_thms)
  ultimately show ?thesis using step inv by (simp only: test_clock_def option.inject ex_simps simp_thms order_refl)
qed

lemma timed_step_clock:
  assumes "test_clock c k s" "obliging a" "unat c + k + ticks_of a < 2 ^ 64" "unat c + 300000000 < 2 ^ 64"
    and "a = Timer_Alarm \<Longrightarrow> k < 300000000"
  shows "\<exists>s'. timed_step cal cal1 80000000 a s = Some s' \<and> test_clock c (k + ticks_of a) s'"
  using assms(2)
proof (cases rule: obliging_cases)
  case (1 n)
  then show ?thesis using ticks_clock [of c k s n] assms(1,3) by (simp add: timed_step_def)
next
  case 2
  then have "\<not> alarm_due s" using clock_not_due [OF assms(1)] assms(4,5) by simp
  then show ?thesis using 2 assms(1) by (simp add: timed_step_def)
next
  case 3
  then have "timed_step cal cal1 80000000 a s = Some s"
    using assms(1) by (simp add: timed_step_def sys_step_def led_act_def test_clock_def)
  then show ?thesis using 3 assms(1) by simp
next
  case 4
  have "evt_pending (tg (sys_light s)) = []" using assms(1) by (simp only: test_clock_def testing_def under_test_def)
  then have "sys_do cal cal1 80000000 Evt_Step s = Some s" by (simp add: evt_idle set_light_same del: sys_frame)
  then show ?thesis using 4 assms(1) by (simp add: timed_step_def sys_step_def)
next
  case 5
  have now: "sys_inv s" "testing c (sys_light s)" using assms(1) by (simp_all only: test_clock_def)
  obtain s' where s': "sys_step cal cal1 80000000 a s = Some s'" "sys_inv s'" "begun_order c (sys_light s) (sys_light s')"
    using begun.sys_step_rel [OF now(1) 5(1)] by blast
  have "testing c (sys_light s')" "same_clock (sys_light s) (sys_light s')"
    using s'(3) now(2) by (simp_all only: begun_order_def simp_thms)
  moreover have "restarted s \<Longrightarrow> restarted s'" using s'(1) by (auto simp: sys_step_def)
  moreover have "\<not> led_due s'"
    using due_after_step [OF _ _ s'(1)] assms(1) by (simp only: test_clock_def testing_def under_test_def simp_thms)
  ultimately have "test_clock c (k + ticks_of a) s'"
    using assms(1) s'(2) 5(2) unfolding test_clock_def same_clock_def by auto
  then show ?thesis using s'(1) 5(3) by (simp add: timed_step_def)
qed

lemma timed_run_clock:
  "test_clock c k s \<Longrightarrow> list_all obliging as \<Longrightarrow> unat c + k + elapsed as < 2 ^ 64 \<Longrightarrow> unat c + 300000000 < 2 ^ 64 \<Longrightarrow>
   k + elapsed as < 300000000 \<or> Timer_Alarm \<notin> set as \<Longrightarrow>
   \<exists>s'. timed_run cal cal1 80000000 as s = Some s' \<and> test_clock c (k + elapsed as) s'"
proof (induction as arbitrary: k s)
  case (Cons a as)
  have k: "k + ticks_of a + elapsed as = k + elapsed (a # as)" by (simp add: elapsed_def)
  obtain s1 where 1: "timed_step cal cal1 80000000 a s = Some s1" "test_clock c (k + ticks_of a) s1"
    using timed_step_clock [OF Cons.prems(1), of a cal cal1] Cons.prems(2-5) by (auto simp: elapsed_def)
  obtain s' where "timed_run cal cal1 80000000 as s1 = Some s'" "test_clock c (k + ticks_of a + elapsed as) s'"
    using Cons.IH [OF 1(2)] Cons.prems(2-5) k by auto
  then show ?case using 1(1) k by auto
qed (simp add: elapsed_def)

lemma round_starts_clock:
  assumes "sys_inv s" "alarm_enabled (sys_light s)" "latched (sys_light s)" "azure_runs s" "azure s = Az_Loop" "\<not> led_due s"
    and "\<not> counter_en (timer0 (sys_light s))" "in_events inp = es @ [Receive (Some ''TEST ON'')]"
    and "evt_pending (tg (sys_light s)) = []"
  shows "\<exists>s'. sys_step cal cal1 80000000 (Azure_Round inp adcs) s = Some s' \<and>
    test_clock (Timer_Group.counter (timer0 (sys_light s))) 0 s'"
proof -
  obtain outs go h s' where s': "sys_step cal cal1 80000000 (Azure_Round inp adcs) s = Some s'" "sys_inv s'"
    "hub_round 80000000 (during outs inp) (sys_hub s) = Some (go, h)" "sys_light s' = light_state h" "hub_inv (sys_hub s)"
    "led_due s' = led_due s"
    using sys_round [OF assms(1,4,5)] .
  have ev: "in_events (during outs inp) = es @ [Receive (Some ''TEST ON'')]" using assms(8) by simp
  obtain h1 h2 where 1: "hub_inv h1" "light_state h1 = sys_light s" "IoTHubClient_LL_DoWork 80000000 es h1 = Some h2" "hub_inv h2"
    "app_emergency_light_test_button 80000000 True (light_state h2) = Some (light_state h)"
    using round_last_on [OF s'(5) ev s'(3) during_simps(7)] .
  have el: "el_inv (light_state h2)" using 1(4) by (simp only: hub_inv_def)
  have all: "list_all (\<lambda>_. True) es" by (simp add: list_all_iff)
  have "same_clock (sys_light s) (light_state h2)" "alarm_enabled (light_state h2)" "evt_pending (tg (light_state h2)) = []"
    using frozen.dowork_rel [OF 1(1) all 1(3)] armed.dowork_rel [OF 1(1) all 1(3)]
      pending_same [OF eventless.dowork_rel [OF 1(1) all 1(3)]] assms(2,9) 1(2) by simp_all
  moreover have "cnt_value (timer0 (sys_light s)) = Timer_Group.counter (timer0 (sys_light s))"
    using assms(3,7) by (simp only: latched_defs simp_thms)
  ultimately have "testing (Timer_Group.counter (timer0 (sys_light s))) (light_state h)"
    "Timer_Group.counter (timer0 (light_state h)) = Timer_Group.counter (timer0 (sys_light s))"
    using button_on_testing [OF el 1(5)] button_on_timer(2) [OF el 1(5)] by (simp_all only: same_clock_def)
  then show ?thesis using s'(1,2,4,6) assms(6) by (simp only: test_clock_def option.inject ex_simps simp_thms add_0_right order_refl)
qed

section \<open>Properties\<close>

text \<open>C7: A test lasts sixty seconds. Let the telemetry loop of any state the program reaches receive \<^verbatim>\<open>TEST ON\<close>
  as its last event while the timer stands still, no event of an earlier alarm is left to be handled and the LED
  task is not just about to end the test before. Let the program go on in any order of timed steps, in which the
  interrupt comes only when the hardware raises it, and which deliver no \<^verbatim>\<open>TEST OFF\<close>. As long as fewer than
  300,000,000 ticks have passed (60 s at 80 MHz divided by 16), the light is on and the alarm is not due, also
  when \<^verbatim>\<open>TEST ON\<close> comes again. Once they have passed and the alarm has not been taken, it is armed and due,
  unless a failed Wi-Fi call has restarted the program. The 64-bit counter does not overflow in the run.\<close>

theorem test_lasts_60_seconds_in_program:
  assumes "app_main b reset_state = Inr g" "sys_run cal cal1 80000000 as (sys_start junk g) = Some s"
    and "azure_runs s" "azure s = Az_Loop" "\<not> led_due s" "in_events inp = es @ [Receive (Some ''TEST ON'')]"
    and "\<not> counter_en (timer0 (sys_light s))" "evt_pending (tg (sys_light s)) = []" "list_all obliging bs"
    and "unat (Timer_Group.counter (timer0 (sys_light s))) + elapsed bs + 300000000 < 2 ^ 64"
    and "elapsed bs < 300000000 \<or> Timer_Alarm \<notin> set bs"
  shows "\<exists>s1 s'. sys_step cal cal1 80000000 (Azure_Round inp adcs) s = Some s1 \<and> timed_run cal cal1 80000000 bs s1 = Some s' \<and>
    gpio_out (sys_light s') GPIO_OUTPUT_IO_TEST_BUTTON = 1 \<and> app_emergency_light_read_status (sys_light s') = 1 \<and>
    alarm_armed s' \<and> (restarted s' \<or> (alarm_due s' \<longleftrightarrow> 300000000 \<le> elapsed bs))"
proof -
  let ?c = "Timer_Group.counter (timer0 (sys_light s))"
  have s: "sys_inv s" "alarm_enabled (sys_light s)" using reached_enabled [OF assms(1,2)] by simp_all
  obtain s1 where 1: "sys_step cal cal1 80000000 (Azure_Round inp adcs) s = Some s1" "test_clock ?c 0 s1"
    using round_starts_clock [OF s reached_latched [OF assms(1,2)] assms(3-5,7,6,8)] by blast
  have room: "unat ?c + 0 + elapsed bs < 2 ^ 64" "unat ?c + 300000000 < 2 ^ 64" "0 + elapsed bs < 300000000 \<or> Timer_Alarm \<notin> set bs"
    using assms(10,11) by simp_all
  obtain s' where s': "timed_run cal cal1 80000000 bs s1 = Some s'" "test_clock ?c (elapsed bs) s'"
    using timed_run_clock [OF 1(2) assms(9) room] by auto
  have "restarted s' \<or> (alarm_due s' \<longleftrightarrow> 300000000 \<le> elapsed bs)"
    using clock_not_due [OF s'(2) _ room(2)] clock_due [OF s'(2) _ _ room(2)] not_le by blast
  moreover have "sys_inv s'" "under_test (sys_light s')" using s'(2) by (simp_all only: test_clock_def testing_def)
  ultimately show ?thesis
    using 1(1) s'(1) el_lit_status [OF sys_inv_light_ok [of s']]
    by (simp add: under_test_def el_lit_def alarm_armed_def app_emergency_light_read_status_def)
qed

text \<open>For the instance: the alarm of the start comes after the connection, and the event task handles it; the command
  starts the timer again.\<close>

lemma start_counter:
  assumes "app_main b reset_state = Inr g"
  shows "Timer_Group.counter (timer0 (sys_light (sys_start junk g))) = 0"
proof -
  obtain t where "booted b t g" "app_timer (clk_base b) tg_reset = Some t" using booted_start [OF assms] .
  then show ?thesis
    using app_timer_effect [OF tg_inv_reset, of "clk_base b"] by (auto simp: timer0_def sys_start_def booted_def)
qed

lemma evt_keeps_timer: "el_inv l \<Longrightarrow> counter_en (timer0 (el_evt l)) = counter_en (timer0 l) \<and>
    Timer_Group.counter (timer0 (el_evt l)) = Timer_Group.counter (timer0 l)"
  using evt_timer [of l] by (auto simp: hw_update_def)

text \<open>The interrupt and a round of the event task, from a light without pending events.\<close>

lemma alarm_handled:
  assumes "el_inv l" "el_armed l" "evt_pending (tg l) = []"
  obtains l' where "el_isr clk l = Some l'" "el_inv l'" "evt_pending (tg (el_evt (el_evt (el_evt l')))) = []"
    "\<not> counter_en (timer0 (el_evt (el_evt (el_evt l'))))"
    "Timer_Group.counter (timer0 (el_evt (el_evt (el_evt l')))) = Timer_Group.counter (timer0 l)"
proof -
  have idle: "evt_task (tg l) = Ev_Receive" "timer_queue (tg l) = []" using assms(3) by (simp_all add: evt_pending_idle)
  obtain l' where l': "el_isr clk l = Some l'" "el_inv l'" "length (timer_queue (tg l')) = 1" "evt_task (tg l') = Ev_Receive"
    using isr_ok [OF assms(1), of clk] assms(2) idle by auto
  have inv: "el_inv (el_evt l')" "el_inv (el_evt (el_evt l'))" using evt_ok(1) l'(2) by simp_all
  have stop: "\<not> counter_en (timer0 l')" "Timer_Group.counter (timer0 l') = Timer_Group.counter (timer0 l)"
    using isr_stops [OF assms(1) l'(1)] assms(2) by simp_all
  obtain e where q: "timer_queue (tg l') = [e]" using l'(3) by (auto simp: length_Suc_conv)
  have "evt_pending (tg (el_evt (el_evt (el_evt l')))) = []"
    using l'(4) q by (simp add: el_evt_def evt_step_def evt_time_def evt_flag_def evt_pending_idle)
  then show ?thesis
    using that [OF l'(1,2)] stop evt_keeps_timer [OF l'(2)] evt_keeps_timer [OF inv(1)] evt_keeps_timer [OF inv(2)] by simp
qed

abbreviation alarm_and_events :: "sys_action list" where
  "alarm_and_events \<equiv> [Timer_Alarm, Evt_Step, Evt_Step, Evt_Step]"

lemma stopped_reached:
  obtains g s where "app_main boot_example reset_state = Inr g"
    "sys_run (\<lambda>x. x) (\<lambda>x. x) 80000000 (to_inner_loop @ alarm_and_events) (sys_start zero_sample g) = Some s" "azure_runs s"
    "azure s = Az_Loop" "\<not> led_due s" "\<not> counter_en (timer0 (sys_light s))"
    "Timer_Group.counter (timer0 (sys_light s)) = 0" "evt_pending (tg (sys_light s)) = []"
proof -
  obtain g s where g: "app_main boot_example reset_state = Inr g"
    and s: "sys_run (\<lambda>x. x) (\<lambda>x. x) 80000000 to_inner_loop (sys_start zero_sample g) = Some s"
    "azure_runs s" "azure s = Az_Loop" "\<not> led_due s" "sys_light s = sys_light (sys_start zero_sample g)"
    "tasks (gw s) = [Led_Ctrl_Task, Azure_Task, Adc_Task, Rtc_Time_Task, Timer_Evt_Task]"
    by (rule inner_loop_reached)
  have el: "el_inv (sys_light s)" by (rule sys_inv_light_ok [OF sys_run_from_start [OF g s(1)]])
  have "el_armed (sys_light s)" "evt_pending (tg (sys_light s)) = []"
    using sys_start_armed [OF g] s(5) by (simp_all add: alarm_armed_def)
  then obtain l where l: "el_isr 80000000 (sys_light s) = Some l" "el_inv l" "evt_pending (tg (el_evt (el_evt (el_evt l)))) = []"
    "\<not> counter_en (timer0 (el_evt (el_evt (el_evt l))))"
    "Timer_Group.counter (timer0 (el_evt (el_evt (el_evt l)))) = Timer_Group.counter (timer0 (sys_light s))"
    using alarm_handled [OF el] by metis
  let ?s = "set_light (el_evt (el_evt (el_evt l))) s"
  have "sys_run (\<lambda>x. x) (\<lambda>x. x) 80000000 alarm_and_events s = Some ?s"
    using l(1) s(2,6) by (simp add: sys_step_def timer_alarm_def azure_runs_def has_task_def set_hub_def)
  then have run: "sys_run (\<lambda>x. x) (\<lambda>x. x) 80000000 (to_inner_loop @ alarm_and_events) (sys_start zero_sample g) = Some ?s"
    using s(1) by (simp only: run_steps_append Option.bind.bind_lunit)
  have "azure_runs ?s" "azure ?s = Az_Loop" using s(2,3) by simp_all
  moreover have "\<not> led_due ?s" using s(4) by (simp add: set_hub_def)
  moreover have "Timer_Group.counter (timer0 (sys_light ?s)) = 0" using l(5) s(5) start_counter [OF g] by simp
  ultimately show ?thesis using that [OF g run] l(3,4) by simp
qed

theorem test_lasts_60_seconds_in_program_witness:
  "\<exists>g s s1 s'. app_main boot_example reset_state = Inr g \<and>
     sys_run (\<lambda>x. x) (\<lambda>x. x) 80000000 (to_inner_loop @ [Timer_Alarm, Evt_Step, Evt_Step, Evt_Step]) (sys_start zero_sample g) = Some s \<and>
     sys_step (\<lambda>x. x) (\<lambda>x. x) 80000000 (Azure_Round test_on_example []) s = Some s1 \<and>
     timed_run (\<lambda>x. x) (\<lambda>x. x) 80000000 [Led_Check True, Timer_Ticks 299999999, Timer_Alarm, Evt_Step, Led_Check True, Led_Act] s1 = Some s' \<and>
     app_emergency_light_read_status (sys_light s') = 1"
proof -
  obtain g s where g: "app_main boot_example reset_state = Inr g"
    and s: "sys_run (\<lambda>x. x) (\<lambda>x. x) 80000000 (to_inner_loop @ alarm_and_events) (sys_start zero_sample g) = Some s" "azure_runs s"
    "azure s = Az_Loop" "\<not> led_due s" "\<not> counter_en (timer0 (sys_light s))"
    "Timer_Group.counter (timer0 (sys_light s)) = 0" "evt_pending (tg (sys_light s)) = []"
    by (rule stopped_reached)
  let ?bs = "[Led_Check True, Timer_Ticks 299999999, Timer_Alarm, Evt_Step, Led_Check True, Led_Act]"
  have bs: "list_all obliging ?bs" "unat (Timer_Group.counter (timer0 (sys_light s))) + elapsed ?bs + 300000000 < 2 ^ 64"
    "elapsed ?bs < 300000000 \<or> Timer_Alarm \<notin> set ?bs"
    by (simp_all add: elapsed_def s(6))
  show ?thesis
    using test_lasts_60_seconds_in_program [OF g s(1-4) test_on_example_events s(5,7) bs] g s(1) by blast
qed

end
