(* ===== verification/El_Interleaving.thy ===== *)
theory El_Interleaving
  imports Gpio_Ctrl
begin

text \<open>
  The emergency light at the granularity of statements. \<open>app_emergency_light_test_button\<close> runs in
  the Azure task, \<open>app_el_test_manager\<close> in the LED task; both tasks have priority 5, and no lock
  orders them. The relation \<open>race_step\<close> lets each make its next statement, in any order; it covers
  the time between a command and the timer's alarm, so the timer does not act.
\<close>

section \<open>The two tasks\<close>

text \<open>\<open>eve_timer_trigger\<close> without its last statement, which clears \<open>end_of_test\<close>.\<close>

definition trigger_arm :: "nat \<Rightarrow> dbl \<Rightarrow> tg_state \<Rightarrow> tg_state option" where
  "trigger_arm base_clk alarm_time s = do {
     t \<leftarrow> arr_get (hw_timers s) 0;
     let v = cnt_value t;
     let s = s\<lparr>int_st := and (int_st s) (not 1)\<rparr>;
     let t = (set_alarm (v + timer_ticks base_clk alarm_time) t)\<lparr>counter_en := True\<rparr>;
     put_timer 0 t s
   }"

definition clear_end_of_test :: "tg_state \<Rightarrow> tg_state" where
  "clear_end_of_test t = t\<lparr>end_of_test := False\<rparr>"

lemma trigger_in_two_steps:
  "eve_timer_trigger base_clk sec t = map_option clear_end_of_test (trigger_arm base_clk sec t)"
  by (cases "hw_timers t") (simp_all add: eve_timer_trigger_def trigger_arm_def clear_end_of_test_def Let_def put_timer_def)

text \<open>The next statement of the Azure task, and that of the LED task's manager.\<close>

datatype az_pc = Az_Idle | Az_On_Pin | Az_On_Status | Az_On_Arm | Az_On_Flag | Az_Off_Pin | Az_Off_Status

datatype mg_pc = Mg_Check | Mg_Pin | Mg_Status

record race =
  el :: el_state
  az :: az_pc
  mg :: mg_pc

inductive race_step :: "nat \<Rightarrow> race \<Rightarrow> race \<Rightarrow> bool" for base_clk where
  on_pin: "az s = Az_On_Pin \<Longrightarrow>
    race_step base_clk s (s\<lparr>el := gpio_set_level GPIO_OUTPUT_IO_TEST_BUTTON 1 (el s), az := Az_On_Status\<rparr>)"
| on_status: "az s = Az_On_Status \<Longrightarrow> race_step base_clk s (s\<lparr>el := (el s)\<lparr>status_el_gi := 1\<rparr>, az := Az_On_Arm\<rparr>)"
| on_arm: "az s = Az_On_Arm \<Longrightarrow> trigger_arm base_clk (dbl_of_nat TIMER_EL_TEST_TIMEOUT_SEC) (tg (el s)) = Some t \<Longrightarrow>
    race_step base_clk s (s\<lparr>el := (el s)\<lparr>tg := t\<rparr>, az := Az_On_Flag\<rparr>)"
| on_flag: "az s = Az_On_Flag \<Longrightarrow>
    race_step base_clk s (s\<lparr>el := (el s)\<lparr>tg := clear_end_of_test (tg (el s))\<rparr>, az := Az_Idle\<rparr>)"
| off_pin: "az s = Az_Off_Pin \<Longrightarrow>
    race_step base_clk s (s\<lparr>el := gpio_set_level GPIO_OUTPUT_IO_TEST_BUTTON 0 (el s), az := Az_Off_Status\<rparr>)"
| off_status: "az s = Az_Off_Status \<Longrightarrow> race_step base_clk s (s\<lparr>el := (el s)\<lparr>status_el_gi := 0\<rparr>, az := Az_Idle\<rparr>)"
| mg_check: "mg s = Mg_Check \<Longrightarrow> end_of_test_enable_check (tg (el s)) \<Longrightarrow> race_step base_clk s (s\<lparr>mg := Mg_Pin\<rparr>)"
| mg_pin: "mg s = Mg_Pin \<Longrightarrow>
    race_step base_clk s (s\<lparr>el := gpio_set_level GPIO_OUTPUT_IO_TEST_BUTTON 0 (el s), mg := Mg_Status\<rparr>)"
| mg_status: "mg s = Mg_Status \<Longrightarrow> race_step base_clk s (s\<lparr>el := (el s)\<lparr>status_el_gi := 0\<rparr>, mg := Mg_Check\<rparr>)"

inductive_cases race_stepE: "race_step base_clk s s'"

text \<open>Without interruption the statements are the two functions.\<close>

lemma button_on_steps:
  assumes "app_emergency_light_test_button base_clk True e = Some e'"
  shows "(race_step base_clk)\<^sup>*\<^sup>* \<lparr>el = e, az = Az_On_Pin, mg = m\<rparr> \<lparr>el = e', az = Az_Idle, mg = m\<rparr>"
proof -
  let ?e1 = "gpio_set_level GPIO_OUTPUT_IO_TEST_BUTTON 1 e" let ?e2 = "?e1\<lparr>status_el_gi := 1\<rparr>"
  obtain t where t: "trigger_arm base_clk (dbl_of_nat TIMER_EL_TEST_TIMEOUT_SEC) (tg ?e2) = Some t"
    "e' = ?e2\<lparr>tg := clear_end_of_test t\<rparr>"
    using assms by (auto simp: app_emergency_light_test_button_def trigger_in_two_steps Let_def split: bind_splits)
  have "race_step base_clk \<lparr>el = e, az = Az_On_Pin, mg = m\<rparr> \<lparr>el = ?e1, az = Az_On_Status, mg = m\<rparr>"
    using on_pin [of "\<lparr>el = e, az = Az_On_Pin, mg = m\<rparr>"] by simp
  moreover have "race_step base_clk \<lparr>el = ?e1, az = Az_On_Status, mg = m\<rparr> \<lparr>el = ?e2, az = Az_On_Arm, mg = m\<rparr>"
    using on_status [of "\<lparr>el = ?e1, az = Az_On_Status, mg = m\<rparr>"] by simp
  moreover have "race_step base_clk \<lparr>el = ?e2, az = Az_On_Arm, mg = m\<rparr> \<lparr>el = ?e2\<lparr>tg := t\<rparr>, az = Az_On_Flag, mg = m\<rparr>"
    using on_arm [of "\<lparr>el = ?e2, az = Az_On_Arm, mg = m\<rparr>"] t(1) by simp
  moreover have "race_step base_clk \<lparr>el = ?e2\<lparr>tg := t\<rparr>, az = Az_On_Flag, mg = m\<rparr> \<lparr>el = e', az = Az_Idle, mg = m\<rparr>"
    using on_flag [of "\<lparr>el = ?e2\<lparr>tg := t\<rparr>, az = Az_On_Flag, mg = m\<rparr>"] t(2) by simp
  ultimately show ?thesis by (meson rtranclp.rtrancl_into_rtrancl rtranclp.rtrancl_refl)
qed

lemma manager_steps:
  assumes "end_of_test_enable_check (tg e)"
  shows "(race_step base_clk)\<^sup>*\<^sup>* \<lparr>el = e, az = a, mg = Mg_Check\<rparr>
    \<lparr>el = (gpio_set_level GPIO_OUTPUT_IO_TEST_BUTTON 0 e)\<lparr>status_el_gi := 0\<rparr>, az = a, mg = Mg_Check\<rparr>"
proof -
  let ?e1 = "gpio_set_level GPIO_OUTPUT_IO_TEST_BUTTON 0 e"
  have "race_step base_clk \<lparr>el = e, az = a, mg = Mg_Check\<rparr> \<lparr>el = e, az = a, mg = Mg_Pin\<rparr>"
    using mg_check [of "\<lparr>el = e, az = a, mg = Mg_Check\<rparr>"] assms by simp
  moreover have "race_step base_clk \<lparr>el = e, az = a, mg = Mg_Pin\<rparr> \<lparr>el = ?e1, az = a, mg = Mg_Status\<rparr>"
    using mg_pin [of "\<lparr>el = e, az = a, mg = Mg_Pin\<rparr>"] by simp
  moreover have "race_step base_clk \<lparr>el = ?e1, az = a, mg = Mg_Status\<rparr> \<lparr>el = ?e1\<lparr>status_el_gi := 0\<rparr>, az = a, mg = Mg_Check\<rparr>"
    using mg_status [of "\<lparr>el = ?e1, az = a, mg = Mg_Status\<rparr>"] by simp
  ultimately show ?thesis by (meson rtranclp.rtrancl_into_rtrancl rtranclp.rtrancl_refl)
qed

text \<open>While no test has ended and the manager is at its check, it stays there; the command's effects
  are then never undone.\<close>

definition on_progress :: "race \<Rightarrow> bool" where
  "on_progress s \<longleftrightarrow> mg s = Mg_Check \<and> \<not> end_of_test (tg (el s)) \<and>
     (az s \<in> {Az_On_Status, Az_On_Arm, Az_On_Flag, Az_Idle} \<longrightarrow> gpio_out (el s) GPIO_OUTPUT_IO_TEST_BUTTON = 1) \<and>
     (az s \<in> {Az_On_Arm, Az_On_Flag, Az_Idle} \<longrightarrow> status_el_gi (el s) = 1) \<and>
     az s \<notin> {Az_Off_Pin, Az_Off_Status}"

lemma trigger_arm_flag: "trigger_arm base_clk sec t = Some t' \<Longrightarrow> end_of_test t' = end_of_test t"
  by (auto simp: trigger_arm_def put_timer_def Let_def split: bind_splits)

lemma on_progress_step: "race_step base_clk s s' \<Longrightarrow> on_progress s \<Longrightarrow> on_progress s'"
  by (erule race_stepE)
     (auto simp: on_progress_def gpio_set_level_def clear_end_of_test_def end_of_test_enable_check_def
       dest: trigger_arm_flag)

section \<open>Properties\<close>

text \<open>A \<^verbatim>\<open>TEST ON\<close> that arrives between two tests can be lost: \<open>end_of_test\<close> is still set from the
  last test when the pin and the status are switched on, so the manager may switch both off again
  before the command clears it. The command then ends with the light off and the timer running.\<close>

theorem command_lost_in_race:
  "\<exists>s. (race_step 80000000)\<^sup>*\<^sup>* \<lparr>el = gpio_ini el_reset, az = Az_On_Pin, mg = Mg_Check\<rparr> s \<and>
     az s = Az_Idle \<and> mg s = Mg_Check \<and> gpio_out (el s) GPIO_OUTPUT_IO_TEST_BUTTON = 0 \<and> status_el_gi (el s) = 0 \<and>
     \<not> end_of_test (tg (el s)) \<and> counter_en (hw_timers (tg (el s)) ! 0)"
proof -
  let ?e0 = "gpio_ini el_reset"
  let ?e2 = "(gpio_set_level GPIO_OUTPUT_IO_TEST_BUTTON 1 ?e0)\<lparr>status_el_gi := 1\<rparr>"
  let ?e3 = "(gpio_set_level GPIO_OUTPUT_IO_TEST_BUTTON 0 ?e2)\<lparr>status_el_gi := 0\<rparr>"
  have tg0: "tg ?e0 = tg_reset" "tg ?e3 = tg_reset" by (simp_all add: gpio_ini_def el_reset_def gpio_set_level_def)
  obtain t' where t': "eve_timer_trigger 80000000 (dbl_of_nat TIMER_EL_TEST_TIMEOUT_SEC) tg_reset = Some t'"
    "\<not> end_of_test t'" "counter_en (hw_timers t' ! 0)"
    using trigger_effect [OF tg_inv_reset] by blast
  then obtain t where t: "trigger_arm 80000000 (dbl_of_nat TIMER_EL_TEST_TIMEOUT_SEC) tg_reset = Some t"
    "t' = clear_end_of_test t"
    by (auto simp: trigger_in_two_steps)
  have "race_step 80000000 \<lparr>el = ?e0, az = Az_On_Pin, mg = Mg_Check\<rparr>
      \<lparr>el = gpio_set_level GPIO_OUTPUT_IO_TEST_BUTTON 1 ?e0, az = Az_On_Status, mg = Mg_Check\<rparr>"
    using on_pin [of "\<lparr>el = ?e0, az = Az_On_Pin, mg = Mg_Check\<rparr>"] by simp
  moreover have "race_step 80000000 \<lparr>el = gpio_set_level GPIO_OUTPUT_IO_TEST_BUTTON 1 ?e0, az = Az_On_Status, mg = Mg_Check\<rparr>
      \<lparr>el = ?e2, az = Az_On_Arm, mg = Mg_Check\<rparr>"
    using on_status [of "\<lparr>el = gpio_set_level GPIO_OUTPUT_IO_TEST_BUTTON 1 ?e0, az = Az_On_Status, mg = Mg_Check\<rparr>"]
    by simp
  moreover have "end_of_test_enable_check (tg ?e2)"
    by (simp add: gpio_ini_def el_reset_def gpio_set_level_def tg_reset_def end_of_test_enable_check_def)
  note manager_steps [OF this, of 80000000 Az_On_Arm]
  moreover have "race_step 80000000 \<lparr>el = ?e3, az = Az_On_Arm, mg = Mg_Check\<rparr> \<lparr>el = ?e3\<lparr>tg := t\<rparr>, az = Az_On_Flag, mg = Mg_Check\<rparr>"
    using on_arm [of "\<lparr>el = ?e3, az = Az_On_Arm, mg = Mg_Check\<rparr>" 80000000 t] t(1) tg0(2) by simp
  moreover have "race_step 80000000 \<lparr>el = ?e3\<lparr>tg := t\<rparr>, az = Az_On_Flag, mg = Mg_Check\<rparr>
      \<lparr>el = ?e3\<lparr>tg := t'\<rparr>, az = Az_Idle, mg = Mg_Check\<rparr>"
    using on_flag [of "\<lparr>el = ?e3\<lparr>tg := t\<rparr>, az = Az_On_Flag, mg = Mg_Check\<rparr>"] t(2) by simp
  ultimately have "(race_step 80000000)\<^sup>*\<^sup>* \<lparr>el = ?e0, az = Az_On_Pin, mg = Mg_Check\<rparr>
      \<lparr>el = ?e3\<lparr>tg := t'\<rparr>, az = Az_Idle, mg = Mg_Check\<rparr>"
    by (meson rtranclp_trans r_into_rtranclp)
  then show ?thesis
    using t'(2,3) by (intro exI, intro conjI) (assumption | simp add: gpio_set_level_def)+
qed

text \<open>C25: A \<^verbatim>\<open>TEST ON\<close> while a test runs is safe if the manager is at its check when the command begins: in every
  interleaving of the two from there, when the command is through, the pin is on, the status is 1, and the
  test has not ended. (A manager already past its check may undo the command.)\<close>

theorem command_safe_during_test:
  assumes "(race_step base_clk)\<^sup>*\<^sup>* \<lparr>el = e, az = Az_On_Pin, mg = Mg_Check\<rparr> s" "\<not> end_of_test (tg e)" "az s = Az_Idle"
  shows "gpio_out (el s) GPIO_OUTPUT_IO_TEST_BUTTON = 1 \<and> status_el_gi (el s) = 1 \<and> \<not> end_of_test (tg (el s))"
proof -
  have "on_progress s"
    using assms(1)
  proof (induction rule: rtranclp_induct)
    case base
    show ?case using assms(2) by (simp add: on_progress_def)
  next
    case (step s s')
    show ?case by (rule on_progress_step [OF step(2,3)])
  qed
  then show ?thesis using assms(3) by (simp add: on_progress_def)
qed

theorem command_safe_during_test_witness:
  "\<exists>e'. app_emergency_light_test_button 80000000 True ((gpio_ini el_reset)\<lparr>tg := tg_reset\<lparr>end_of_test := False\<rparr>\<rparr>) = Some e' \<and>
     status_el_gi e' = 1"
proof -
  let ?e = "(gpio_ini el_reset)\<lparr>tg := tg_reset\<lparr>end_of_test := False\<rparr>\<rparr>"
  have "el_inv ?e" using el_inv_reset tg_inv_reset
    by (simp add: el_inv_def gpio_ini_def el_reset_def tg_inv_def tg_reset_def evt_pending_def)
  then obtain e' where e': "app_emergency_light_test_button 80000000 True ?e = Some e'"
    using button_on_ok by blast
  show ?thesis
    using command_safe_during_test [OF button_on_steps [OF e', of Mg_Check]] e' by simp
qed

text \<open>The pin and the status the cloud is told can part: if a \<^verbatim>\<open>TEST ON\<close> falls between the manager's
  statements, the light stays on for the whole test while its status says 0.\<close>

theorem pin_and_status_part:
  "\<exists>s. (race_step 80000000)\<^sup>*\<^sup>* \<lparr>el = gpio_ini el_reset, az = Az_On_Pin, mg = Mg_Check\<rparr> s \<and>
     az s = Az_Idle \<and> mg s = Mg_Check \<and> gpio_out (el s) GPIO_OUTPUT_IO_TEST_BUTTON = 1 \<and>
     app_emergency_light_read_status (el s) = 0 \<and> \<not> end_of_test_enable_check (tg (el s))"
proof -
  let ?e0 = "gpio_ini el_reset" let ?b = "GPIO_OUTPUT_IO_TEST_BUTTON"
  let ?e1 = "gpio_set_level ?b 0 ?e0" let ?e2 = "gpio_set_level ?b 1 ?e1"
  let ?e3 = "?e2\<lparr>status_el_gi := 1\<rparr>" let ?e4 = "?e3\<lparr>status_el_gi := 0\<rparr>"
  have tg0: "tg ?e4 = tg_reset" "end_of_test_enable_check (tg ?e0)"
    by (simp_all add: gpio_ini_def el_reset_def gpio_set_level_def end_of_test_enable_check_def tg_reset_def)
  obtain t' where t': "eve_timer_trigger 80000000 (dbl_of_nat TIMER_EL_TEST_TIMEOUT_SEC) tg_reset = Some t'"
    "\<not> end_of_test t'"
    using trigger_effect [OF tg_inv_reset] by blast
  then obtain t where t: "trigger_arm 80000000 (dbl_of_nat TIMER_EL_TEST_TIMEOUT_SEC) tg_reset = Some t"
    "t' = clear_end_of_test t"
    by (auto simp: trigger_in_two_steps)
  have "race_step 80000000 \<lparr>el = ?e0, az = Az_On_Pin, mg = Mg_Check\<rparr> \<lparr>el = ?e0, az = Az_On_Pin, mg = Mg_Pin\<rparr>"
    using mg_check [of "\<lparr>el = ?e0, az = Az_On_Pin, mg = Mg_Check\<rparr>"] tg0(2) by simp
  moreover have "race_step 80000000 \<lparr>el = ?e0, az = Az_On_Pin, mg = Mg_Pin\<rparr> \<lparr>el = ?e1, az = Az_On_Pin, mg = Mg_Status\<rparr>"
    using mg_pin [of "\<lparr>el = ?e0, az = Az_On_Pin, mg = Mg_Pin\<rparr>"] by simp
  moreover have "race_step 80000000 \<lparr>el = ?e1, az = Az_On_Pin, mg = Mg_Status\<rparr> \<lparr>el = ?e2, az = Az_On_Status, mg = Mg_Status\<rparr>"
    using on_pin [of "\<lparr>el = ?e1, az = Az_On_Pin, mg = Mg_Status\<rparr>"] by simp
  moreover have "race_step 80000000 \<lparr>el = ?e2, az = Az_On_Status, mg = Mg_Status\<rparr> \<lparr>el = ?e3, az = Az_On_Arm, mg = Mg_Status\<rparr>"
    using on_status [of "\<lparr>el = ?e2, az = Az_On_Status, mg = Mg_Status\<rparr>"] by simp
  moreover have "race_step 80000000 \<lparr>el = ?e3, az = Az_On_Arm, mg = Mg_Status\<rparr> \<lparr>el = ?e4, az = Az_On_Arm, mg = Mg_Check\<rparr>"
    using mg_status [of "\<lparr>el = ?e3, az = Az_On_Arm, mg = Mg_Status\<rparr>"] by simp
  moreover have "race_step 80000000 \<lparr>el = ?e4, az = Az_On_Arm, mg = Mg_Check\<rparr> \<lparr>el = ?e4\<lparr>tg := t\<rparr>, az = Az_On_Flag, mg = Mg_Check\<rparr>"
    using on_arm [of "\<lparr>el = ?e4, az = Az_On_Arm, mg = Mg_Check\<rparr>" 80000000 t] t(1) tg0(1) by simp
  moreover have "race_step 80000000 \<lparr>el = ?e4\<lparr>tg := t\<rparr>, az = Az_On_Flag, mg = Mg_Check\<rparr>
      \<lparr>el = ?e4\<lparr>tg := t'\<rparr>, az = Az_Idle, mg = Mg_Check\<rparr>"
    using on_flag [of "\<lparr>el = ?e4\<lparr>tg := t\<rparr>, az = Az_On_Flag, mg = Mg_Check\<rparr>"] t(2) by simp
  ultimately have "(race_step 80000000)\<^sup>*\<^sup>* \<lparr>el = ?e0, az = Az_On_Pin, mg = Mg_Check\<rparr>
      \<lparr>el = ?e4\<lparr>tg := t'\<rparr>, az = Az_Idle, mg = Mg_Check\<rparr>"
    by (meson rtranclp_trans r_into_rtranclp)
  then show ?thesis
    using t'(2)
    by (intro exI, intro conjI)
      (assumption | simp add: gpio_set_level_def app_emergency_light_read_status_def end_of_test_enable_check_def)+
qed

end
