(* ===== verification/Queue_Interleaving.thy ===== *)
theory Queue_Interleaving
  imports Data_Buffer
begin

text \<open>
  The sample queue at the granularity of statements. The ADC task runs \<open>queue_buffer_insert\<close> while
  the Azure task checks the queue, copies its head, and removes it; no lock orders them. The
  positions are a \<open>p_pc\<close> and a \<open>c_pc\<close>. An argument \<^verbatim>\<open>head++\<close> or \<^verbatim>\<open>tail++\<close> of \<^verbatim>\<open>memcpy\<close> takes
  effect before the copy; the statements are assumed to reach memory in their order.
\<close>

section \<open>The producer's statements\<close>

datatype p_pc =
    P_Start def_queue_buffer bool    \<comment> \<open>the first \<^verbatim>\<open>isFull\<close> check\<close>
  | P_Drop_Check def_queue_buffer    \<comment> \<open>\<^verbatim>\<open>removeData\<close>: the \<^verbatim>\<open>isEmpty\<close> check\<close>
  | P_Drop_Head def_queue_buffer     \<comment> \<open>\<^verbatim>\<open>head++\<close>\<close>
  | P_Drop_Copy def_queue_buffer u8  \<comment> \<open>the copy into a local\<close>
  | P_Drop_Wrap def_queue_buffer
  | P_Drop_Count def_queue_buffer
  | P_Check def_queue_buffer         \<comment> \<open>the second \<^verbatim>\<open>isFull\<close> check\<close>
  | P_Tail def_queue_buffer          \<comment> \<open>\<^verbatim>\<open>tail++\<close>\<close>
  | P_Copy def_queue_buffer u8       \<comment> \<open>the copy into the slot\<close>
  | P_Wrap
  | P_Count
  | P_Done

fun p_step :: "p_pc \<times> queue_state \<Rightarrow> (p_pc \<times> queue_state) option" where
  "p_step (P_Start x keep_new, q) =
     Some (if queue_buffer_isFull q \<and> keep_new then P_Drop_Check x else P_Check x, q)"
| "p_step (P_Drop_Check x, q) = Some (if queue_buffer_isEmpty q then P_Check x else P_Drop_Head x, q)"
| "p_step (P_Drop_Head x, q) = Some (P_Drop_Copy x (head q), q\<lparr>head := head q + 1\<rparr>)"
| "p_step (P_Drop_Copy x i, q) = map_option (\<lambda>a. (P_Drop_Wrap x, q)) (arr_get (queue_buffer q) (unat i))"
| "p_step (P_Drop_Wrap x, q) =
     Some (P_Drop_Count x, if QUEUE_BUFFER_MAX \<le> unat (head q) then q\<lparr>head := 0\<rparr> else q)"
| "p_step (P_Drop_Count x, q) = Some (P_Check x, q\<lparr>itemCount := itemCount q - 1\<rparr>)"
| "p_step (P_Check x, q) = Some (if queue_buffer_isFull q then P_Done else P_Tail x, q)"
| "p_step (P_Tail x, q) = Some (P_Copy x (tail q), q\<lparr>tail := tail q + 1\<rparr>)"
| "p_step (P_Copy x i, q) =
     map_option (\<lambda>buf. (P_Wrap, q\<lparr>queue_buffer := buf\<rparr>)) (arr_set (queue_buffer q) (unat i) x)"
| "p_step (P_Wrap, q) = Some (P_Count, if QUEUE_BUFFER_MAX \<le> unat (tail q) then q\<lparr>tail := 0\<rparr> else q)"
| "p_step (P_Count, q) = Some (P_Done, q\<lparr>itemCount := itemCount q + 1\<rparr>)"
| "p_step (P_Done, q) = None"

section \<open>The consumer's statements\<close>

text \<open>The argument is what the copy of the head read, \<open>None\<close> when it read behind the array.\<close>

datatype c_pc =
    C_Check                                      \<comment> \<open>the loop's \<^verbatim>\<open>isEmpty\<close> check\<close>
  | C_Idle                                       \<comment> \<open>it failed\<close>
  | C_Peek                                       \<comment> \<open>the copy of the head\<close>
  | C_Got "def_queue_buffer option"              \<comment> \<open>sent; the \<^verbatim>\<open>isEmpty\<close> check of \<^verbatim>\<open>removeData\<close>\<close>
  | C_Rm_Head "def_queue_buffer option"          \<comment> \<open>\<^verbatim>\<open>head++\<close>\<close>
  | C_Rm_Copy "def_queue_buffer option" u8
  | C_Rm_Wrap "def_queue_buffer option"
  | C_Rm_Count "def_queue_buffer option"
  | C_End "def_queue_buffer option"

fun c_step :: "c_pc \<times> queue_state \<Rightarrow> (c_pc \<times> queue_state) option" where
  "c_step (C_Check, q) = Some (if queue_buffer_isEmpty q then C_Idle else C_Peek, q)"
| "c_step (C_Idle, q) = None"
| "c_step (C_Peek, q) = Some (C_Got (queue_buffer_peek q), q)"
| "c_step (C_Got v, q) = Some (if queue_buffer_isEmpty q then C_End v else C_Rm_Head v, q)"
| "c_step (C_Rm_Head v, q) = Some (C_Rm_Copy v (head q), q\<lparr>head := head q + 1\<rparr>)"
| "c_step (C_Rm_Copy v i, q) = map_option (\<lambda>a. (C_Rm_Wrap v, q)) (arr_get (queue_buffer q) (unat i))"
| "c_step (C_Rm_Wrap v, q) =
     Some (C_Rm_Count v, if QUEUE_BUFFER_MAX \<le> unat (head q) then q\<lparr>head := 0\<rparr> else q)"
| "c_step (C_Rm_Count v, q) = Some (C_End v, q\<lparr>itemCount := itemCount q - 1\<rparr>)"
| "c_step (C_End v, q) = None"

record qrace =
  pp :: p_pc
  cp :: c_pc
  qq :: queue_state

inductive q_step :: "qrace \<Rightarrow> qrace \<Rightarrow> bool" where
  producer: "p_step (pp s, qq s) = Some (p, q) \<Longrightarrow> q_step s (s\<lparr>pp := p, qq := q\<rparr>)"
| consumer: "c_step (cp s, qq s) = Some (c, q) \<Longrightarrow> q_step s (s\<lparr>cp := c, qq := q\<rparr>)"

inductive_cases q_stepE: "q_step s s'"

lemma producer_step: "p_step (p, q) = Some (p', q') \<Longrightarrow> q_step \<lparr>pp = p, cp = c, qq = q\<rparr> \<lparr>pp = p', cp = c, qq = q'\<rparr>"
  using producer [of "\<lparr>pp = p, cp = c, qq = q\<rparr>" p' q'] by simp

lemma consumer_step: "c_step (c, q) = Some (c', q') \<Longrightarrow> q_step \<lparr>pp = p, cp = c, qq = q\<rparr> \<lparr>pp = p, cp = c', qq = q'\<rparr>"
  using consumer [of "\<lparr>pp = p, cp = c, qq = q\<rparr>" c' q'] by simp

text \<open>\<open>p_steps n t\<close> makes \<open>n\<close> statements of the producer, \<open>c_steps n t\<close> of the consumer.\<close>

fun p_steps :: "nat \<Rightarrow> p_pc \<times> queue_state \<Rightarrow> (p_pc \<times> queue_state) option" where
  "p_steps 0 t = Some t"
| "p_steps (Suc n) t = Option.bind (p_step t) (p_steps n)"

fun c_steps :: "nat \<Rightarrow> c_pc \<times> queue_state \<Rightarrow> (c_pc \<times> queue_state) option" where
  "c_steps 0 t = Some t"
| "c_steps (Suc n) t = Option.bind (c_step t) (c_steps n)"

lemma p_steps_run:
  "p_steps n (p, q) = Some (p', q') \<Longrightarrow> q_step\<^sup>*\<^sup>* \<lparr>pp = p, cp = c, qq = q\<rparr> \<lparr>pp = p', cp = c, qq = q'\<rparr>"
proof (induction n arbitrary: p q)
  case (Suc n)
  then obtain p1 q1 where 1: "p_step (p, q) = Some (p1, q1)" "p_steps n (p1, q1) = Some (p', q')"
    by (auto split: bind_splits)
  show ?case using producer_step [OF 1(1), of c] Suc.IH [OF 1(2)] by (rule converse_rtranclp_into_rtranclp)
qed simp

lemma c_steps_run:
  "c_steps n (c, q) = Some (c', q') \<Longrightarrow> q_step\<^sup>*\<^sup>* \<lparr>pp = p, cp = c, qq = q\<rparr> \<lparr>pp = p, cp = c', qq = q'\<rparr>"
proof (induction n arbitrary: c q)
  case (Suc n)
  then obtain c1 q1 where 1: "c_step (c, q) = Some (c1, q1)" "c_steps n (c1, q1) = Some (c', q')"
    by (auto split: bind_splits)
  show ?case using consumer_step [OF 1(1), of p] Suc.IH [OF 1(2)] by (rule converse_rtranclp_into_rtranclp)
qed simp

section \<open>The statements make the functions\<close>

text \<open>An index after its increment and the wrap-around.\<close>

definition ring_next :: "u8 \<Rightarrow> u8" where
  "ring_next i = (if QUEUE_BUFFER_MAX \<le> unat (i + 1) then 0 else i + 1)"

lemma unat_ring_next: "unat i < 6 \<Longrightarrow> unat (ring_next i) = Suc (unat i) mod 6"
  unfolding ring_next_def QUEUE_BUFFER_MAX_def by (rule unat_inc_wrap)

lemma p_tail_steps:
  assumes "unat (tail q) < length (queue_buffer q)"
  shows "p_steps 4 (P_Tail x, q) = Some (P_Done,
    q\<lparr>queue_buffer := (queue_buffer q)[unat (tail q) := x],
      tail := ring_next (tail q), itemCount := itemCount q + 1\<rparr>)"
  using assms by (simp add: eval_nat_numeral ring_next_def)

lemma insert_room:
  assumes "\<not> queue_buffer_isFull q" "unat (tail q) < length (queue_buffer q)"
  shows "queue_buffer_insert x k q = Some (q\<lparr>queue_buffer := (queue_buffer q)[unat (tail q) := x],
      tail := ring_next (tail q), itemCount := itemCount q + 1\<rparr>)"
  using assms by (simp add: queue_buffer_insert_def Let_def ring_next_def)

lemma p_steps_add: "p_steps (m + n) t = Option.bind (p_steps m t) (p_steps n)"
  by (induction m arbitrary: t) (auto split: bind_splits)

lemma p_insert_room:
  assumes "\<not> queue_buffer_isFull q" "queue_inv q"
  shows "\<exists>q'. p_steps 6 (P_Start x k, q) = Some (P_Done, q') \<and> queue_buffer_insert x k q = Some q'"
proof -
  have t: "unat (tail q) < length (queue_buffer q)" using assms(2) by (simp add: queue_inv_def)
  have "p_steps 2 (P_Start x k, q) = Some (P_Tail x, q)" using assms(1) by (simp add: eval_nat_numeral)
  then have "p_steps 6 (P_Start x k, q) = p_steps 4 (P_Tail x, q)"
    using p_steps_add [of 2 4 "(P_Start x k, q)"] by simp
  then show ?thesis using p_tail_steps [OF t, of x] insert_room [OF assms(1) t, of x k] by simp
qed

text \<open>The removal inside an insertion into a full queue.\<close>

lemma p_drop_steps:
  assumes "queue_buffer_isFull q" "queue_inv q"
  shows "\<exists>a q1. p_steps 6 (P_Start x True, q) = Some (P_Check x, q1) \<and>
    queue_buffer_removeData zero_sample q = Some (a, q1) \<and> queue_inv q1 \<and> \<not> queue_buffer_isFull q1"
proof -
  have h: "unat (head q) < length (queue_buffer q)" using assms(2) by (simp add: queue_inv_def)
  have "queue_len q = 5" using assms by (simp add: isFull_iff QUEUE_BUFFER_MAX_def)
  then have ne: "\<not> queue_buffer_isEmpty q" using assms(2) by (simp add: isEmpty_iff)
  let ?q1 = "q\<lparr>head := ring_next (head q), itemCount := itemCount q - 1\<rparr>"
  have 1: "p_steps 6 (P_Start x True, q) = Some (P_Check x, ?q1)"
    using assms(1) ne h by (simp add: eval_nat_numeral ring_next_def)
  have 2: "queue_buffer_removeData zero_sample q = Some (queue_buffer q ! unat (head q), ?q1)"
    using ne h by (simp add: queue_buffer_removeData_def Let_def ring_next_def)
  have 3: "queue_inv ?q1" "queue_items ?q1 = tl (queue_items q)"
    using removeData_nonempty [OF assms(2), of zero_sample] \<open>queue_len q = 5\<close> 2 by auto
  have "queue_len ?q1 = 4" using arg_cong [OF 3(2), of length] \<open>queue_len q = 5\<close> by simp
  then have "\<not> queue_buffer_isFull ?q1" using isFull_iff [OF 3(1)] by (simp add: QUEUE_BUFFER_MAX_def)
  then show ?thesis using 1 2 3(1) by blast
qed

lemma p_insert_full:
  assumes "queue_buffer_isFull q" "queue_inv q"
  shows "\<exists>q'. p_steps 11 (P_Start x True, q) = Some (P_Done, q') \<and> queue_buffer_insert x True q = Some q'"
proof -
  obtain a q1 where 1: "p_steps 6 (P_Start x True, q) = Some (P_Check x, q1)"
    "queue_buffer_removeData zero_sample q = Some (a, q1)" "queue_inv q1" "\<not> queue_buffer_isFull q1"
    using p_drop_steps [OF assms] by blast
  have t: "unat (tail q1) < length (queue_buffer q1)" using 1(3) by (simp add: queue_inv_def)
  have "p_steps 11 (P_Start x True, q) = p_steps 5 (P_Check x, q1)"
    using p_steps_add [of 6 5 "(P_Start x True, q)"] 1(1) by simp
  also have "\<dots> = p_steps 4 (P_Tail x, q1)"
    using 1(4) p_steps_add [of 1 4 "(P_Check x, q1)"] by simp
  finally have run: "p_steps 11 (P_Start x True, q) = p_steps 4 (P_Tail x, q1)" .
  have "queue_buffer_insert x True q = queue_buffer_insert x True q1"
    using assms(1) 1(2,4) by (simp add: queue_buffer_insert_def)
  then show ?thesis using run p_tail_steps [OF t, of x] insert_room [OF 1(4) t, of x True] by simp
qed

text \<open>An insertion that may not drop ends after two statements on a full queue.\<close>

lemma p_insert_refused:
  assumes "queue_buffer_isFull q"
  shows "p_steps 2 (P_Start x False, q) = Some (P_Done, q) \<and> queue_buffer_insert x False q = Some q"
  using assms by (simp add: eval_nat_numeral queue_buffer_insert_def)

text \<open>The consumer's statements on a queue that holds a sample: the copy of the head, and the removal.\<close>

lemma c_remove_steps:
  assumes "queue_inv q" "\<not> queue_buffer_isEmpty q"
  shows "\<exists>a q'. c_steps 7 (C_Check, q) = Some (C_End (Some a), q') \<and>
    queue_buffer_peek q = Some a \<and> queue_buffer_removeData junk q = Some (a, q')"
proof -
  have h: "unat (head q) < length (queue_buffer q)" using assms(1) by (simp add: queue_inv_def)
  show ?thesis using assms(2) h
    by (simp add: eval_nat_numeral queue_buffer_removeData_def queue_buffer_peek_def Let_def)
qed

section \<open>One insertion and one removal\<close>

text \<open>
  The state of a race that started on the queue \<open>q0\<close> with room for a sample: the producer owns the
  tail, the slot it points to and its part of the count, the consumer owns the head and its part, so the
  shared state is a function of the two positions. On an empty queue the consumer stays at its
  check until the producer has moved the tail.
\<close>

definition race_head :: "u8 \<Rightarrow> c_pc \<Rightarrow> u8" where
  "race_head h c = (case c of C_Rm_Copy v i \<Rightarrow> h + 1 | C_Rm_Wrap v \<Rightarrow> h + 1 | C_Rm_Count v \<Rightarrow> ring_next h
     | C_End v \<Rightarrow> ring_next h | _ \<Rightarrow> h)"

definition race_tail :: "u8 \<Rightarrow> p_pc \<Rightarrow> u8" where
  "race_tail t p = (case p of P_Copy x i \<Rightarrow> t + 1 | P_Wrap \<Rightarrow> t + 1 | P_Count \<Rightarrow> ring_next t
     | P_Done \<Rightarrow> ring_next t | _ \<Rightarrow> t)"

definition race_buffer :: "def_queue_buffer \<Rightarrow> queue_state \<Rightarrow> p_pc \<Rightarrow> def_queue_buffer list" where
  "race_buffer x q0 p = (if p \<in> {P_Wrap, P_Count, P_Done}
     then (queue_buffer q0)[unat (tail q0) := x] else queue_buffer q0)"

definition race_count :: "u8 \<Rightarrow> p_pc \<Rightarrow> c_pc \<Rightarrow> u8" where
  "race_count n p c = n + (if p = P_Done then 1 else 0) - (case c of C_End v \<Rightarrow> 1 | _ \<Rightarrow> 0)"

definition race_queue :: "def_queue_buffer \<Rightarrow> queue_state \<Rightarrow> p_pc \<Rightarrow> c_pc \<Rightarrow> queue_state" where
  "race_queue x q0 p c = q0\<lparr>head := race_head (head q0) c, tail := race_tail (tail q0) p,
     queue_buffer := race_buffer x q0 p, itemCount := race_count (itemCount q0) p c\<rparr>"

definition early :: "def_queue_buffer \<Rightarrow> bool \<Rightarrow> p_pc set" where
  "early x k = {P_Start x k, P_Check x, P_Tail x}"

definition late :: "def_queue_buffer \<Rightarrow> queue_state \<Rightarrow> p_pc set" where
  "late x q0 = {P_Copy x (tail q0), P_Wrap, P_Count, P_Done}"

definition taking :: "queue_state \<Rightarrow> def_queue_buffer option \<Rightarrow> c_pc set" where
  "taking q0 v = {C_Got v, C_Rm_Head v, C_Rm_Copy v (head q0), C_Rm_Wrap v, C_Rm_Count v, C_End v}"

definition got_ok :: "queue_state \<Rightarrow> def_queue_buffer option \<Rightarrow> bool" where
  "got_ok q0 v \<longleftrightarrow> v \<noteq> None \<and> (queue_buffer_isEmpty q0 \<or> v = queue_buffer_peek q0)"

definition consumer_ok :: "def_queue_buffer \<Rightarrow> bool \<Rightarrow> queue_state \<Rightarrow> p_pc \<Rightarrow> c_pc \<Rightarrow> bool" where
  "consumer_ok x k q0 p c \<longleftrightarrow> c = C_Check \<or> (c = C_Idle \<and> queue_buffer_isEmpty q0) \<or>
     ((queue_buffer_isEmpty q0 \<longrightarrow> p \<notin> early x k) \<and> (c = C_Peek \<or> (\<exists>v. got_ok q0 v \<and> c \<in> taking q0 v)))"

definition race_inv :: "def_queue_buffer \<Rightarrow> bool \<Rightarrow> queue_state \<Rightarrow> qrace \<Rightarrow> bool" where
  "race_inv x k q0 s \<longleftrightarrow> qq s = race_queue x q0 (pp s) (cp s) \<and> pp s \<in> early x k \<union> late x q0 \<and>
     consumer_ok x k q0 (pp s) (cp s)"

lemma early_late: "p \<in> late x q0 \<Longrightarrow> p \<notin> early x k"
  by (auto simp: early_def late_def)

text \<open>The moving indices never meet by accident.\<close>

lemma indices_apart:
  assumes "queue_inv q" "\<not> queue_buffer_isFull q"
  shows "ring_next (tail q) \<noteq> head q" "tail q + 1 \<noteq> head q"
    and "\<not> queue_buffer_isEmpty q \<Longrightarrow> tail q \<noteq> head q"
    and "\<not> queue_buffer_isEmpty q \<Longrightarrow> ring_next (tail q) \<noteq> head q + 1"
    and "\<not> queue_buffer_isEmpty q \<Longrightarrow> ring_next (tail q) \<noteq> ring_next (head q)"
proof -
  have b: "unat (head q) < 6" "unat (tail q) < 6" using assms(1) by (simp_all add: queue_defs)
  have u: "unat (head q + 1) = Suc (unat (head q))" "unat (tail q + 1) = Suc (unat (tail q))"
    using b by (simp_all add: unat_word_ariths)
  note n = unat_ring_next [OF b(1)] unat_ring_next [OF b(2)]
  show 1: "ring_next (tail q) \<noteq> head q"
    using assms(2) by (auto simp: queue_buffer_isFull_def Let_def ring_next_def)
  then have "Suc (unat (tail q)) mod 6 \<noteq> unat (head q)" using n(2) by (metis word_unat_eq_iff)
  then have "unat (tail q + 1) \<noteq> unat (head q)" using b u by (auto simp: mod_if split: if_splits)
  then show "tail q + 1 \<noteq> head q" by metis
  assume ne: "\<not> queue_buffer_isEmpty q"
  then show ht: "tail q \<noteq> head q" by (auto simp: queue_buffer_isEmpty_def)
  then have "unat (head q) \<noteq> unat (tail q)" by (auto simp: word_unat_eq_iff)
  then have "unat (ring_next (tail q)) \<noteq> unat (head q + 1)" "unat (ring_next (tail q)) \<noteq> unat (ring_next (head q))"
    unfolding n u using b by (auto simp: mod_if split: if_splits)
  then show "ring_next (tail q) \<noteq> head q + 1" "ring_next (tail q) \<noteq> ring_next (head q)" by metis+
qed

lemma race_full: "queue_buffer_isFull (race_queue x q0 p c) \<longleftrightarrow> race_head (head q0) c = ring_next (race_tail (tail q0) p)"
  by (simp add: race_queue_def queue_buffer_isFull_def Let_def ring_next_def)

lemma race_empty: "queue_buffer_isEmpty (race_queue x q0 p c) \<longleftrightarrow> race_head (head q0) c = race_tail (tail q0) p"
  by (simp add: race_queue_def queue_buffer_isEmpty_def)

lemma race_head_cases: "race_head h c \<in> {h, h + 1, ring_next h}"
  by (cases c) (simp_all add: race_head_def)

lemma race_early_not_full:
  assumes "queue_inv q0" "\<not> queue_buffer_isFull q0" "consumer_ok x k q0 p c" "p \<in> early x k"
  shows "\<not> queue_buffer_isFull (race_queue x q0 p c)"
proof -
  have t: "race_tail (tail q0) p = tail q0" using assms(4) by (auto simp: early_def race_tail_def)
  have "race_head (head q0) c \<noteq> ring_next (tail q0)"
  proof (cases "queue_buffer_isEmpty q0")
    case True
    then have "race_head (head q0) c = head q0" using assms(3,4) by (auto simp: consumer_ok_def race_head_def)
    then show ?thesis using indices_apart(1) [OF assms(1,2)] by simp
  next
    case False
    then show ?thesis using indices_apart(1,4,5) [OF assms(1,2)] race_head_cases [of "head q0" c] by auto
  qed
  then show ?thesis using t by (simp add: race_full)
qed

lemma consumer_ok_mono: "consumer_ok x k q0 p c \<Longrightarrow> (p' \<in> early x k \<longrightarrow> p \<in> early x k) \<Longrightarrow> consumer_ok x k q0 p' c"
  by (auto simp: consumer_ok_def)

lemmas race_queue_simps = race_queue_def race_tail_def race_buffer_def race_count_def

lemma race_early_step:
  assumes "p \<in> early x k" "\<not> queue_buffer_isFull (race_queue x q0 p c)"
    and "p_step (p, race_queue x q0 p c) = Some (p', q')"
  shows "q' = race_queue x q0 p' c \<and> p' \<in> early x k \<union> late x q0"
  using assms unfolding early_def late_def
  by (elim insertE emptyE) (auto simp: race_queue_simps)

lemma race_late_step:
  assumes "p \<in> late x q0" "p_step (p, race_queue x q0 p c) = Some (p', q')"
  shows "q' = race_queue x q0 p' c \<and> p' \<in> late x q0"
proof -
  consider "p = P_Copy x (tail q0)" | "p = P_Wrap" | "p = P_Count" | "p = P_Done"
    using assms(1) by (auto simp: late_def)
  then show ?thesis
  proof cases
    case 1
    then show ?thesis using assms(2) by (auto simp: race_queue_simps late_def dest!: arr_set_SomeD)
  next
    case 2
    then show ?thesis using assms(2) by (auto simp: race_queue_simps late_def ring_next_def split: if_splits)
  next
    case 3
    then show ?thesis using assms(2) by (auto simp: race_queue_simps late_def)
  next
    case 4
    then show ?thesis using assms(2) by simp
  qed
qed

lemma race_producer:
  assumes "queue_inv q0" "\<not> queue_buffer_isFull q0" "race_inv x k q0 s" "p_step (pp s, qq s) = Some (p, q)"
  shows "race_inv x k q0 (s\<lparr>pp := p, qq := q\<rparr>)"
proof (cases "pp s \<in> early x k")
  case True
  have "\<not> queue_buffer_isFull (race_queue x q0 (pp s) (cp s))"
    using race_early_not_full [OF assms(1,2) _ True] assms(3) by (auto simp: race_inv_def)
  from race_early_step [OF True this] show ?thesis
    using assms(3,4) True by (auto simp: race_inv_def intro: consumer_ok_mono)
next
  case False
  then have "pp s \<in> late x q0" using assms(3) by (auto simp: race_inv_def)
  moreover have "p_step (pp s, race_queue x q0 (pp s) (cp s)) = Some (p, q)"
    using assms(3,4) by (simp add: race_inv_def)
  ultimately have "q = race_queue x q0 p (cp s) \<and> p \<in> late x q0" by (rule race_late_step)
  then show ?thesis
    using assms(3) early_late [of p x q0 k] by (auto simp: race_inv_def intro: consumer_ok_mono)
qed

text \<open>The consumer's check sees the samples there are, and the head it copies is a filled slot.\<close>

lemma race_tail_cases: "p \<in> early x k \<union> late x q0 \<Longrightarrow> race_tail (tail q0) p \<in> {tail q0, tail q0 + 1, ring_next (tail q0)}"
  by (auto simp: early_def late_def race_tail_def)

lemma race_not_empty:
  assumes "queue_inv q0" "\<not> queue_buffer_isFull q0" "p \<in> early x k \<union> late x q0"
    and "queue_buffer_isEmpty q0 \<longrightarrow> p \<notin> early x k" "race_head (head q0) c = head q0"
  shows "\<not> queue_buffer_isEmpty (race_queue x q0 p c)"
proof (cases "queue_buffer_isEmpty q0")
  case True
  then have "race_tail (tail q0) p \<in> {tail q0 + 1, ring_next (tail q0)}"
    using assms(3,4) by (auto simp: late_def race_tail_def)
  then show ?thesis using indices_apart(1,2) [OF assms(1,2)] assms(5) by (auto simp: race_empty)
next
  case False
  then show ?thesis
    using race_tail_cases [OF assms(3)] indices_apart(1,2,3) [OF assms(1,2)] assms(5) by (auto simp: race_empty)
qed

lemma race_peek:
  assumes "queue_inv q0" "race_head (head q0) c = head q0"
  shows "got_ok q0 (queue_buffer_peek (race_queue x q0 p c))"
proof -
  have h: "unat (head q0) < length (queue_buffer q0)" using assms(1) by (simp add: queue_inv_def)
  have "race_buffer x q0 p ! unat (head q0) = queue_buffer q0 ! unat (head q0)" if "\<not> queue_buffer_isEmpty q0"
  proof -
    have "unat (tail q0) \<noteq> unat (head q0)"
      using that by (auto simp: queue_buffer_isEmpty_def word_unat_eq_iff)
    then show ?thesis by (simp add: race_buffer_def)
  qed
  moreover have "unat (head q0) < length (race_buffer x q0 p)" using h by (simp add: race_buffer_def)
  ultimately show ?thesis using assms(2) h
    by (auto simp: got_ok_def queue_buffer_peek_def race_queue_def)
qed

lemma race_get_head: "queue_inv q0 \<Longrightarrow> unat (head q0) < length (queue_buffer (race_queue x q0 p c))"
  by (simp add: race_queue_def race_buffer_def queue_inv_def)

lemma race_take_step:
  assumes "queue_inv q0" "\<not> queue_buffer_isFull q0" "p \<in> early x k \<union> late x q0" "c \<in> taking q0 v"
    and "queue_buffer_isEmpty q0 \<longrightarrow> p \<notin> early x k" "c_step (c, race_queue x q0 p c) = Some (c', q')"
  shows "q' = race_queue x q0 p c' \<and> c' \<in> taking q0 v"
proof -
  have ne: "\<not> queue_buffer_isEmpty (race_queue x q0 p c)" if "race_head (head q0) c = head q0"
    using race_not_empty [OF assms(1-3,5) that] .
  consider "c = C_Got v" | "c = C_Rm_Head v" | "c = C_Rm_Copy v (head q0)" | "c = C_Rm_Wrap v" | "c = C_Rm_Count v"
    | "c = C_End v"
    using assms(4) by (auto simp: taking_def)
  then show ?thesis
  proof cases
    case 1
    then show ?thesis using assms(6) ne
      by (auto simp: race_head_def taking_def race_queue_def race_count_def)
  next
    case 2
    then show ?thesis using assms(6) by (auto simp: race_head_def taking_def race_queue_def race_count_def)
  next
    case 3
    then show ?thesis using assms(6) by (auto simp: race_head_def taking_def race_queue_def race_count_def)
  next
    case 4
    then show ?thesis using assms(6)
      by (auto simp: race_head_def taking_def race_queue_def race_count_def ring_next_def split: if_splits)
  next
    case 5
    then show ?thesis using assms(6) by (auto simp: race_head_def taking_def race_queue_def race_count_def)
  next
    case 6
    then show ?thesis using assms(6) by simp
  qed
qed

lemma race_consumer:
  assumes "queue_inv q0" "\<not> queue_buffer_isFull q0" "race_inv x k q0 s" "c_step (cp s, qq s) = Some (c, q)"
  shows "race_inv x k q0 (s\<lparr>cp := c, qq := q\<rparr>)"
proof -
  have st: "c_step (cp s, race_queue x q0 (pp s) (cp s)) = Some (c, q)" "pp s \<in> early x k \<union> late x q0"
    "consumer_ok x k q0 (pp s) (cp s)" "qq s = race_queue x q0 (pp s) (cp s)"
    using assms(3,4) by (simp_all add: race_inv_def)
  consider "cp s = C_Check" | "cp s = C_Idle" | "cp s = C_Peek" "queue_buffer_isEmpty q0 \<longrightarrow> pp s \<notin> early x k"
    | v where "got_ok q0 v" "cp s \<in> taking q0 v" "queue_buffer_isEmpty q0 \<longrightarrow> pp s \<notin> early x k"
    using st(3) by (auto simp: consumer_ok_def)
  then have "q = race_queue x q0 (pp s) c \<and> consumer_ok x k q0 (pp s) c"
  proof cases
    case 1
    have hd: "race_head (head q0) C_Check = head q0" by (simp add: race_head_def)
    have "queue_buffer_isEmpty q0 \<and> pp s \<in> early x k" if "queue_buffer_isEmpty (race_queue x q0 (pp s) C_Check)"
      using race_not_empty [OF assms(1,2) st(2) _ hd] that by blast
    moreover have "queue_buffer_isEmpty (race_queue x q0 (pp s) C_Check)"
      if "queue_buffer_isEmpty q0" "pp s \<in> early x k"
      unfolding race_empty hd using that by (auto simp: early_def race_tail_def queue_buffer_isEmpty_def)
    ultimately show ?thesis using 1 st(1)
      by (auto simp: consumer_ok_def race_queue_def race_head_def race_count_def split: if_splits)
  next
    case 2
    then show ?thesis using st(1) by simp
  next
    case 3
    have hd: "race_head (head q0) C_Peek = head q0" by (simp add: race_head_def)
    have c: "c = C_Got (queue_buffer_peek (race_queue x q0 (pp s) C_Peek))" "q = race_queue x q0 (pp s) C_Peek"
      using st(1) unfolding 3(1) by (simp_all add: eq_commute)
    have "race_queue x q0 (pp s) C_Peek = race_queue x q0 (pp s) c"
      unfolding c(1) by (simp add: race_queue_def race_head_def race_count_def)
    then show ?thesis using c 3(2) race_peek [OF assms(1) hd, of x "pp s"]
      by (auto simp: consumer_ok_def taking_def)
  next
    case 4
    then show ?thesis using race_take_step [OF assms(1,2) st(2) 4(2,3) st(1)] by (auto simp: consumer_ok_def)
  qed
  then show ?thesis using st(2) by (simp add: race_inv_def)
qed

lemma race_start: "race_inv x k q0 \<lparr>pp = P_Start x k, cp = C_Check, qq = q0\<rparr>"
  by (simp add: race_inv_def early_def consumer_ok_def race_queue_def race_head_def race_tail_def
      race_buffer_def race_count_def)

lemma race_reachable:
  assumes "queue_inv q0" "\<not> queue_buffer_isFull q0" "q_step\<^sup>*\<^sup>* \<lparr>pp = P_Start x k, cp = C_Check, qq = q0\<rparr> s"
  shows "race_inv x k q0 s"
  using assms(3)
proof (induction rule: rtranclp_induct)
  case base
  show ?case by (rule race_start)
next
  case (step s s')
  from step.hyps(2) step.IH show ?case
    using race_producer [OF assms(1,2)] race_consumer [OF assms(1,2)] by (auto elim!: q_stepE)
qed

text \<open>No statement of a race is stuck at an access outside the array.\<close>

lemma race_progress:
  assumes "queue_inv q0" "race_inv x k q0 s"
  shows "(p_step (pp s, qq s) = None \<longleftrightarrow> pp s = P_Done) \<and>
    (c_step (cp s, qq s) = None \<longleftrightarrow> cp s = C_Idle \<or> (\<exists>v. cp s = C_End v))"
proof -
  have q: "qq s = race_queue x q0 (pp s) (cp s)" "pp s \<in> early x k \<union> late x q0"
    "consumer_ok x k q0 (pp s) (cp s)"
    using assms(2) by (simp_all add: race_inv_def)
  have t: "unat (tail q0) < length (queue_buffer q0)" using assms(1) by (simp add: queue_inv_def)
  note h = race_get_head [OF assms(1), of x "pp s" "cp s"]
  have "p_step (pp s, qq s) = None \<longleftrightarrow> pp s = P_Done"
    using q(2) t by (auto simp: early_def late_def q(1) race_queue_def race_buffer_def)
  moreover have "c_step (cp s, qq s) = None \<longleftrightarrow> cp s = C_Idle \<or> (\<exists>v. cp s = C_End v)"
    using q(3) h by (auto simp: consumer_ok_def taking_def q(1))
  ultimately show ?thesis by blast
qed

text \<open>Both through: the queue is that of the removal after the insertion.\<close>

lemma race_end:
  assumes "queue_inv q0" "\<not> queue_buffer_isFull q0"
  shows "\<exists>q1 a q2. queue_buffer_insert x k q0 = Some q1 \<and> queue_buffer_removeData junk q1 = Some (a, q2) \<and>
    race_queue x q0 P_Done (C_End v) = q2"
proof -
  have b: "unat (tail q0) < length (queue_buffer q0)" "unat (head q0) < length (queue_buffer q0)"
    using assms(1) by (simp_all add: queue_inv_def)
  let ?q1 = "q0\<lparr>queue_buffer := (queue_buffer q0)[unat (tail q0) := x],
      tail := ring_next (tail q0), itemCount := itemCount q0 + 1\<rparr>"
  have 1: "queue_buffer_insert x k q0 = Some ?q1" by (rule insert_room [OF assms(2) b(1)])
  have "\<not> queue_buffer_isEmpty ?q1"
    using indices_apart(1) [OF assms] by (auto simp: queue_buffer_isEmpty_def)
  then have "queue_buffer_removeData junk ?q1 = Some ((queue_buffer ?q1) ! unat (head q0),
      ?q1\<lparr>head := ring_next (head q0), itemCount := itemCount ?q1 - 1\<rparr>)"
    using b(2) by (simp add: queue_buffer_removeData_def Let_def ring_next_def)
  then show ?thesis using 1
    by (simp add: race_queue_def race_head_def race_tail_def race_buffer_def race_count_def)
qed

text \<open>A consumer that looks after \<^verbatim>\<open>tail++\<close> and before the copy.\<close>

lemma early_peek:
  "q_step\<^sup>*\<^sup>* \<lparr>pp = P_Start x k, cp = C_Check, qq = queue_buffer_init\<rparr>
     \<lparr>pp = P_Copy x 0, cp = C_Got (Some zero_sample), qq = queue_buffer_init\<lparr>tail := 1\<rparr>\<rparr>"
proof -
  let ?q = "queue_buffer_init\<lparr>tail := 1\<rparr>"
  have "p_steps 3 (P_Start x k, queue_buffer_init) = Some (P_Copy x 0, ?q)"
    by (simp add: eval_nat_numeral queue_buffer_isFull_def queue_buffer_init_def QUEUE_BUFFER_MAX_def)
  moreover have "c_steps 2 (C_Check, ?q) = Some (C_Got (Some zero_sample), ?q)"
    by (simp add: eval_nat_numeral queue_buffer_isEmpty_def queue_buffer_peek_def queue_buffer_init_def
        QUEUE_BUFFER_MAX_def)
  ultimately show ?thesis by (meson p_steps_run c_steps_run rtranclp_trans)
qed

section \<open>Properties\<close>

text \<open>Made one after the other, the producer's statements are \<open>queue_buffer_insert\<close>, on a full queue
  and on one with room, and the consumer's are its reading of the head and
  \<open>queue_buffer_removeData\<close>: the step relation refines the functions of the sequential model.\<close>

theorem insert_statement_by_statement:
  assumes "queue_inv q"
  shows "(\<exists>n q'. n \<le> 11 \<and> p_steps n (P_Start x k, q) = Some (P_Done, q') \<and> queue_buffer_insert x k q = Some q') \<and>
    (\<not> queue_buffer_isEmpty q \<longrightarrow> (\<exists>a q'. c_steps 7 (C_Check, q) = Some (C_End (Some a), q') \<and>
       queue_buffer_peek q = Some a \<and> queue_buffer_removeData junk q = Some (a, q')))"
proof (intro conjI impI)
  show "\<exists>n q'. n \<le> 11 \<and> p_steps n (P_Start x k, q) = Some (P_Done, q') \<and> queue_buffer_insert x k q = Some q'"
  proof (cases "queue_buffer_isFull q")
    case True
    then show ?thesis
      using p_insert_full [OF True assms, of x] p_insert_refused [OF True, of x]
      by (cases k) (auto intro: exI [of _ 11] exI [of _ 2])
  next
    case False
    then show ?thesis using p_insert_room [OF False assms, of x k] by (auto intro: exI [of _ 6])
  qed
qed (rule c_remove_steps [OF assms])

theorem insert_statement_by_statement_witness:
  "\<exists>n q'. n \<le> 11 \<and> p_steps n (P_Start zero_sample True, five_samples) = Some (P_Done, q') \<and>
     queue_buffer_insert zero_sample True five_samples = Some q'"
  by (rule insert_statement_by_statement [OF five_samples_ok(1), THEN conjunct1])

text \<open>The outcome of the race, on an empty queue, too: there the consumer may find a slot, but nothing is said
  of what it holds.\<close>

lemma race_outcome:
  assumes "queue_inv q" "\<not> queue_buffer_isFull q"
    and "q_step\<^sup>*\<^sup>* \<lparr>pp = P_Start x k, cp = C_Check, qq = q\<rparr> s"
  shows "(p_step (pp s, qq s) = None \<longleftrightarrow> pp s = P_Done) \<and>
    (c_step (cp s, qq s) = None \<longleftrightarrow> cp s = C_Idle \<or> (\<exists>v. cp s = C_End v)) \<and>
    (\<forall>v. cp s \<in> {C_Got v, C_End v} \<longrightarrow> v \<noteq> None \<and> (\<not> queue_buffer_isEmpty q \<longrightarrow> v = Some (hd (queue_items q)))) \<and>
    (\<forall>v. pp s = P_Done \<and> cp s = C_End v \<longrightarrow> queue_inv (qq s) \<and> queue_items (qq s) = tl (queue_items q @ [x]))"
proof -
  have inv: "race_inv x k q s" by (rule race_reachable [OF assms])
  have got: "v \<noteq> None \<and> (\<not> queue_buffer_isEmpty q \<longrightarrow> v = Some (hd (queue_items q)))"
    if "cp s \<in> {C_Got v, C_End v}" for v
  proof -
    have "got_ok q v" using inv that by (auto simp: race_inv_def consumer_ok_def taking_def)
    then show ?thesis using peek_items [OF assms(1)] isEmpty_iff [OF assms(1)] by (auto simp: got_ok_def)
  qed
  have "queue_inv (qq s) \<and> queue_items (qq s) = tl (queue_items q @ [x])" if "pp s = P_Done" "cp s = C_End v" for v
  proof -
    obtain q1 a q2 where 1: "queue_buffer_insert x k q = Some q1" "queue_buffer_removeData zero_sample q1 = Some (a, q2)"
      "race_queue x q P_Done (C_End v) = q2"
      using race_end [OF assms(1,2)] by blast
    have "length (queue_items q) < 5"
      using ring.is_full_iff [OF assms(1)] ring.items_le [OF assms(1)] assms(2) by linarith
    then have q1: "queue_inv q1" "queue_items q1 = queue_items q @ [x]"
      using ring.ins_items [OF assms(1), of x k] 1(1) by (auto simp: fifo_insert_def)
    then show ?thesis
      using ring.del_items [OF q1(1), of zero_sample] 1(2,3) inv that by (auto simp: race_inv_def)
  qed
  then show ?thesis using race_progress [OF assms(1) inv] got by blast
qed

text \<open>C17: While the queue holds a sample and has room for another, an insertion and a removal do not need a lock:
  in every interleaving of their statements no access leaves the array and neither task is stuck before
  its end, the consumer finds the queue not empty, it reads and removes the oldest sample, and when both
  are through the queue holds the remaining samples and the new one, in order.\<close>

theorem insert_and_remove_linearize:
  assumes "queue_inv q" "\<not> queue_buffer_isEmpty q" "\<not> queue_buffer_isFull q"
    and "q_step\<^sup>*\<^sup>* \<lparr>pp = P_Start x k, cp = C_Check, qq = q\<rparr> s"
  shows "(p_step (pp s, qq s) = None \<longleftrightarrow> pp s = P_Done) \<and>
    (c_step (cp s, qq s) = None \<longleftrightarrow> (\<exists>v. cp s = C_End v)) \<and>
    (\<forall>v. cp s \<in> {C_Got v, C_End v} \<longrightarrow> v = Some (hd (queue_items q))) \<and>
    (\<forall>v. pp s = P_Done \<and> cp s = C_End v \<longrightarrow> queue_inv (qq s) \<and> queue_items (qq s) = tl (queue_items q) @ [x])"
proof -
  have "cp s \<noteq> C_Idle" using race_reachable [OF assms(1,3,4)] assms(2) by (auto simp: race_inv_def consumer_ok_def taking_def)
  moreover have "queue_items q \<noteq> []" using ring.is_empty_iff [OF assms(1)] assms(2) by simp
  then have "tl (queue_items q @ [x]) = tl (queue_items q) @ [x]" by simp
  ultimately show ?thesis using race_outcome [OF assms(1,3,4)] assms(2) by auto
qed

text \<open>The consumer takes the one sample of the queue while the producer has moved the tail.\<close>

definition one_sample :: queue_state where
  "one_sample = queue_buffer_init\<lparr>queue_buffer := (zero_sample\<lparr>mv1 := 7\<rparr>) # replicate 5 zero_sample, tail := 1, itemCount := 1\<rparr>"

lemma one_sample_ok: "queue_inv one_sample" "queue_items one_sample = [zero_sample\<lparr>mv1 := 7\<rparr>]"
proof -
  have "queue_buffer_insert (zero_sample\<lparr>mv1 := 7\<rparr>) True queue_buffer_init = Some one_sample"
    by (simp add: queue_buffer_insert_def queue_buffer_isFull_def queue_buffer_init_def one_sample_def QUEUE_BUFFER_MAX_def
        arr_set_def Let_def eval_nat_numeral)
  then show "queue_inv one_sample" "queue_items one_sample = [zero_sample\<lparr>mv1 := 7\<rparr>]"
    using ring.ins_items [OF queue_inv_init, of "zero_sample\<lparr>mv1 := 7\<rparr>" True] by (simp_all add: queue_items_init fifo_insert_def)
qed

lemma one_sample_race:
  "\<exists>v q'. q_step\<^sup>*\<^sup>* \<lparr>pp = P_Start x k, cp = C_Check, qq = one_sample\<rparr> \<lparr>pp = P_Copy x 1, cp = C_End v, qq = q'\<rparr>"
proof -
  let ?q = "one_sample\<lparr>tail := 2\<rparr>"
  have "p_steps 3 (P_Start x k, one_sample) = Some (P_Copy x 1, ?q)"
    by (simp add: numeral_3_eq_3 one_sample_def queue_buffer_isFull_def queue_buffer_init_def QUEUE_BUFFER_MAX_def)
  moreover have "unat (head ?q) < length (queue_buffer ?q)" "\<not> queue_buffer_isEmpty ?q"
    by (simp_all add: one_sample_def queue_buffer_init_def queue_buffer_isEmpty_def)
  then obtain v q' where "c_steps 7 (C_Check, ?q) = Some (C_End v, q')" by (auto simp: eval_nat_numeral)
  ultimately show ?thesis by (meson p_steps_run c_steps_run rtranclp_trans)
qed

theorem insert_and_remove_linearize_witness:
  "\<exists>s. q_step\<^sup>*\<^sup>* \<lparr>pp = P_Start zero_sample True, cp = C_Check, qq = one_sample\<rparr> s \<and> pp s = P_Copy zero_sample 1 \<and>
     cp s = C_End (Some (zero_sample\<lparr>mv1 := 7\<rparr>))"
proof -
  obtain v q' where run: "q_step\<^sup>*\<^sup>* \<lparr>pp = P_Start zero_sample True, cp = C_Check, qq = one_sample\<rparr>
      \<lparr>pp = P_Copy zero_sample 1, cp = C_End v, qq = q'\<rparr>" using one_sample_race by blast
  have "\<not> queue_buffer_isEmpty one_sample" "\<not> queue_buffer_isFull one_sample"
    using ring.is_empty_iff [OF one_sample_ok(1)] ring.is_full_iff [OF one_sample_ok(1)] one_sample_ok(2) by (simp_all del: length_queue_items)
  from insert_and_remove_linearize [OF one_sample_ok(1) this run] have "v = Some (zero_sample\<lparr>mv1 := 7\<rparr>)"
    by (simp add: one_sample_ok(2))
  then show ?thesis using run by (intro exI conjI) (assumption, simp_all)
qed

text \<open>The insertion publishes the slot before it fills it: a consumer that looks between the two
  statements finds the queue non-empty and copies the slot's old content, here the zero bytes of
  the initial array, which nobody has inserted.\<close>

theorem consumer_reads_unfilled_slot:
  "\<exists>s. q_step\<^sup>*\<^sup>* \<lparr>pp = P_Start x k, cp = C_Check, qq = queue_buffer_init\<rparr> s \<and> cp s = C_Got (Some zero_sample)"
  using early_peek [of x k] by (intro exI conjI) (assumption, simp)

text \<open>C35: An insertion into a full queue whose head stands at the last slot of the array takes the head index out
  of the array for one statement: a consumer that copies the head at that moment reads behind the array.\<close>

theorem consumer_reads_behind_array:
  assumes "queue_inv q" "queue_buffer_isFull q" "head q = 5"
  shows "\<exists>s. q_step\<^sup>*\<^sup>* \<lparr>pp = P_Start x True, cp = C_Check, qq = q\<rparr> s \<and> cp s = C_Got None"
proof -
  let ?q = "q\<lparr>head := head q + 1\<rparr>"
  have "queue_len q = 5" using assms(1,2) by (simp add: isFull_iff QUEUE_BUFFER_MAX_def)
  then have ne: "\<not> queue_buffer_isEmpty q" using assms(1) by (simp add: isEmpty_iff)
  then have "c_steps 1 (C_Check, q) = Some (C_Peek, q)" by simp
  moreover have "p_steps 3 (P_Start x True, q) = Some (P_Drop_Copy x 5, ?q)"
    using assms(2,3) ne by (simp add: eval_nat_numeral)
  moreover have "c_steps 1 (C_Peek, ?q) = Some (C_Got None, ?q)"
    using assms(1,3) by (simp add: queue_buffer_peek_def queue_inv_def QUEUE_BUFFER_MAX_def)
  ultimately have "q_step\<^sup>*\<^sup>* \<lparr>pp = P_Start x True, cp = C_Check, qq = q\<rparr> \<lparr>pp = P_Drop_Copy x 5, cp = C_Got None, qq = ?q\<rparr>"
    by (meson p_steps_run c_steps_run rtranclp_trans)
  then show ?thesis by (intro exI conjI) (assumption, simp)
qed

theorem consumer_reads_behind_array_witness:
  "\<exists>s. q_step\<^sup>*\<^sup>* \<lparr>pp = P_Start zero_sample True, cp = C_Check,
      qq = queue_buffer_init\<lparr>head := 5, tail := 4, itemCount := 5\<rparr>\<rparr> s \<and> cp s = C_Got None"
  by (rule consumer_reads_behind_array)
     (simp_all add: queue_defs queue_buffer_init_def queue_buffer_isFull_def)

end
