(* ===== verification/C_Printf.thy ===== *)
theory C_Printf
  imports C_Double C_Time
begin

text \<open>
  What the program's log output uses of \<^verbatim>\<open>printf\<close> beside decimal numbers: \<^verbatim>\<open>%x\<close> and \<^verbatim>\<open>%0kx\<close>, the quotient
  of two \<^verbatim>\<open>double\<close> values, and \<^verbatim>\<open>%.8f\<close>. The quotient and the printed decimal are rounded to nearest, ties
  to even, as IEEE 754 and newlib do.
\<close>

section \<open>Hexadecimal output\<close>

definition hex_char :: "nat \<Rightarrow> char" where
  "hex_char n = ''0123456789abcdef'' ! n"

fun hex_digits :: "nat \<Rightarrow> string" where
  "hex_digits n = (if n < 16 then [hex_char n] else hex_digits (n div 16) @ [hex_char (n mod 16)])"

declare hex_digits.simps [simp del]

definition pad_zero :: "nat \<Rightarrow> string \<Rightarrow> string" where
  "pad_zero k s = replicate (k - length s) (CHR ''0'') @ s"

text \<open>\<^verbatim>\<open>%0kx\<close>\<close>

definition printf_0x :: "nat \<Rightarrow> nat \<Rightarrow> string" where
  "printf_0x k n = pad_zero k (hex_digits n)"

text \<open>Exactly \<open>k\<close> digits of a number.\<close>

fun hex_fixed :: "nat \<Rightarrow> nat \<Rightarrow> string" where
  "hex_fixed 0 n = []"
| "hex_fixed (Suc k) n = hex_fixed k (n div 16) @ [hex_char (n mod 16)]"

lemma length_hex_fixed [simp]: "length (hex_fixed k n) = k"
  by (induction k arbitrary: n) simp_all

lemma hex_fixed_0: "hex_fixed k 0 = replicate k (CHR ''0'')"
  by (induction k) (simp_all add: hex_char_def replicate_append_same)

lemma printf_0x_fixed: "n < 16 ^ k \<Longrightarrow> 0 < k \<Longrightarrow> printf_0x k n = hex_fixed k n"
proof (induction k arbitrary: n)
  case (Suc k)
  show ?case
  proof (cases "n < 16")
    case True
    then show ?thesis
      by (simp add: printf_0x_def hex_digits.simps [of n] pad_zero_def hex_fixed_0)
  next
    case False
    then have "n div 16 < 16 ^ k" "0 < k" using Suc.prems by (cases k; simp add: less_mult_imp_div_less)+
    then have "printf_0x k (n div 16) = hex_fixed k (n div 16)" by (rule Suc.IH)
    then show ?thesis using False by (simp add: printf_0x_def hex_digits.simps [of n] pad_zero_def)
  qed
qed simp

lemma hex_fixed_append: "hex_fixed a (n div 16 ^ b) @ hex_fixed b (n mod 16 ^ b) = hex_fixed (a + b) n"
proof (induction b arbitrary: n)
  case (Suc b)
  have "n mod 16 ^ Suc b div 16 = n div 16 mod 16 ^ b"
    by (simp add: mod_mult2_eq)
  moreover have "n div 16 ^ Suc b = n div 16 div 16 ^ b" by (simp add: div_mult2_eq)
  moreover have "n mod 16 ^ Suc b mod 16 = n mod 16" by (simp add: mod_mult2_eq)
  ultimately show ?case using Suc.IH [of "n div 16"] by (simp flip: append_assoc)
qed simp

text \<open>Two numbers printed with fixed width, one after the other, are the digits of the joined number.\<close>

lemma printf_0x_join:
  assumes "n < 16 ^ (a + b)" "0 < a" "0 < b"
  shows "printf_0x a (n div 16 ^ b) @ printf_0x b (n mod 16 ^ b) = printf_0x (a + b) n"
proof -
  have "n div 16 ^ b < 16 ^ a" using assms(1) by (simp add: less_mult_imp_div_less power_add)
  then show ?thesis using assms hex_fixed_append [of a n b] by (simp add: printf_0x_fixed)
qed

section \<open>Quotients and decimal output of doubles\<close>

text \<open>The quotient by an integer: 128 more bits and a sticky bit for the rest.\<close>

definition dbl_div :: "dbl \<Rightarrow> nat \<Rightarrow> dbl" where
  "dbl_div x d =
     (let n = fst x * 2 ^ 128; q = n div d; sticky = (if d dvd n then 0 else 1)
      in round53 (2 * q + sticky) (snd x - 129))"

definition div_round :: "nat \<Rightarrow> nat \<Rightarrow> nat" where
  "div_round x k =
     (let q = x div k; r = x mod k in if k < 2 * r \<or> (2 * r = k \<and> odd q) then q + 1 else q)"

text \<open>\<open>fixed_8 n\<close> is the decimal text of \<open>n / 10 ^ 8\<close> with eight decimals.\<close>

definition fixed_8 :: "nat \<Rightarrow> string" where
  "fixed_8 n = dec_digits (n div 10 ^ 8) @ ''.'' @ pad_zero 8 (dec_digits (n mod 10 ^ 8))"

definition printf_8f :: "dbl \<Rightarrow> string" where
  "printf_8f x = fixed_8 (if 0 \<le> snd x then fst x * 2 ^ nat (snd x) * 10 ^ 8
     else div_round (fst x * 10 ^ 8) (2 ^ nat (- snd x)))"

lemma div_round_near:
  assumes "2 * \<bar>int x - int k * int n\<bar> < int k"
  shows "div_round x k = n"
proof (cases "int k * int n \<le> int x")
  case True
  then obtain r where r: "x = k * n + r" by (metis le_Suc_ex of_nat_le_iff of_nat_mult)
  then have "2 * r < k" using assms by simp
  then have "x div k = n" "x mod k = r" using r by simp_all
  then show ?thesis using \<open>2 * r < k\<close> by (simp add: div_round_def)
next
  case False
  then have "x < k * n" by (simp flip: of_nat_mult)
  then obtain r where r: "k * n = x + r" "0 < r" using less_imp_add_positive by metis
  then have small: "2 * r < k" using assms by (simp flip: of_nat_mult)
  then obtain m where n: "n = Suc m" using r(1,2) by (cases n) auto
  have "x = k * m + (k - r)" using r(1) n small by simp
  moreover have "k - r < k" using small r(2) by simp
  ultimately have "x div k = m" "x mod k = k - r" by simp_all
  moreover have "k < 2 * (k - r)" using small by arith
  ultimately show ?thesis using n by (simp add: div_round_def)
qed

lemma bit_len_ge: "0 < m \<Longrightarrow> 2 ^ (bit_len m - 1) \<le> m"
proof (induction m rule: bit_len.induct)
  case (1 m)
  show ?case
  proof (cases "m div 2 = 0")
    case True
    then have "m = 1" using "1.prems" by simp
    then show ?thesis by (simp add: bit_len.simps)
  next
    case False
    have "bit_len (m div 2) \<noteq> 0" using False by (simp add: bit_len.simps [of "m div 2"])
    then have "2 ^ (bit_len m - 1) = 2 * 2 ^ (bit_len (m div 2) - 1)"
      using "1.prems" by (simp add: bit_len.simps [of m] flip: power_Suc)
    also have "\<dots> \<le> 2 * (m div 2)" using "1.IH" False "1.prems" by simp
    also have "\<dots> \<le> m" by simp
    finally show ?thesis .
  qed
qed

text \<open>Rounding to 53 bits moves a value by at most its \<open>2 ^ 53\<close>th part.\<close>

lemma round53_error:
  obtains q s where "round53 m e = (q, e + int s)" "\<bar>int q * 2 ^ s - int m\<bar> * 2 ^ 53 \<le> int m" "s \<le> bit_len m - 53"
proof (cases "bit_len m \<le> 53")
  case True
  then show ?thesis using that [of m 0] by (simp add: round53_def)
next
  case False
  define s where "s = bit_len m - 53"
  define q where "q = m div 2 ^ s"
  define r where "r = m mod 2 ^ s"
  have s: "0 < s" "bit_len m - 1 = s + 52" using False by (simp_all add: s_def)
  have m: "m = q * 2 ^ s + r" unfolding q_def r_def by (rule div_mult_mod_eq [symmetric])
  have r: "r < 2 ^ s" by (simp add: r_def)
  have pos: "0 < m" using False by (cases m) (simp_all add: bit_len.simps [of 0])
  have big: "2 ^ (s + 52) \<le> m" using bit_len_ge [OF pos] s(2) by simp
  have half: "2 * 2 ^ (s - 1) = (2 ^ s :: nat)" using s(1) by (simp flip: power_Suc)
  define up where "up \<longleftrightarrow> 2 ^ (s - 1) < r \<or> (r = 2 ^ (s - 1) \<and> odd q)"
  define q' where "q' = (if up then q + 1 else q)"
  have err: "2 * \<bar>int q' * 2 ^ s - int m\<bar> \<le> 2 ^ s"
  proof (cases up)
    case True
    then have "2 ^ s \<le> 2 * r" using half by (auto simp: up_def)
    then have "int (2 ^ s) \<le> int (2 * r)" by (simp only: of_nat_le_iff)
    moreover have "int r < int (2 ^ s)" using r by (simp only: of_nat_less_iff)
    moreover have "int q' * 2 ^ s - int m = 2 ^ s - int r" unfolding m q'_def using True by (simp add: algebra_simps)
    ultimately show ?thesis by simp
  next
    case False
    then have "2 * r \<le> 2 ^ s" using half by (auto simp: up_def)
    then have "int (2 * r) \<le> int (2 ^ s)" by (simp only: of_nat_le_iff)
    moreover have "int q' * 2 ^ s - int m = - int r" unfolding m q'_def using False by simp
    ultimately show ?thesis by simp
  qed
  have "\<bar>int q' * 2 ^ s - int m\<bar> * 2 ^ 53 \<le> 2 ^ s * 2 ^ 52" using err by simp
  also have "\<dots> = int (2 ^ (s + 52))" by (simp add: power_add)
  also have "\<dots> \<le> int m" using big by (simp only: of_nat_le_iff)
  finally show ?thesis
    using that [of q' s] False by (simp add: round53_def Let_def s_def q_def r_def up_def q'_def)
qed

text \<open>Ticks of 5 MHz have seven decimals in seconds. They print exactly as long as the dividend is below
  \<open>2 ^ 47\<close>: the error of the division is then less than half of the last decimal printed.\<close>

lemma bit_len_quotient:
  assumes "c < 2 ^ 47" "b \<le> 1"
  shows "bit_len (2 * (c * 2 ^ 128 div d) + b) \<le> 177"
proof -
  have "c * 2 ^ 128 < 2 ^ 175" using assms(1) by simp
  then have "c * 2 ^ 128 div d < 2 ^ 175" by (rule le_less_trans [OF div_le_dividend])
  moreover have "2 * q + b < 2 ^ 177" if "q < 2 ^ 175" for q :: nat using that assms(2) by simp
  ultimately show ?thesis by (intro bit_len_le)
qed

lemma two_roundings:
  fixes a m n c :: int
  assumes "\<bar>a - m\<bar> * 2 ^ 53 \<le> m" "\<bar>m * 5000000 - 2 * n\<bar> \<le> 5000000" "n = c * 2 ^ 128" "c < 2 ^ 47"
  shows "2 * \<bar>a * 10 ^ 8 - 2 ^ 129 * (20 * c)\<bar> < 2 ^ 129"
proof -
  have "(a - m) * 2 ^ 53 \<le> m" "(m - a) * 2 ^ 53 \<le> m"
    using assms(1) by (simp_all add: abs_if split: if_splits)
  moreover have "m * 5000000 - 2 * n \<le> 5000000" "2 * n - m * 5000000 \<le> 5000000"
    using assms(2) by (simp_all add: abs_le_iff)
  ultimately have "2 * (a * 10 ^ 8 - 2 ^ 129 * (20 * c)) < 2 ^ 129" "2 * (2 ^ 129 * (20 * c) - a * 10 ^ 8) < 2 ^ 129"
    using assms(3,4) by simp_all
  then show ?thesis by (simp add: abs_if)
qed

lemma dbl_div_exact_print:
  assumes "c < 2 ^ 47"
  shows "printf_8f (dbl_div (dbl_of_nat c) 5000000) = fixed_8 (20 * c)"
proof -
  define n where "n = c * 2 ^ 128"
  define M where "M = 2 * (n div 5000000) + (if 5000000 dvd n then 0 else 1)"
  obtain q s where q: "round53 M (- 129) = (q, - 129 + int s)" "\<bar>int q * 2 ^ s - int M\<bar> * 2 ^ 53 \<le> int M"
    "s \<le> bit_len M - 53"
    using round53_error [of M "- 129"] .
  have "bit_len M \<le> 177" unfolding M_def n_def by (rule bit_len_quotient [OF assms]) simp
  then have s: "s \<le> 124" using q(3) by simp
  have "dbl_of_nat c = (c, 0)" using assms by (simp add: dbl_of_nat_def round53_def bit_len_le)
  then have dbl: "dbl_div (dbl_of_nat c) 5000000 = (q, - 129 + int s)"
    using q(1) by (simp only: dbl_div_def fst_conv snd_conv Let_def n_def [symmetric] M_def [symmetric] diff_0)
  have near: "\<bar>int M * 5000000 - 2 * int n\<bar> \<le> 5000000"
  proof -
    define a where "a = n div 5000000"
    define r where "r = n mod 5000000"
    have "n = 5000000 * a + r" "r < 5000000" by (simp_all add: a_def r_def)
    moreover have "5000000 dvd n \<longleftrightarrow> r = 0" by (simp add: r_def dvd_eq_mod_eq_0)
    ultimately show ?thesis unfolding M_def a_def [symmetric] by (simp add: abs_le_iff)
  qed
  have n: "int n = int c * 2 ^ 128" "int c < 2 ^ 47" using assms by (simp_all add: n_def)
  let ?k = "129 - s"
  have pow: "(2 :: int) ^ ?k * 2 ^ s = 2 ^ 129" using s by (simp flip: power_add)
  have "int q * 2 ^ s * 10 ^ 8 - 2 ^ 129 * (20 * int c) = (int (q * 10 ^ 8) - int (2 ^ ?k) * int (20 * c)) * 2 ^ s"
    unfolding pow [symmetric] by (simp add: algebra_simps)
  then have "2 * \<bar>int (q * 10 ^ 8) - int (2 ^ ?k) * int (20 * c)\<bar> * 2 ^ s =
      2 * \<bar>int q * 2 ^ s * 10 ^ 8 - 2 ^ 129 * (20 * int c)\<bar>"
    by (simp only: abs_mult) simp
  also have "\<dots> < 2 ^ 129" by (rule two_roundings [OF q(2) near n])
  finally have "2 * \<bar>int (q * 10 ^ 8) - int (2 ^ ?k) * int (20 * c)\<bar> < int (2 ^ ?k)"
    unfolding pow [symmetric] by simp
  then have "div_round (q * 10 ^ 8) (2 ^ ?k) = 20 * c" by (rule div_round_near)
  moreover have "nat (129 - int s) = ?k" "- 129 + int s < 0" using s by simp_all
  ultimately show ?thesis by (simp add: printf_8f_def dbl)
qed

end
