(* ===== verification/Addr_Cache_Interface.thy ===== *)
theory Addr_Cache_Interface
  imports Prelude
begin

text \<open>
  The contract of the list of scanned addresses, as the Bluetooth scan handler uses it: a cache
  of the \<open>cap\<close> most recently added keys. The model of \<^verbatim>\<open>scan_list.c\<close> interprets it.
\<close>

fun cache_adds :: "('k \<Rightarrow> 's \<Rightarrow> 's option) \<Rightarrow> 'k list \<Rightarrow> 's \<Rightarrow> 's option" where
  "cache_adds add [] s = Some s"
| "cache_adds add (k # ks) s = Option.bind (add k s) (cache_adds add ks)"

text \<open>The scan handler's use of the cache: an address that is not in it is reported and added.
  The result lists the addresses reported.\<close>

fun report_new ::
  "('k \<Rightarrow> 's \<Rightarrow> bool option) \<Rightarrow> ('k \<Rightarrow> 's \<Rightarrow> 's option) \<Rightarrow> 'k list \<Rightarrow> 's \<Rightarrow> ('k list \<times> 's) option" where
  "report_new check add [] s = Some ([], s)"
| "report_new check add (k # ks) s = do {
     known \<leftarrow> check k s;
     if known then report_new check add ks s
     else do {
       s' \<leftarrow> add k s;
       (reps, s'') \<leftarrow> report_new check add ks s';
       Some (k # reps, s'')
     }
   }"

locale addr_cache =
  fixes inv :: "'s \<Rightarrow> bool"
    and recent :: "'s \<Rightarrow> 'k list"
    and cap :: nat
    and valid :: "'k \<Rightarrow> bool"
    and check :: "'k \<Rightarrow> 's \<Rightarrow> bool option"
    and add :: "'k \<Rightarrow> 's \<Rightarrow> 's option"
  assumes cap_pos: "0 < cap"
    and recent_len: "inv s \<Longrightarrow> length (recent s) = cap"
    and check_iff: "inv s \<Longrightarrow> valid k \<Longrightarrow> check k s = Some (k \<in> set (recent s))"
    and add_recent: "inv s \<Longrightarrow> valid k \<Longrightarrow> \<exists>s'. add k s = Some s' \<and> inv s' \<and> recent s' = tl (recent s) @ [k]"
begin

lemma check_after_add:
  assumes "inv s" "valid k" "add k s = Some s'"
  shows "check k s' = Some True"
proof -
  have "inv s'" "recent s' = tl (recent s) @ [k]" using add_recent [OF assms(1,2)] assms(3) by auto
  then show ?thesis using check_iff [OF _ assms(2), of s'] by simp
qed

theorem adds_keep_newest:
  "inv s \<Longrightarrow> list_all valid ks \<Longrightarrow>
   \<exists>s'. cache_adds add ks s = Some s' \<and> inv s' \<and> recent s' = last_n cap (recent s @ ks)"
proof (induction ks arbitrary: s)
  case Nil
  then show ?case using recent_len by simp
next
  case (Cons k ks)
  obtain s1 where 1: "add k s = Some s1" "inv s1" "recent s1 = tl (recent s) @ [k]"
    using add_recent [of s k] Cons.prems by auto
  obtain s2 where 2: "cache_adds add ks s1 = Some s2" "inv s2"
    "recent s2 = last_n cap (recent s1 @ ks)"
    using Cons.IH [OF 1(2)] Cons.prems by auto
  have "last_n cap (recent s1 @ ks) = last_n cap (recent s @ k # ks)"
    using last_n_snoc_full [OF cap_pos recent_len [OF Cons.prems(1)], of k ks] 1(3) by simp
  then show ?case using 1 2 by auto
qed

text \<open>As long as at most \<open>cap\<close> different addresses are reported, none is reported twice.\<close>

lemma report_new_total:
  "inv s \<Longrightarrow> list_all valid ks \<Longrightarrow> \<exists>reps s'. report_new check add ks s = Some (reps, s') \<and> inv s' \<and>
    recent s' = last_n cap (recent s @ reps) \<and> set reps \<subseteq> set ks"
proof (induction ks arbitrary: s)
  case Nil
  then show ?case using recent_len by simp
next
  case (Cons k ks)
  have ck: "check k s = Some (k \<in> set (recent s))" using check_iff Cons.prems by simp
  show ?case
  proof (cases "k \<in> set (recent s)")
    case True
    then show ?thesis using Cons.IH [OF Cons.prems(1)] Cons.prems(2) ck by fastforce
  next
    case False
    obtain s1 where 1: "add k s = Some s1" "inv s1" "recent s1 = tl (recent s) @ [k]"
      using add_recent [of s k] Cons.prems by auto
    obtain reps s2 where 2: "report_new check add ks s1 = Some (reps, s2)" "inv s2"
      "recent s2 = last_n cap (recent s1 @ reps)" "set reps \<subseteq> set ks"
      using Cons.IH [OF 1(2)] Cons.prems by auto
    have "last_n cap (recent s1 @ reps) = last_n cap (recent s @ k # reps)"
      using last_n_snoc_full [OF cap_pos recent_len [OF Cons.prems(1)], of k reps] 1(3) by simp
    then show ?thesis using False 1 2 ck by auto
  qed
qed

lemma recent_after_tl:
  "inv s \<Longrightarrow> recent s1 = tl (recent s) @ [k] \<Longrightarrow> x \<in> set (drop i (recent s)) \<Longrightarrow> i \<noteq> 0 \<Longrightarrow>
   x \<in> set (drop (i - 1) (recent s1))"
  by (cases "recent s"; cases i) auto

theorem report_new_distinct:
  assumes "inv s" "list_all valid ks" "report_new check add ks s = Some (reps, s')"
    and "length reps \<le> cap"
  shows "distinct reps"
proof -
  have gen: "\<And>s reps s' old. inv s \<Longrightarrow> list_all valid ks \<Longrightarrow> report_new check add ks s = Some (reps, s') \<Longrightarrow>
    old + length reps \<le> cap \<Longrightarrow>
    distinct reps \<and> set reps \<inter> set (last_n old (recent s)) = {}" for ks
  proof (induction ks)
    case Nil
    then show ?case by simp
  next
    case (Cons k ks)
    have ck: "check k s = Some (k \<in> set (recent s))" using check_iff Cons.prems by simp
    show ?case
    proof (cases "k \<in> set (recent s)")
      case True
      then show ?thesis using Cons.IH [OF Cons.prems(1)] Cons.prems ck by simp
    next
      case False
      obtain s1 where 1: "add k s = Some s1" "inv s1" "recent s1 = tl (recent s) @ [k]"
        using add_recent [of s k] Cons.prems by auto
      obtain reps1 s2 where 2: "report_new check add ks s1 = Some (reps1, s2)" "reps = k # reps1"
        using Cons.prems(3) ck False 1 by (auto split: bind_splits)
      have ih: "distinct reps1 \<and> set reps1 \<inter> set (last_n (Suc old) (recent s1)) = {}"
        using Cons.IH [OF 1(2) _ 2(1), of "Suc old"] Cons.prems(2,4) 2(2) by simp
      have len: "length (recent s) = cap" using recent_len [OF Cons.prems(1)] .
      have "old < cap" using Cons.prems(4) 2(2) by simp
      then have "last_n (Suc old) (recent s1) = last_n old (recent s) @ [k]"
        using 1(3) len by (cases "recent s") (auto simp: last_n_def Suc_diff_le)
      with ih have "distinct (k # reps1) \<and> set (k # reps1) \<inter> set (last_n old (recent s)) = {}"
        using False by (auto simp: last_n_def dest: in_set_dropD)
      then show ?thesis using 2(2) by simp
    qed
  qed
  show ?thesis using gen [OF assms(1-3), of 0] assms(4) by simp
qed

end

end
