(* ===== verification/Scan_List.thy ===== *)
theory Scan_List
  imports Addr_Cache_Interface
begin

text \<open>
  The list of scanned Bluetooth addresses and the address printer of \<^verbatim>\<open>main/scan_list.c\<close>. The
  static struct is the record \<open>ud_gap_scan_list\<close>; the two loops are recursions over their index.
\<close>

section \<open>The list of scanned addresses\<close>

definition SCAN_LIST_LENGTH :: nat where
  "SCAN_LIST_LENGTH = 20"

definition ESP_BD_ADDR_LEN :: nat where
  "ESP_BD_ADDR_LEN = 6"

record ud_gap_scan_list =
  n_start :: u16
  n_end :: u16
  ud_scan_list :: "esp_bd_addr_t list"

definition ud_gap_scan_list_init :: ud_gap_scan_list where
  "ud_gap_scan_list_init =
     \<lparr>n_start = 0, n_end = 0, ud_scan_list = replicate SCAN_LIST_LENGTH (replicate ESP_BD_ADDR_LEN 0)\<rparr>"

definition ud_gap_scan_list_add :: "esp_bd_addr_t \<Rightarrow> ud_gap_scan_list \<Rightarrow> ud_gap_scan_list option" where
  "ud_gap_scan_list_add bd s = do {
     xs \<leftarrow> arr_set (ud_scan_list s) (unat (n_end s)) bd;
     let e = n_end s + 1;
     let e = (if SCAN_LIST_LENGTH \<le> unat e then 0 else e);
     Some (s\<lparr>ud_scan_list := xs, n_end := e\<rparr>)
   }"

text \<open>The comparison loop from index \<open>i\<close> on; 1 is returned when it ends, 0 at the first
  difference.\<close>

function ud_compare_from :: "esp_bd_addr_t \<Rightarrow> esp_bd_addr_t \<Rightarrow> nat \<Rightarrow> u8 option" where
  "ud_compare_from bd1 bd2 i =
     (if i < ESP_BD_ADDR_LEN then do {
        a \<leftarrow> arr_get bd1 i;
        b \<leftarrow> arr_get bd2 i;
        if a \<noteq> b then Some 0 else ud_compare_from bd1 bd2 (Suc i)
      }
      else Some 1)"
  by pat_completeness auto
termination
  by (relation "measure (\<lambda>(bd1, bd2, i). ESP_BD_ADDR_LEN - i)") auto

declare ud_compare_from.simps [simp del]

definition ud_compare_bd_addr :: "esp_bd_addr_t \<Rightarrow> esp_bd_addr_t \<Rightarrow> u8 option" where
  "ud_compare_bd_addr bd1 bd2 = ud_compare_from bd1 bd2 0"

function ud_scan_check_from :: "esp_bd_addr_t \<Rightarrow> ud_gap_scan_list \<Rightarrow> nat \<Rightarrow> u8 option" where
  "ud_scan_check_from bd s i =
     (if i < SCAN_LIST_LENGTH then do {
        x \<leftarrow> arr_get (ud_scan_list s) i;
        r \<leftarrow> ud_compare_bd_addr bd x;
        if r = 1 then Some 1 else ud_scan_check_from bd s (Suc i)
      }
      else Some 0)"
  by pat_completeness auto
termination
  by (relation "measure (\<lambda>(bd, s, i). SCAN_LIST_LENGTH - i)") auto

declare ud_scan_check_from.simps [simp del]

definition ud_gap_scan_list_check :: "esp_bd_addr_t \<Rightarrow> ud_gap_scan_list \<Rightarrow> u8 option" where
  "ud_gap_scan_list_check bd s = ud_scan_check_from bd s 0"

subsection \<open>Correctness of the loops\<close>

definition addr_ok :: "esp_bd_addr_t \<Rightarrow> bool" where
  "addr_ok bd \<longleftrightarrow> length bd = ESP_BD_ADDR_LEN"

lemma ud_compare_from_eq:
  "addr_ok bd1 \<Longrightarrow> addr_ok bd2 \<Longrightarrow>
   ud_compare_from bd1 bd2 i = Some (b2u (drop i bd1 = drop i bd2))"
proof (induction bd1 bd2 i rule: ud_compare_from.induct)
  case (1 bd1 bd2 i)
  show ?case
  proof (cases "i < ESP_BD_ADDR_LEN")
    case True
    then have i: "i < length bd1" "i < length bd2" using "1.prems" by (auto simp: addr_ok_def)
    have d: "drop i bd1 = bd1 ! i # drop (Suc i) bd1" "drop i bd2 = bd2 ! i # drop (Suc i) bd2"
      using i by (auto intro: Cons_nth_drop_Suc [symmetric])
    show ?thesis
    proof (cases "bd1 ! i = bd2 ! i")
      case eq: True
      then have "ud_compare_from bd1 bd2 i = ud_compare_from bd1 bd2 (Suc i)"
        using True i by (simp add: ud_compare_from.simps [of bd1 bd2 i])
      then show ?thesis
        using "1.IH" [OF True arr_get_in [OF i(1)] arr_get_in [OF i(2)]] "1.prems" eq d by simp
    next
      case False
      then show ?thesis using True i d by (simp add: ud_compare_from.simps [of bd1 bd2 i])
    qed
  next
    case False
    then show ?thesis
      using "1.prems" by (simp add: ud_compare_from.simps [of bd1 bd2 i] addr_ok_def)
  qed
qed

lemma ud_compare_eq [simp]:
  "addr_ok bd1 \<Longrightarrow> addr_ok bd2 \<Longrightarrow> ud_compare_bd_addr bd1 bd2 = Some (b2u (bd1 = bd2))"
  by (simp add: ud_compare_bd_addr_def ud_compare_from_eq)

definition scan_inv :: "ud_gap_scan_list \<Rightarrow> bool" where
  "scan_inv s \<longleftrightarrow> length (ud_scan_list s) = SCAN_LIST_LENGTH \<and> list_all addr_ok (ud_scan_list s) \<and>
     unat (n_end s) < SCAN_LIST_LENGTH"

text \<open>The addresses held, the oldest first.\<close>

definition scan_recent :: "ud_gap_scan_list \<Rightarrow> esp_bd_addr_t list" where
  "scan_recent s = ring_slice (ud_scan_list s) (unat (n_end s)) SCAN_LIST_LENGTH"

lemma scan_inv_init: "scan_inv ud_gap_scan_list_init"
  by (simp add: scan_inv_def ud_gap_scan_list_init_def SCAN_LIST_LENGTH_def addr_ok_def
      list_all_length)

lemma scan_recent_init: "scan_recent ud_gap_scan_list_init = replicate 20 (replicate 6 0)"
  by (rule nth_equalityI)
     (simp_all add: scan_recent_def ud_gap_scan_list_init_def SCAN_LIST_LENGTH_def
       ESP_BD_ADDR_LEN_def nth_ring_slice)

lemma ud_scan_check_from_eq:
  "scan_inv s \<Longrightarrow> addr_ok bd \<Longrightarrow>
   ud_scan_check_from bd s i = Some (b2u (bd \<in> set (drop i (ud_scan_list s))))"
proof (induction bd s i rule: ud_scan_check_from.induct)
  case (1 bd s i)
  show ?case
  proof (cases "i < SCAN_LIST_LENGTH")
    case True
    then have i: "i < length (ud_scan_list s)" using "1.prems" by (simp add: scan_inv_def)
    have ok: "addr_ok (ud_scan_list s ! i)"
      using i "1.prems" by (auto simp: scan_inv_def list_all_length)
    have d: "drop i (ud_scan_list s) = ud_scan_list s ! i # drop (Suc i) (ud_scan_list s)"
      using i by (rule Cons_nth_drop_Suc [symmetric])
    show ?thesis
    proof (cases "bd = ud_scan_list s ! i")
      case eq: True
      have "ud_scan_check_from bd s i = Some 1"
        using True i ok eq by (subst ud_scan_check_from.simps) simp
      then show ?thesis using eq d by simp
    next
      case False
      then have "ud_scan_check_from bd s i = ud_scan_check_from bd s (Suc i)"
        using True i ok "1.prems" by (simp add: ud_scan_check_from.simps [of bd s i])
      moreover have "ud_scan_check_from bd s (Suc i) =
          Some (b2u (bd \<in> set (drop (Suc i) (ud_scan_list s))))"
        using "1.IH" [OF True arr_get_in [OF i], of 0] False ok "1.prems" by simp
      ultimately show ?thesis using False d by simp
    qed
  next
    case False
    then show ?thesis
      using "1.prems" by (simp add: ud_scan_check_from.simps [of bd s i] scan_inv_def)
  qed
qed

lemma scan_check_eq:
  assumes "scan_inv s" "addr_ok bd"
  shows "ud_gap_scan_list_check bd s = Some (b2u (bd \<in> set (scan_recent s)))"
proof -
  have "set (scan_recent s) = set (ud_scan_list s)"
    using set_ring_slice_full [of "unat (n_end s)" "ud_scan_list s"] assms(1)
    by (simp add: scan_recent_def scan_inv_def)
  then show ?thesis using assms by (simp add: ud_gap_scan_list_check_def ud_scan_check_from_eq)
qed

lemma scan_add_recent:
  assumes "scan_inv s" "addr_ok bd"
  shows "\<exists>s'. ud_gap_scan_list_add bd s = Some s' \<and> scan_inv s' \<and>
    scan_recent s' = tl (scan_recent s) @ [bd]"
proof -
  define e where "e = (if SCAN_LIST_LENGTH \<le> unat (n_end s + 1) then 0 else n_end s + 1)"
  define s' where "s' = s\<lparr>ud_scan_list := (ud_scan_list s)[unat (n_end s) := bd], n_end := e\<rparr>"
  have len: "length (ud_scan_list s) = SCAN_LIST_LENGTH"
    and en: "unat (n_end s) < SCAN_LIST_LENGTH" using assms by (auto simp: scan_inv_def)
  have inc: "unat (n_end s + 1) = Suc (unat (n_end s))"
    using en by (simp add: unat_word_ariths SCAN_LIST_LENGTH_def)
  have e: "unat e = Suc (unat (n_end s)) mod SCAN_LIST_LENGTH"
    unfolding e_def inc using en by (auto simp: inc mod_if)
  have "list_all addr_ok ((ud_scan_list s)[unat (n_end s) := bd])"
    using assms by (auto simp: scan_inv_def list_all_length nth_list_update)
  then have "scan_inv s'" using e len by (simp add: scan_inv_def s'_def SCAN_LIST_LENGTH_def)
  moreover have "scan_recent s' = tl (scan_recent s) @ [bd]"
    using ring_slice_overwrite [of "unat (n_end s)" "ud_scan_list s" bd] e len en
    by (simp add: scan_recent_def s'_def)
  moreover have "ud_gap_scan_list_add bd s = Some s'"
    using len en by (simp add: ud_gap_scan_list_add_def s'_def e_def Let_def)
  ultimately show ?thesis by blast
qed

definition scan_known :: "esp_bd_addr_t \<Rightarrow> ud_gap_scan_list \<Rightarrow> bool option" where
  "scan_known bd s = map_option (\<lambda>r. r \<noteq> 0) (ud_gap_scan_list_check bd s)"

interpretation scan: addr_cache scan_inv scan_recent 20 addr_ok scan_known ud_gap_scan_list_add
proof unfold_locales
  fix s bd
  assume "scan_inv s"
  then show "length (scan_recent s) = 20"
    by (simp add: scan_recent_def SCAN_LIST_LENGTH_def)
  assume "addr_ok bd"
  with \<open>scan_inv s\<close> show "scan_known bd s = Some (bd \<in> set (scan_recent s))"
    by (simp add: scan_known_def scan_check_eq)
  from \<open>scan_inv s\<close> \<open>addr_ok bd\<close> show "\<exists>s'. ud_gap_scan_list_add bd s = Some s' \<and> scan_inv s' \<and>
      scan_recent s' = tl (scan_recent s) @ [bd]"
    by (rule scan_add_recent)
qed simp

lemma scan_inv_add [inv_intros]:
  "scan_inv s \<Longrightarrow> addr_ok bd \<Longrightarrow> ud_gap_scan_list_add bd s = Some s' \<Longrightarrow> scan_inv s'"
  using scan_add_recent by fastforce

section \<open>Printing an address\<close>

text \<open>
  \<open>hex_digit\<close> and \<open>printf_02x\<close> are what \<^verbatim>\<open>%02x\<close> prints for a byte. On the Xtensa target plain
  \<^verbatim>\<open>char\<close> is unsigned, so \<^verbatim>\<open>addr_char[i]\<close> reaches \<^verbatim>\<open>sprintf\<close> as a value below 256.
\<close>

definition hex_digit :: "u8 \<Rightarrow> u8" where
  "hex_digit n = (if n < 10 then 0x30 + n else 0x57 + n)"

definition printf_02x :: "u8 \<Rightarrow> u8 list" where
  "printf_02x c = [hex_digit (c div 16), hex_digit (c mod 16)]"

text \<open>The helper's own conversion, with its three-byte static result.\<close>

definition ud_buffer_to_hex :: "u8 \<Rightarrow> u8 list" where
  "ud_buffer_to_hex inp =
     (let o0 = inp div 16;
          o0 = (if o0 < 10 then o0 + 0x30 else o0 + (0x60 - 0x9));
          o1 = inp mod 16;
          o1 = (if o1 < 10 then o1 + 0x30 else o1 + (0x60 - 0x9))
      in [o0, o1, 0])"

text \<open>\<open>buf_write\<close> copies bytes into a buffer at an offset; \<open>None\<close> when they do not fit.
  \<open>addr_sprintf\<close> is the body of the loop: it also writes the terminating NUL.\<close>

definition buf_write :: "u8 list \<Rightarrow> nat \<Rightarrow> u8 list \<Rightarrow> u8 list option" where
  "buf_write buf off bs =
     (if off + length bs \<le> length buf then Some (take off buf @ bs @ drop (off + length bs) buf)
      else None)"

fun addr_sprintf :: "esp_bd_addr_t \<Rightarrow> nat \<Rightarrow> u8 list \<Rightarrow> u8 list option" where
  "addr_sprintf bd i addr_str = do {
     c \<leftarrow> arr_get bd i;
     if i + 1 = ESP_BD_ADDR_LEN then buf_write addr_str (3 * i) (printf_02x c @ [0])
     else buf_write addr_str (3 * i) (printf_02x c @ [0x3A, 0])
   }"

function addr_to_str_from :: "esp_bd_addr_t \<Rightarrow> nat \<Rightarrow> u8 list \<Rightarrow> u8 list option" where
  "addr_to_str_from bd i addr_str =
     (if i < ESP_BD_ADDR_LEN
      then Option.bind (addr_sprintf bd i addr_str) (addr_to_str_from bd (Suc i))
      else Some addr_str)"
  by pat_completeness auto
termination
  by (relation "measure (\<lambda>(bd, i, s). ESP_BD_ADDR_LEN - i)") auto

declare addr_to_str_from.simps [simp del] addr_sprintf.simps [simp del]

text \<open>The second argument is the content of the static buffer \<^verbatim>\<open>addr_str\<close> at the call.\<close>

definition ud_bd_addr_to_str :: "esp_bd_addr_t \<Rightarrow> u8 list \<Rightarrow> u8 list option" where
  "ud_bd_addr_to_str bd addr_str = addr_to_str_from bd 0 addr_str"

subsection \<open>The text and its inverse\<close>

fun addr_text :: "esp_bd_addr_t \<Rightarrow> u8 list" where
  "addr_text [] = []"
| "addr_text [c] = printf_02x c"
| "addr_text (c # cs) = printf_02x c @ 0x3A # addr_text cs"

definition hex_value :: "u8 \<Rightarrow> u8 option" where
  "hex_value d = (if 0x30 \<le> d \<and> d \<le> 0x39 then Some (d - 0x30)
     else if 0x61 \<le> d \<and> d \<le> 0x66 then Some (d - 0x57) else None)"

fun parse_addr :: "u8 list \<Rightarrow> esp_bd_addr_t option" where
  "parse_addr [] = Some []"
| "parse_addr [a, b] = do { x \<leftarrow> hex_value a; y \<leftarrow> hex_value b; Some [16 * x + y] }"
| "parse_addr (a # b # s # cs) =
     (if s = 0x3A then do { x \<leftarrow> hex_value a; y \<leftarrow> hex_value b; zs \<leftarrow> parse_addr cs; Some ((16 * x + y) # zs) }
      else None)"
| "parse_addr [a] = None"

lemma hex_value_digit: "n < 16 \<Longrightarrow> hex_value (hex_digit n) = Some n"
  unfolding hex_value_def hex_digit_def by (auto simp: word_less_nat_alt word_le_nat_alt unat_word_ariths)

lemma byte_split: "16 * ((c :: u8) div 16) + c mod 16 = c"
  by (metis mult.commute div_mult_mod_eq)

lemma byte_halves: "(c :: u8) div 16 < 16" "(c :: u8) mod 16 < 16"
proof -
  have "unat c < 256" using unsigned_less [of c] by simp
  then show "c div 16 < 16" "c mod 16 < 16"
    by (auto simp: word_less_nat_alt unat_div unat_mod)
qed

lemma parse_addr_text: "parse_addr (addr_text bd) = Some bd"
  by (induction bd rule: addr_text.induct)
     (simp_all add: printf_02x_def hex_value_digit byte_halves byte_split)

lemma length_printf_02x [simp]: "length (printf_02x c) = 2"
  by (simp add: printf_02x_def)

lemma addr_six:
  assumes "addr_ok bd"
  obtains a b c d e f where "bd = [a, b, c, d, e, f]"
  using assms by (auto simp: addr_ok_def ESP_BD_ADDR_LEN_def length_Suc_conv numeral_eq_Suc)

lemma length_addr_text:
  assumes "addr_ok bd"
  shows "length (addr_text bd) = 17"
  using assms by (rule addr_six) simp

lemma addr_to_str_eq:
  assumes "addr_ok bd" "length buf = 18"
  shows "ud_bd_addr_to_str bd buf = Some (addr_text bd @ [0])"
proof -
  obtain a b c d e f where bd: "bd = [a, b, c, d, e, f]" using addr_six [OF assms(1)] .
  show ?thesis
    using assms(2)
    by (simp add: bd ud_bd_addr_to_str_def addr_to_str_from.simps addr_sprintf.simps
        ESP_BD_ADDR_LEN_def buf_write_def printf_02x_def)
qed

lemma ud_buffer_to_hex_eq: "ud_buffer_to_hex c = printf_02x c @ [0]"
  by (simp add: ud_buffer_to_hex_def printf_02x_def hex_digit_def Let_def)

section \<open>Properties\<close>

text \<open>C26: After any sequence of additions to the initial list, an address is reported as known exactly
  when it is among the last 20 entries of the sequence, the list counting as 20 zero addresses at
  the start: the address 00:00:00:00:00:00 is known until 20 others have been added.\<close>

theorem scan_list_knows_last_20:
  assumes "list_all addr_ok bds" "addr_ok bd"
  shows "\<exists>s. cache_adds ud_gap_scan_list_add bds ud_gap_scan_list_init = Some s \<and> scan_inv s \<and>
    ud_gap_scan_list_check bd s = Some (b2u (bd \<in> set (last_n 20 (replicate 20 (replicate 6 0) @ bds))))"
proof -
  obtain s where s: "cache_adds ud_gap_scan_list_add bds ud_gap_scan_list_init = Some s" "scan_inv s"
    "scan_recent s = last_n 20 (replicate 20 (replicate 6 0) @ bds)"
    using scan.adds_keep_newest [OF scan_inv_init assms(1)] by (auto simp: scan_recent_init)
  then show ?thesis using scan_check_eq [OF s(2) assms(2)] by simp
qed

theorem scan_list_knows_last_20_witness:
  "\<exists>s. cache_adds ud_gap_scan_list_add [[1, 2, 3, 4, 5, 6]] ud_gap_scan_list_init = Some s \<and>
     ud_gap_scan_list_check [1, 2, 3, 4, 5, 6] s = Some 1"
  using scan_list_knows_last_20 [of "[[1, 2, 3, 4, 5, 6]]" "[1, 2, 3, 4, 5, 6]"]
  by (auto simp: addr_ok_def ESP_BD_ADDR_LEN_def last_n_def)

text \<open>C28: Printing an address fills the static buffer of 18 bytes exactly: 17 characters and the NUL.
  The text reads back as the address.\<close>

theorem addr_text_roundtrip:
  assumes "addr_ok bd" "length buf = 18"
  shows "\<exists>txt. ud_bd_addr_to_str bd buf = Some (txt @ [0]) \<and> length txt = 17 \<and> parse_addr txt = Some bd"
  using addr_to_str_eq [OF assms] length_addr_text [OF assms(1)] parse_addr_text by blast

theorem addr_text_roundtrip_witness:
  "\<exists>txt. ud_bd_addr_to_str [0xAB, 0, 1, 2, 3, 0xFF] (replicate 18 0) = Some (txt @ [0]) \<and>
     parse_addr txt = Some [0xAB, 0, 1, 2, 3, 0xFF]"
  using addr_text_roundtrip [of "[0xAB, 0, 1, 2, 3, 0xFF]" "replicate 18 0"]
  by (auto simp: addr_ok_def ESP_BD_ADDR_LEN_def)

text \<open>The byte printer of the file gives, for every byte, the two digits \<^verbatim>\<open>%02x\<close> gives and a NUL.\<close>

theorem buffer_to_hex_is_02x: "ud_buffer_to_hex c = printf_02x c @ [0]"
  by (rule ud_buffer_to_hex_eq)

end
