(* ===== verification/Ble_Data.thy ===== *)
theory Ble_Data
  imports Data_Buffer Scan_List
begin

text \<open>
  Data of the Bluetooth client of \<^verbatim>\<open>main/ble.c\<close>: the profile table and the other static
  variables (record \<open>ble_state\<close>), the conversions of a notified value, and the handler of a
  notification, which turns it into a sample. Calls into the Bluetooth stack are recorded in
  \<open>ble_log\<close>, oldest first.
\<close>

unbundle bit_operations_syntax

section \<open>State\<close>

definition PROFILE_NUM :: nat where "PROFILE_NUM = 3"
definition PROFILE_A_APP_ID :: nat where "PROFILE_A_APP_ID = 0"
definition PROFILE_B_APP_ID :: nat where "PROFILE_B_APP_ID = 1"
definition PROFILE_C_APP_ID :: nat where "PROFILE_C_APP_ID = 2"

definition REMOTE_SERVICE_T_UUID :: u16 where "REMOTE_SERVICE_T_UUID = 0x2B1D"
definition REMOTE_NOTIFY_CHAR_T_UUID :: u16 where "REMOTE_NOTIFY_CHAR_T_UUID = 0x2B1D"
definition REMOTE_SERVICE_VDD_UUID :: u16 where "REMOTE_SERVICE_VDD_UUID = 0x99DA"
definition REMOTE_NOTIFY_CHAR_VDD_UUID :: u16 where "REMOTE_NOTIFY_CHAR_VDD_UUID = 0xB65B"

lemmas profile_ids = PROFILE_NUM_def PROFILE_A_APP_ID_def PROFILE_B_APP_ID_def PROFILE_C_APP_ID_def

text \<open>The handlers a profile can point to.\<close>

datatype profile_cb = Profile_A_Handler | Profile_B_Handler | Profile_C_Handler

record gattc_profile_inst =
  gattc_cb :: "profile_cb option"
  gattc_if :: u16
  app_id :: u16
  conn_id :: u16
  service_start_handle :: u16
  service_end_handle :: u16
  char_handle :: u16
  remote_bda :: esp_bd_addr_t
  service_vdd_start_handle :: u16
  service_vdd_end_handle :: u16
  char_vdd_handle :: u16
  get_t_service :: bool
  get_vdd_service :: bool
  p_temperature :: int
  p_vdd :: int
  p_status :: u8

text \<open>Constants of the stack the code passes on, by their names.\<close>

datatype bt_const =
    BLE_SCAN_TYPE_ACTIVE | BLE_ADDR_TYPE_PUBLIC | BLE_SCAN_FILTER_ALLOW_ALL | BLE_SCAN_DUPLICATE_ENABLE
  | ESP_IO_CAP_NONE | ESP_BLE_ENC_KEY_MASK | ESP_BLE_ID_KEY_MASK
  | ESP_BLE_OOB_DISABLE

datatype esp_ble_auth_req_t =
    ESP_LE_AUTH_NO_BOND | ESP_LE_AUTH_BOND | ESP_LE_AUTH_REQ_MITM | ESP_LE_AUTH_REQ_BOND_MITM
  | ESP_LE_AUTH_REQ_SC_ONLY | ESP_LE_AUTH_REQ_SC_BOND | ESP_LE_AUTH_REQ_SC_MITM | ESP_LE_AUTH_REQ_SC_MITM_BOND
  | Other_Auth_Req u8

record esp_ble_scan_params_t =
  scan_type :: bt_const
  own_addr_type :: bt_const
  scan_filter_policy :: bt_const
  scan_interval :: u16
  scan_window :: u16
  scan_duplicate :: bt_const

datatype ble_call =
    Gap_Start_Scanning u32 | Gap_Stop_Scanning | Gap_Set_Scan_Params esp_ble_scan_params_t | Gap_Config_Local_Privacy bool
  | Gattc_Open u16 esp_bd_addr_t u8 bool \<comment> \<open>interface, device, type of its address, direct\<close>
  | Gattc_Send_Mtu_Req u8 u16 | Gattc_Search_Service u8 u16
  | Gattc_Register_For_Notify u8 esp_bd_addr_t u16
  | Gattc_Write_Char u8 u16 u16 "u8 list"
  | Gap_Oob_Req_Reply esp_bd_addr_t "u8 list" | Gap_Security_Rsp esp_bd_addr_t bool
  | Gap_Confirm_Reply esp_bd_addr_t bool
  | Gap_Update_Whitelist bool esp_bd_addr_t | Gap_Disconnect esp_bd_addr_t
  | Gap_Remove_Bond esp_bd_addr_t

record ble_state =
  conn_device_a :: bool
  conn_device_b :: bool
  conn_device_c :: bool
  Isconnecting :: bool
  stop_scan_done :: bool
  gl_profile_tab :: "gattc_profile_inst list"
  scan_list :: ud_gap_scan_list
  ble_queue :: queue_state
  addr_str :: "u8 list"
  ble_log :: "ble_call list"

definition ESP_GATT_IF_NONE :: u8 where "ESP_GATT_IF_NONE = 0xFF"

definition profile_reset :: "profile_cb \<Rightarrow> gattc_profile_inst" where
  "profile_reset cb = \<lparr>gattc_cb = Some cb, gattc_if = ucast ESP_GATT_IF_NONE, app_id = 0, conn_id = 0,
     service_start_handle = 0, service_end_handle = 0, char_handle = 0,
     remote_bda = replicate ESP_BD_ADDR_LEN 0, service_vdd_start_handle = 0, service_vdd_end_handle = 0,
     char_vdd_handle = 0, get_t_service = False, get_vdd_service = False, p_temperature = 0, p_vdd = 0,
     p_status = 0\<rparr>"

definition ble_reset :: ble_state where
  "ble_reset = \<lparr>conn_device_a = False, conn_device_b = False, conn_device_c = False,
     Isconnecting = False, stop_scan_done = False,
     gl_profile_tab = [profile_reset Profile_A_Handler, profile_reset Profile_B_Handler,
       profile_reset Profile_C_Handler],
     scan_list = ud_gap_scan_list_init, ble_queue = queue_buffer_init,
     addr_str = replicate 18 0, ble_log = []\<rparr>"

definition ble_do :: "ble_call \<Rightarrow> ble_state \<Rightarrow> ble_state" where
  "ble_do c s = s\<lparr>ble_log := ble_log s @ [c]\<rparr>"

definition upd_profile ::
  "nat \<Rightarrow> (gattc_profile_inst \<Rightarrow> gattc_profile_inst) \<Rightarrow> ble_state \<Rightarrow> ble_state option" where
  "upd_profile i f s = do {
     p \<leftarrow> arr_get (gl_profile_tab s) i;
     tab \<leftarrow> arr_set (gl_profile_tab s) i (f p);
     Some (s\<lparr>gl_profile_tab := tab\<rparr>)
   }"

section \<open>A notification\<close>

text \<open>The parameter of a notification: \<open>n_after_bda\<close> is the memory that follows the six bytes of
  \<^verbatim>\<open>remote_bda\<close> in the parameter object.\<close>

record notify_param =
  n_remote_bda :: esp_bd_addr_t
  n_after_bda :: "u8 list"
  n_handle :: u16
  n_value_len :: u16
  n_value :: "u8 list"

definition DataToTemperature :: "notify_param \<Rightarrow> int option" where
  "DataToTemperature p =
     (if n_value_len p \<noteq> 2 then Some 1000
      else do {
        v1 \<leftarrow> arr_get (n_value p) 1;
        v0 \<leftarrow> arr_get (n_value p) 0;
        Some (uint (v1 AND 0x03) * 256 + uint v0)
      })"

definition DataToSwitch :: "notify_param \<Rightarrow> u8 option" where
  "DataToSwitch p =
     (if n_value_len p \<noteq> 2 then Some 2
      else do {
        v1 \<leftarrow> arr_get (n_value p) 1;
        Some (if v1 AND 0x04 \<noteq> 0 then 1 else 0)
      })"

definition DataToVdd :: "notify_param \<Rightarrow> int option" where
  "DataToVdd p =
     (if n_value_len p \<noteq> 2 then Some 0
      else do {
        v1 \<leftarrow> arr_get (n_value p) 1;
        v0 \<leftarrow> arr_get (n_value p) 0;
        Some (uint v1 * 256 + uint v0)
      })"

text \<open>A struct of 24 bytes read from memory: the little-endian layout of \<open>def_queue_buffer\<close>, with
  two bytes of padding before \<open>temperature\<close> and two before \<open>mv1\<close>.\<close>

definition le32 :: "u8 list \<Rightarrow> u32" where
  "le32 bs = ucast (bs ! 0) OR push_bit 8 (ucast (bs ! 1)) OR push_bit 16 (ucast (bs ! 2)) OR
     push_bit 24 (ucast (bs ! 3))"

definition sample_of_bytes :: "u8 list \<Rightarrow> def_queue_buffer option" where
  "sample_of_bytes bs =
     (if length bs < 24 then None
      else Some \<lparr>mac_addr = take 6 bs, temperature = le32 (drop 8 bs), vdd = bs ! 12, status = bs ! 13,
        mv1 = le32 (drop 16 bs), mv2 = le32 (drop 20 bs)\<rparr>)"

text \<open>The body of the loop for a profile whose address matched.\<close>

definition notify_profile :: "notify_param \<Rightarrow> gattc_profile_inst \<Rightarrow> gattc_profile_inst option" where
  "notify_profile p prof =
     (if n_handle p = char_handle prof then do {
        sw \<leftarrow> DataToSwitch p;
        t \<leftarrow> DataToTemperature p;
        Some (prof\<lparr>p_status := sw, p_temperature := t\<rparr>)
      }
      else if n_handle p = char_vdd_handle prof then do {
        v \<leftarrow> DataToVdd p;
        Some (prof\<lparr>p_vdd := v\<rparr>)
      }
      else Some prof)"

text \<open>\<open>int\<close> to \<open>uint8_t\<close> keeps the low eight bits.\<close>

definition notify_sample :: "gattc_profile_inst \<Rightarrow> def_queue_buffer \<Rightarrow> def_queue_buffer" where
  "notify_sample prof tmp =
     tmp\<lparr>status := p_status prof, temperature := of_int (p_temperature prof), vdd := of_int (p_vdd prof)\<rparr>"

function notify_from :: "notify_param \<Rightarrow> def_queue_buffer \<Rightarrow> nat \<Rightarrow> ble_state \<Rightarrow> ble_state option" where
  "notify_from p tmp i s =
     (if i < PROFILE_NUM then do {
        prof \<leftarrow> arr_get (gl_profile_tab s) i;
        r \<leftarrow> ud_compare_bd_addr (n_remote_bda p) (remote_bda prof);
        if r \<noteq> 0 then do {
          prof \<leftarrow> notify_profile p prof;
          s \<leftarrow> upd_profile i (\<lambda>_. prof) s;
          q \<leftarrow> queue_buffer_insert (notify_sample prof tmp) True (ble_queue s);
          tmp \<leftarrow> queue_buffer_peek q;
          Some (s\<lparr>ble_queue := q\<rparr>)
        }
        else notify_from p tmp (Suc i) s
      }
      else Some s)"
  by pat_completeness auto
termination
  by (relation "measure (\<lambda>(p, tmp, i, s). PROFILE_NUM - i)") auto

declare notify_from.simps [simp del]

definition notifyCallback :: "notify_param \<Rightarrow> ble_state \<Rightarrow> ble_state option" where
  "notifyCallback p s = do {
     buf \<leftarrow> ud_bd_addr_to_str (n_remote_bda p) (addr_str s);
     let s = s\<lparr>addr_str := buf\<rparr>;
     tmp \<leftarrow> sample_of_bytes (n_remote_bda p @ n_after_bda p);
     notify_from p tmp 0 s
   }"

section \<open>Conversions\<close>

definition value_ok :: "notify_param \<Rightarrow> bool" where
  "value_ok p \<longleftrightarrow> unat (n_value_len p) \<le> length (n_value p)"

lemma value_ok_2: "value_ok p \<Longrightarrow> n_value_len p = 2 \<Longrightarrow> 1 < length (n_value p) \<and> 0 < length (n_value p)"
  by (auto simp: value_ok_def)

lemma and_3_bound: "uint ((b :: u8) AND 3) < 4"
proof -
  have "b AND 3 = take_bit 2 b" by (simp add: take_bit_eq_mask mask_eq_exp_minus_1)
  then have "uint (b AND 3) = take_bit 2 (uint b)" by (simp add: unsigned_take_bit_eq)
  then show ?thesis using take_bit_int_less_exp [of 2 "uint b"] by simp
qed

lemma DataToTemperature_range:
  assumes "value_ok p"
  shows "\<exists>t. DataToTemperature p = Some t \<and> 0 \<le> t \<and> t \<le> 1023"
proof (cases "n_value_len p = 2")
  case True
  have "uint (n_value p ! 0) < 256" using uint_lt2p [of "n_value p ! 0"] by simp
  moreover have "uint (n_value p ! 1 AND 3) \<le> 3" using and_3_bound [of "n_value p ! 1"] by simp
  ultimately show ?thesis
    using value_ok_2 [OF assms True] True by (simp add: DataToTemperature_def)
qed (simp add: DataToTemperature_def)

lemma DataToSwitch_range: "value_ok p \<Longrightarrow> \<exists>w. DataToSwitch p = Some w \<and> w \<in> {0, 1, 2}"
  using value_ok_2 by (cases "n_value_len p = 2") (auto simp: DataToSwitch_def)

lemma DataToVdd_range:
  assumes "value_ok p"
  shows "\<exists>v. DataToVdd p = Some v \<and> 0 \<le> v \<and> v \<le> 65535"
proof (cases "n_value_len p = 2")
  case True
  have "uint (n_value p ! 0) < 256" "uint (n_value p ! 1) < 256"
    using uint_lt2p [of "n_value p ! 0"] uint_lt2p [of "n_value p ! 1"] by simp_all
  then show ?thesis using value_ok_2 [OF assms True] True by (simp add: DataToVdd_def)
qed (simp add: DataToVdd_def)

section \<open>Invariant and the notification handler\<close>

definition profile_ok :: "gattc_profile_inst \<Rightarrow> bool" where
  "profile_ok p \<longleftrightarrow> addr_ok (remote_bda p)"

definition ble_inv :: "ble_state \<Rightarrow> bool" where
  "ble_inv s \<longleftrightarrow> length (gl_profile_tab s) = PROFILE_NUM \<and> list_all profile_ok (gl_profile_tab s) \<and>
     scan_inv (scan_list s) \<and> queue_inv (ble_queue s) \<and> length (addr_str s) = 18"

text \<open>\<open>notify_wf\<close> is what the stack passes: an address of six bytes and a value of the length given. The handler
  copies 24 bytes from that address; \<open>notify_ok\<close> says that there is memory to read behind it.\<close>

definition notify_wf :: "notify_param \<Rightarrow> bool" where
  "notify_wf p \<longleftrightarrow> addr_ok (n_remote_bda p) \<and> value_ok p"

definition notify_ok :: "notify_param \<Rightarrow> bool" where
  "notify_ok p \<longleftrightarrow> addr_ok (n_remote_bda p) \<and> value_ok p \<and> 18 \<le> length (n_after_bda p)"

lemma notify_wf_ok: "notify_wf p \<Longrightarrow> 18 \<le> length (n_after_bda p) \<Longrightarrow> notify_ok p"
  by (simp add: notify_wf_def notify_ok_def)

text \<open>Without that memory the copy leaves the address, whatever the state.\<close>

lemma notify_overreads: "notify_wf p \<Longrightarrow> length (n_after_bda p) < 18 \<Longrightarrow> notifyCallback p s = None"
  by (simp add: notify_wf_def notifyCallback_def sample_of_bytes_def addr_ok_def ESP_BD_ADDR_LEN_def split: bind_splits)

lemma ble_inv_reset: "ble_inv ble_reset"
  by (simp add: ble_inv_def ble_reset_def profile_ok_def profile_reset_def PROFILE_NUM_def
      scan_inv_init queue_inv_init addr_ok_def)

lemma ble_inv_do [simp]: "ble_inv (ble_do c s) = ble_inv s"
  by (simp add: ble_inv_def ble_do_def)

lemma upd_profile_ok:
  assumes "ble_inv s" "i < PROFILE_NUM"
  shows "upd_profile i f s = Some (s\<lparr>gl_profile_tab := (gl_profile_tab s)[i := f (gl_profile_tab s ! i)]\<rparr>)"
  using assms by (simp add: upd_profile_def ble_inv_def)

lemma ble_inv_upd:
  assumes "ble_inv s" "profile_ok p"
  shows "ble_inv (s\<lparr>gl_profile_tab := (gl_profile_tab s)[i := p]\<rparr>)"
  using assms by (auto simp: ble_inv_def list_all_iff dest: set_update_subset_insert [THEN subsetD])

lemma profile_at: "ble_inv s \<Longrightarrow> i < PROFILE_NUM \<Longrightarrow> profile_ok (gl_profile_tab s ! i)"
  by (simp add: ble_inv_def list_all_length)

lemma notify_profile_ok:
  assumes "value_ok p" "profile_ok prof"
  shows "\<exists>prof'. notify_profile p prof = Some prof' \<and> profile_ok prof' \<and> remote_bda prof' = remote_bda prof"
proof -
  obtain t w v where "DataToTemperature p = Some t" "DataToSwitch p = Some w" "DataToVdd p = Some v"
    using DataToTemperature_range [OF assms(1)] DataToSwitch_range [OF assms(1)]
      DataToVdd_range [OF assms(1)] by blast
  then show ?thesis using assms(2) by (auto simp: notify_profile_def profile_ok_def)
qed

text \<open>The loop finds the first profile of the address, and leaves everything else alone.\<close>

definition first_profile :: "esp_bd_addr_t \<Rightarrow> ble_state \<Rightarrow> nat \<Rightarrow> nat \<Rightarrow> bool" where
  "first_profile bda s i k \<longleftrightarrow> i \<le> k \<and> k < PROFILE_NUM \<and> remote_bda (gl_profile_tab s ! k) = bda \<and>
     (\<forall>j. i \<le> j \<and> j < k \<longrightarrow> remote_bda (gl_profile_tab s ! j) \<noteq> bda)"

lemma notify_from_match:
  "ble_inv s \<Longrightarrow> notify_ok p \<Longrightarrow> first_profile (n_remote_bda p) s i k \<Longrightarrow>
   \<exists>prof q. notify_profile p (gl_profile_tab s ! k) = Some prof \<and>
     queue_buffer_insert (notify_sample prof tmp) True (ble_queue s) = Some q \<and>
     notify_from p tmp i s = Some (s\<lparr>gl_profile_tab := (gl_profile_tab s)[k := prof], ble_queue := q\<rparr>) \<and>
     ble_inv (s\<lparr>gl_profile_tab := (gl_profile_tab s)[k := prof], ble_queue := q\<rparr>)"
proof (induction p tmp i s rule: notify_from.induct)
  case (1 p tmp i s)
  have i: "i < PROFILE_NUM" "i < length (gl_profile_tab s)"
    using "1.prems" by (auto simp: first_profile_def ble_inv_def)
  have ok: "profile_ok (gl_profile_tab s ! i)" "addr_ok (n_remote_bda p)"
    using "1.prems" profile_at i by (auto simp: notify_ok_def)
  have cmp: "ud_compare_bd_addr (n_remote_bda p) (remote_bda (gl_profile_tab s ! i)) =
      Some (b2u (n_remote_bda p = remote_bda (gl_profile_tab s ! i)))"
    using ok by (simp add: profile_ok_def)
  show ?case
  proof (cases "n_remote_bda p = remote_bda (gl_profile_tab s ! i)")
    case True
    then have k: "k = i" using "1.prems"(3) unfolding first_profile_def by (metis le_neq_implies_less le_refl)
    obtain prof where prof: "notify_profile p (gl_profile_tab s ! i) = Some prof" "profile_ok prof"
      using notify_profile_ok [OF _ ok(1)] "1.prems"(2) by (auto simp: notify_ok_def)
    obtain q where q: "queue_buffer_insert (notify_sample prof tmp) True (ble_queue s) = Some q" "queue_inv q"
      using ring.ins_items [of "ble_queue s" "notify_sample prof tmp" True] "1.prems"(1)
      by (auto simp: ble_inv_def)
    have "ble_inv (s\<lparr>gl_profile_tab := (gl_profile_tab s)[i := prof], ble_queue := q\<rparr>)"
      using ble_inv_upd [OF "1.prems"(1) prof(2), of i] q(2) by (simp add: ble_inv_def)
    moreover obtain x where "queue_buffer_peek q = Some x" using ring.peek_total [OF q(2)] by auto
    ultimately show ?thesis
      using True cmp i prof q k upd_profile_ok [OF "1.prems"(1) i(1), of "\<lambda>_. prof"]
      by (simp add: notify_from.simps [of p tmp i s])
  next
    case False
    then have nxt: "first_profile (n_remote_bda p) s (Suc i) k"
      using "1.prems"(3) by (auto simp: first_profile_def le_eq_less_or_eq)
    have "notify_from p tmp i s = notify_from p tmp (Suc i) s"
      using False cmp i by (simp add: notify_from.simps [of p tmp i s])
    then show ?thesis
      using "1.IH" [OF i(1) arr_get_in [OF i(2)] cmp _ "1.prems"(1,2) nxt] False by simp
  qed
qed

lemma notify_from_none:
  "ble_inv s \<Longrightarrow> notify_ok p \<Longrightarrow> \<forall>j. i \<le> j \<and> j < PROFILE_NUM \<longrightarrow> remote_bda (gl_profile_tab s ! j) \<noteq> n_remote_bda p \<Longrightarrow>
   notify_from p tmp i s = Some s"
proof (induction p tmp i s rule: notify_from.induct)
  case (1 p tmp i s)
  show ?case
  proof (cases "i < PROFILE_NUM")
    case True
    then have i: "i < length (gl_profile_tab s)" using "1.prems" by (simp add: ble_inv_def)
    have cmp: "ud_compare_bd_addr (n_remote_bda p) (remote_bda (gl_profile_tab s ! i)) = Some 0"
      using "1.prems" True profile_at [OF "1.prems"(1) True] by (auto simp: notify_ok_def profile_ok_def)
    have "notify_from p tmp i s = notify_from p tmp (Suc i) s"
      using cmp i True by (simp add: notify_from.simps [of p tmp i s])
    then show ?thesis
      using "1.IH" [OF True arr_get_in [OF i] cmp _ "1.prems"(1,2)] "1.prems"(3) by simp
  next
    case False
    then show ?thesis by (simp add: notify_from.simps [of p tmp i s])
  qed
qed

lemma sample_of_notify:
  assumes "notify_ok p"
  shows "sample_of_bytes (n_remote_bda p @ n_after_bda p) =
    Some \<lparr>mac_addr = n_remote_bda p, temperature = le32 (drop 2 (n_after_bda p)), vdd = n_after_bda p ! 6,
      status = n_after_bda p ! 7, mv1 = le32 (drop 10 (n_after_bda p)), mv2 = le32 (drop 14 (n_after_bda p))\<rparr>"
  using assms by (simp add: sample_of_bytes_def notify_ok_def addr_ok_def ESP_BD_ADDR_LEN_def nth_append)

lemma notifyCallback_match:
  assumes "ble_inv s" "notify_ok p" "first_profile (n_remote_bda p) s 0 k"
  shows "\<exists>prof s' d. notify_profile p (gl_profile_tab s ! k) = Some prof \<and> notifyCallback p s = Some s' \<and>
    ble_inv s' \<and> gl_profile_tab s' = (gl_profile_tab s)[k := prof] \<and>
    queue_items (ble_queue s') = fifo_insert 5 d True (queue_items (ble_queue s)) \<and>
    mac_addr d = n_remote_bda p \<and> status d = p_status prof \<and> temperature d = of_int (p_temperature prof) \<and>
    vdd d = of_int (p_vdd prof) \<and> mv1 d = le32 (drop 10 (n_after_bda p)) \<and> mv2 d = le32 (drop 14 (n_after_bda p)) \<and>
    ble_log s' = ble_log s \<and> conn_device_a s' = conn_device_a s \<and> conn_device_b s' = conn_device_b s \<and>
    conn_device_c s' = conn_device_c s"
proof -
  let ?s = "s\<lparr>addr_str := addr_text (n_remote_bda p) @ [0]\<rparr>"
  have str: "ud_bd_addr_to_str (n_remote_bda p) (addr_str s) = Some (addr_text (n_remote_bda p) @ [0])"
    using addr_to_str_eq assms by (simp add: notify_ok_def ble_inv_def)
  have "length (addr_text (n_remote_bda p) @ [0]) = 18"
    using assms(2) by (simp add: notify_ok_def length_addr_text)
  then have inv: "ble_inv ?s" using assms(1) by (simp add: ble_inv_def)
  have fp: "first_profile (n_remote_bda p) ?s 0 k" using assms(3) by (simp add: first_profile_def)
  obtain tmp where tmp: "sample_of_bytes (n_remote_bda p @ n_after_bda p) = Some tmp"
    "mac_addr tmp = n_remote_bda p" "mv1 tmp = le32 (drop 10 (n_after_bda p))"
    "mv2 tmp = le32 (drop 14 (n_after_bda p))"
    using sample_of_notify [OF assms(2)] by simp
  obtain prof q where r: "notify_profile p (gl_profile_tab ?s ! k) = Some prof"
    "queue_buffer_insert (notify_sample prof tmp) True (ble_queue ?s) = Some q"
    "notify_from p tmp 0 ?s = Some (?s\<lparr>gl_profile_tab := (gl_profile_tab ?s)[k := prof], ble_queue := q\<rparr>)"
    "ble_inv (?s\<lparr>gl_profile_tab := (gl_profile_tab ?s)[k := prof], ble_queue := q\<rparr>)"
    using notify_from_match [OF inv assms(2) fp, of tmp] by blast
  have "queue_items q = fifo_insert 5 (notify_sample prof tmp) True (queue_items (ble_queue s))"
    using ring.ins_items [of "ble_queue s" "notify_sample prof tmp" True] r(2) assms(1)
    by (auto simp: ble_inv_def)
  then show ?thesis
    using str tmp r by (auto simp: notifyCallback_def notify_sample_def intro!: exI [of _ "notify_sample prof tmp"])
qed

section \<open>Properties\<close>

text \<open>A concrete notification and a state whose first profile belongs to its sender.\<close>

definition peer :: esp_bd_addr_t where "peer = [1, 2, 3, 4, 5, 6]"

definition example_note :: notify_param where
  "example_note = \<lparr>n_remote_bda = peer, n_after_bda = replicate 18 9, n_handle = 7, n_value_len = 2, n_value = [0xE8, 0x03]\<rparr>"

definition example_ble :: ble_state where
  "example_ble = ble_reset\<lparr>gl_profile_tab := [(profile_reset Profile_A_Handler)\<lparr>remote_bda := peer, char_handle := 5,
     char_vdd_handle := 7\<rparr>, profile_reset Profile_B_Handler, profile_reset Profile_C_Handler]\<rparr>"

lemma example_ble_ok: "ble_inv example_ble" "notify_ok example_note" "first_profile peer example_ble 0 0"
  using ble_inv_reset
  by (simp_all add: example_ble_def example_note_def ble_inv_def profile_ok_def profile_reset_def peer_def
      addr_ok_def ESP_BD_ADDR_LEN_def PROFILE_NUM_def notify_ok_def value_ok_def first_profile_def)

text \<open>The temperature of a notification lies between 0 and 1023 tenths of a degree: it is never
  negative, although its comment promises \<open>-30\<close> to 100 degrees, and the value 1000 that reports a
  wrong length is also that of a proper notification.\<close>

theorem temperature_range:
  assumes "value_ok p"
  shows "(\<exists>t. DataToTemperature p = Some t \<and> 0 \<le> t \<and> t \<le> 1023 \<and> (n_value_len p \<noteq> 2 \<longrightarrow> t = 1000)) \<and>
    (n_value_len p = 2 \<longrightarrow> n_value p ! 0 = 0xE8 \<longrightarrow> n_value p ! 1 = 0x03 \<longrightarrow> DataToTemperature p = Some 1000)"
proof -
  obtain t where t: "DataToTemperature p = Some t" "0 \<le> t" "t \<le> 1023"
    using DataToTemperature_range [OF assms] by blast
  moreover have "n_value_len p \<noteq> 2 \<Longrightarrow> t = 1000" using t(1) by (simp add: DataToTemperature_def)
  moreover have "DataToTemperature p = Some 1000"
    if "n_value_len p = 2" "n_value p ! 0 = 0xE8" "n_value p ! 1 = 0x03"
    using value_ok_2 [OF assms that(1)] that by (simp add: DataToTemperature_def)
  ultimately show ?thesis by blast
qed

theorem temperature_range_witness: "DataToTemperature example_note = Some 1000"
  using temperature_range [of example_note] example_ble_ok(2) by (simp add: notify_ok_def) (simp add: example_note_def)



end
