(* ===== verification/Ble_Gattc.thy ===== *)
theory Ble_Gattc
  imports Ble_Data
begin

text \<open>
  The GATT client handlers of \<^verbatim>\<open>main/ble.c\<close>. An event and the member of the parameter union it
  selects are one constructor of \<open>gattc_event\<close>. What the stack and the allocator answer during
  a handler is the record \<open>gattc_env\<close>; the array a query fills is a function of the index, and
  the handlers read only its element 0, after a check that it has one. The queries get the
  interface and the connection first, and last the length of the array.
\<close>

section \<open>Events and environment\<close>

datatype gatt_status = ESP_GATT_OK | ESP_GATT_FAILED u8

datatype bt_uuid = UUID16 u16 | UUID32 u32 | UUID128 "u8 list"

datatype gattc_event =
    REG_EVT gatt_status u16
  | CONNECT_EVT
  | OPEN_EVT gatt_status u16 esp_bd_addr_t
  | CFG_MTU_EVT gatt_status u16
  | SEARCH_RES_EVT bt_uuid u16 u16
  | SEARCH_CMPL_EVT gatt_status u16
  | REG_FOR_NOTIFY_EVT gatt_status u16
  | NOTIFY_EVT notify_param
  | WRITE_DESCR_EVT gatt_status
  | WRITE_CHAR_EVT gatt_status
  | SRVC_CHG_EVT esp_bd_addr_t
  | DISCONNECT_EVT esp_bd_addr_t
  | Other_Gattc_Evt

datatype attr_type = ESP_GATT_DB_CHARACTERISTIC | ESP_GATT_DB_DESCRIPTOR

record char_elem =
  ce_handle :: u16
  ce_notify :: bool \<comment> \<open>the notify bit of its properties\<close>

record descr_elem =
  de_handle :: u16
  de_uuid :: bt_uuid

record gattc_env =
  attr_count :: "u8 \<Rightarrow> u16 \<Rightarrow> attr_type \<Rightarrow> u16 \<Rightarrow> u16 \<Rightarrow> u16 \<Rightarrow> u16 \<Rightarrow> gatt_status \<times> u16"
  malloc_ok :: "u16 \<Rightarrow> bool"
  char_by_uuid :: "u8 \<Rightarrow> u16 \<Rightarrow> u16 \<Rightarrow> u16 \<Rightarrow> bt_uuid \<Rightarrow> u16 \<Rightarrow> gatt_status \<times> (nat \<Rightarrow> char_elem) \<times> u16"
  descr_by_char :: "u8 \<Rightarrow> u16 \<Rightarrow> u16 \<Rightarrow> bt_uuid \<Rightarrow> u16 \<Rightarrow> gatt_status \<times> (nat \<Rightarrow> descr_elem) \<times> u16"

definition INVALID_HANDLE :: u16 where "INVALID_HANDLE = 0"

text \<open>The filters of the queries. \<^verbatim>\<open>ESP_GATT_UUID_CHAR_CLIENT_CONFIG\<close> is 0x2902, the number the Bluetooth
  standard gives the client's configuration descriptor.\<close>

definition remote_filter_char_uuid :: bt_uuid where "remote_filter_char_uuid = UUID16 REMOTE_NOTIFY_CHAR_T_UUID"
definition remote_filter_char_vdd_uuid :: bt_uuid where "remote_filter_char_vdd_uuid = UUID16 REMOTE_NOTIFY_CHAR_VDD_UUID"
definition notify_descr_uuid :: bt_uuid where "notify_descr_uuid = UUID16 0x2902"

section \<open>Handlers\<close>

definition start_scan :: "ble_state \<Rightarrow> ble_state" where
  "start_scan s =
     (let s = s\<lparr>stop_scan_done := False\<rparr>; s = s\<lparr>Isconnecting := False\<rparr>
      in ble_do (Gap_Start_Scanning 1) s)"

text \<open>The pointer \<^verbatim>\<open>conn_device\<close> a profile's handler passes.\<close>

datatype conn_ptr = Conn_A | Conn_B | Conn_C

fun set_conn :: "conn_ptr \<Rightarrow> bool \<Rightarrow> ble_state \<Rightarrow> ble_state" where
  "set_conn Conn_A b s = s\<lparr>conn_device_a := b\<rparr>"
| "set_conn Conn_B b s = s\<lparr>conn_device_b := b\<rparr>"
| "set_conn Conn_C b s = s\<lparr>conn_device_c := b\<rparr>"

fun get_conn :: "conn_ptr \<Rightarrow> ble_state \<Rightarrow> bool" where
  "get_conn Conn_A s = conn_device_a s"
| "get_conn Conn_B s = conn_device_b s"
| "get_conn Conn_C s = conn_device_c s"

definition on_open :: "conn_ptr \<Rightarrow> nat \<Rightarrow> u8 \<Rightarrow> gatt_status \<Rightarrow> u16 \<Rightarrow> esp_bd_addr_t \<Rightarrow> ble_state \<Rightarrow> ble_state option" where
  "on_open conn app gif st cid bda s =
     (if st \<noteq> ESP_GATT_OK then Some (set_conn conn False s)
      else do {
        s \<leftarrow> upd_profile app (\<lambda>p. p\<lparr>remote_bda := take 6 bda\<rparr>) s;
        s \<leftarrow> upd_profile app (\<lambda>p. p\<lparr>conn_id := cid\<rparr>) s;
        Some (ble_do (Gattc_Send_Mtu_Req gif cid) s)
      })"

definition on_search_res :: "nat \<Rightarrow> bt_uuid \<Rightarrow> u16 \<Rightarrow> u16 \<Rightarrow> ble_state \<Rightarrow> ble_state option" where
  "on_search_res app uuid start_h end_h s =
     (case uuid of
        UUID16 u \<Rightarrow>
          (if u = REMOTE_SERVICE_T_UUID
           then upd_profile app (\<lambda>p. p\<lparr>get_t_service := True, service_start_handle := start_h,
             service_end_handle := end_h\<rparr>) s
           else if u = REMOTE_SERVICE_VDD_UUID
           then upd_profile app (\<lambda>p. p\<lparr>get_vdd_service := True, service_vdd_start_handle := start_h,
             service_vdd_end_handle := end_h\<rparr>) s
           else Some s)
      | _ \<Rightarrow> Some s)"

text \<open>The two blocks of the search's end. Both use the one variable \<^verbatim>\<open>count\<close>, which the first hands
  on to the second.\<close>

definition search_cmpl_t :: "gattc_env \<Rightarrow> nat \<Rightarrow> u8 \<Rightarrow> u16 \<Rightarrow> u16 \<Rightarrow> ble_state \<Rightarrow> (u16 \<times> ble_state) option" where
  "search_cmpl_t env app gif cid count s = do {
     p \<leftarrow> arr_get (gl_profile_tab s) app;
     if get_t_service p then do {
       let (st, count) = attr_count env gif cid ESP_GATT_DB_CHARACTERISTIC (service_start_handle p)
         (service_end_handle p) INVALID_HANDLE count;
       if count > 0 then
         (if \<not> malloc_ok env count then Some (count, s)
          else do {
            let (st, elems, count) = char_by_uuid env gif cid (service_start_handle p) (service_end_handle p)
              remote_filter_char_uuid count;
            if count > 0 \<and> ce_notify (elems 0) then do {
              s \<leftarrow> upd_profile app (\<lambda>p. p\<lparr>char_handle := ce_handle (elems 0)\<rparr>) s;
              Some (count, ble_do (Gattc_Register_For_Notify gif (remote_bda p) (ce_handle (elems 0))) s)
            }
            else Some (count, s)
          })
       else Some (count, s)
     }
     else Some (count, s)
   }"

definition search_cmpl_vdd :: "gattc_env \<Rightarrow> nat \<Rightarrow> u8 \<Rightarrow> u16 \<Rightarrow> u16 \<Rightarrow> ble_state \<Rightarrow> (u16 \<times> ble_state) option" where
  "search_cmpl_vdd env app gif cid count s = do {
     p \<leftarrow> arr_get (gl_profile_tab s) app;
     if get_vdd_service p then do {
       let (st, count) = attr_count env gif cid ESP_GATT_DB_CHARACTERISTIC (service_vdd_start_handle p)
         (service_vdd_end_handle p) INVALID_HANDLE count;
       if count > 0 then
         (if \<not> malloc_ok env count then Some (count, s)
          else do {
            let (st, elems, count) = char_by_uuid env gif cid (service_vdd_start_handle p)
              (service_vdd_end_handle p) remote_filter_char_vdd_uuid count;
            if count > 0 \<and> ce_notify (elems 0) then do {
              s \<leftarrow> upd_profile app (\<lambda>p. p\<lparr>char_vdd_handle := ce_handle (elems 0)\<rparr>) s;
              Some (count, ble_do (Gattc_Register_For_Notify gif (remote_bda p) (ce_handle (elems 0))) s)
            }
            else Some (count, s)
          })
       else Some (count, s)
     }
     else Some (count, s)
   }"

definition on_search_cmpl :: "gattc_env \<Rightarrow> nat \<Rightarrow> u8 \<Rightarrow> gatt_status \<Rightarrow> u16 \<Rightarrow> ble_state \<Rightarrow> ble_state option" where
  "on_search_cmpl env app gif st cid s =
     (if st \<noteq> ESP_GATT_OK then Some s
      else do {
        (count, s) \<leftarrow> search_cmpl_t env app gif cid 0 s;
        (count, s) \<leftarrow> search_cmpl_vdd env app gif cid count s;
        Some (start_scan s)
      })"

text \<open>The handler of the write confirmation writes 35 bytes to the characteristic.\<close>

definition write_char_data :: "u8 list" where
  "write_char_data = map (\<lambda>i. of_nat (i mod 256)) [0..<35]"

definition on_write_descr :: "nat \<Rightarrow> u8 \<Rightarrow> gatt_status \<Rightarrow> ble_state \<Rightarrow> ble_state option" where
  "on_write_descr app gif st s =
     (if st \<noteq> ESP_GATT_OK then Some s
      else do {
        p \<leftarrow> arr_get (gl_profile_tab s) app;
        Some (ble_do (Gattc_Write_Char gif (conn_id p) (char_handle p) write_char_data) s)
      })"

definition on_disconnect :: "conn_ptr \<Rightarrow> nat \<Rightarrow> esp_bd_addr_t \<Rightarrow> ble_state \<Rightarrow> ble_state option" where
  "on_disconnect conn app bda s = do {
     let s = start_scan s;
     p \<leftarrow> arr_get (gl_profile_tab s) app;
     if take 6 bda = take 6 (remote_bda p)
     then upd_profile app (\<lambda>p. p\<lparr>get_t_service := False, get_vdd_service := False\<rparr>) (set_conn conn False s)
     else Some s
   }"

text \<open>The answer to a registration for notifications, with the errors it logs. The handler looks for the
  descriptor that would enable the notifications; the statement that writes it is commented out, and
  the condition around it (the first descriptor is the wanted one) guards nothing.\<close>

datatype reg_error = Reg_Failed | Attr_Count_Error | No_Memory | Get_Descr_Error | Write_Descr_Error | Descr_Not_Found

definition on_reg_for_notify ::
  "gattc_env \<Rightarrow> nat \<Rightarrow> u8 \<Rightarrow> gatt_status \<Rightarrow> u16 \<Rightarrow> ble_state \<Rightarrow> (reg_error list \<times> ble_state) option" where
  "on_reg_for_notify env app gif st h s =
     (if st \<noteq> ESP_GATT_OK then Some ([Reg_Failed], s)
      else do {
        p \<leftarrow> arr_get (gl_profile_tab s) app;
        let (ret_status, count) = attr_count env gif (conn_id p) ESP_GATT_DB_DESCRIPTOR (service_start_handle p)
          (service_end_handle p) (char_handle p) 0;
        let out = (if ret_status \<noteq> ESP_GATT_OK then [Attr_Count_Error] else []);
        if count > 0 then
          (if \<not> malloc_ok env count then Some (out @ [No_Memory], s)
           else
             let (ret_status, elems, count) = descr_by_char env gif (conn_id p) h notify_descr_uuid count;
                 out = (if ret_status \<noteq> ESP_GATT_OK then out @ [Get_Descr_Error] else out);
                 s = (if count > 0 \<and> de_uuid (elems 0) = notify_descr_uuid then s else s);
                 out = (if ret_status \<noteq> ESP_GATT_OK then out @ [Write_Descr_Error] else out)
             in Some (out, s))
        else Some (out @ [Descr_Not_Found], s)
      })"

text \<open>The switch.\<close>

definition gattc_profile_event_handler ::
  "gattc_env \<Rightarrow> conn_ptr \<Rightarrow> nat \<Rightarrow> gattc_event \<Rightarrow> u8 \<Rightarrow> ble_state \<Rightarrow> ble_state option" where
  "gattc_profile_event_handler env conn app ev gif s =
     (case ev of
        REG_EVT st aid \<Rightarrow> Some (ble_do (Gap_Config_Local_Privacy True) s)
      | CONNECT_EVT \<Rightarrow> Some s
      | OPEN_EVT st cid bda \<Rightarrow> on_open conn app gif st cid bda s
      | CFG_MTU_EVT st cid \<Rightarrow> Some (ble_do (Gattc_Search_Service gif cid) s)
      | SEARCH_RES_EVT uuid start_h end_h \<Rightarrow> on_search_res app uuid start_h end_h s
      | SEARCH_CMPL_EVT st cid \<Rightarrow> on_search_cmpl env app gif st cid s
      | REG_FOR_NOTIFY_EVT st h \<Rightarrow> map_option snd (on_reg_for_notify env app gif st h s)
      | NOTIFY_EVT p \<Rightarrow> notifyCallback p s
      | WRITE_DESCR_EVT st \<Rightarrow> on_write_descr app gif st s
      | WRITE_CHAR_EVT st \<Rightarrow> Some s
      | SRVC_CHG_EVT bda \<Rightarrow> Some s
      | DISCONNECT_EVT bda \<Rightarrow> on_disconnect conn app bda s
      | Other_Gattc_Evt \<Rightarrow> Some s)"

fun gattc_callback :: "profile_cb \<Rightarrow> gattc_env \<Rightarrow> gattc_event \<Rightarrow> u8 \<Rightarrow> ble_state \<Rightarrow> ble_state option" where
  "gattc_callback Profile_A_Handler env ev gif s = gattc_profile_event_handler env Conn_A PROFILE_A_APP_ID ev gif s"
| "gattc_callback Profile_B_Handler env ev gif s = gattc_profile_event_handler env Conn_B PROFILE_B_APP_ID ev gif s"
| "gattc_callback Profile_C_Handler env ev gif s = gattc_profile_event_handler env Conn_C PROFILE_C_APP_ID ev gif s"

function gattc_dispatch :: "gattc_env \<Rightarrow> gattc_event \<Rightarrow> u8 \<Rightarrow> nat \<Rightarrow> ble_state \<Rightarrow> ble_state option" where
  "gattc_dispatch env ev gif idx s =
     (if idx < PROFILE_NUM then do {
        p \<leftarrow> arr_get (gl_profile_tab s) idx;
        s \<leftarrow> (if gif = ESP_GATT_IF_NONE \<or> ucast gif = gattc_if p
             then (case gattc_cb p of None \<Rightarrow> Some s | Some cb \<Rightarrow> gattc_callback cb env ev gif s)
             else Some s);
        gattc_dispatch env ev gif (Suc idx) s
      }
      else Some s)"
  by pat_completeness auto
termination
  by (relation "measure (\<lambda>(env, ev, gif, idx, s). PROFILE_NUM - idx)") auto

declare gattc_dispatch.simps [simp del]

definition esp_gattc_cb :: "gattc_env \<Rightarrow> gattc_event \<Rightarrow> u8 \<Rightarrow> ble_state \<Rightarrow> ble_state option" where
  "esp_gattc_cb env ev gif s =
     (case ev of
        REG_EVT st aid \<Rightarrow>
          (if st = ESP_GATT_OK then do {
             s \<leftarrow> upd_profile (unat aid) (\<lambda>p. p\<lparr>gattc_if := ucast gif\<rparr>) s;
             gattc_dispatch env ev gif 0 s
           }
           else Some s)
      | _ \<Rightarrow> gattc_dispatch env ev gif 0 s)"

definition ble_check_connection :: "ble_state \<Rightarrow> bool" where
  "ble_check_connection s \<longleftrightarrow> conn_device_a s \<or> conn_device_b s \<or> conn_device_c s"

section \<open>No handler leaves an array\<close>

definition gattc_event_ok :: "gattc_event \<Rightarrow> bool" where
  "gattc_event_ok ev \<longleftrightarrow> (case ev of
     REG_EVT st aid \<Rightarrow> unat aid < PROFILE_NUM
   | OPEN_EVT st cid bda \<Rightarrow> addr_ok bda
   | NOTIFY_EVT p \<Rightarrow> notify_ok p
   | _ \<Rightarrow> True)"

lemma ble_inv_start_scan [simp]: "ble_inv (start_scan s) = ble_inv s"
  by (simp add: start_scan_def ble_inv_def ble_do_def)

lemma start_scan_frame [simp]:
  "gl_profile_tab (start_scan s) = gl_profile_tab s" "ble_queue (start_scan s) = ble_queue s"
  "scan_list (start_scan s) = scan_list s" "get_conn c (start_scan s) = get_conn c s"
  by (simp_all add: start_scan_def ble_do_def) (cases c; simp)

lemma ble_do_frame [simp]:
  "gl_profile_tab (ble_do c s) = gl_profile_tab s" "ble_queue (ble_do c s) = ble_queue s"
  "scan_list (ble_do c s) = scan_list s" "get_conn k (ble_do c s) = get_conn k s"
  "stop_scan_done (ble_do c s) = stop_scan_done s" "ble_log (ble_do c s) = ble_log s @ [c]"
  by (simp_all add: ble_do_def) (cases k; simp)

lemma set_conn_frame [simp]:
  "gl_profile_tab (set_conn k b s) = gl_profile_tab s" "ble_queue (set_conn k b s) = ble_queue s"
  "scan_list (set_conn k b s) = scan_list s" "ble_log (set_conn k b s) = ble_log s"
  by (cases k, simp_all)+

lemma get_set_conn [simp]: "get_conn k' (set_conn k b s) = (if k' = k then b else get_conn k' s)"
  by (cases k; cases k') simp_all

lemma ble_inv_set_conn [simp]: "ble_inv (set_conn k b s) = ble_inv s"
  by (cases k) (simp_all add: ble_inv_def)

lemma upd_profile_inv:
  assumes "ble_inv s" "i < PROFILE_NUM" "\<And>p. profile_ok p \<Longrightarrow> profile_ok (f p)"
  shows "\<exists>s'. upd_profile i f s = Some s' \<and> ble_inv s' \<and>
    s' = s\<lparr>gl_profile_tab := (gl_profile_tab s)[i := f (gl_profile_tab s ! i)]\<rparr>"
  using upd_profile_ok [OF assms(1,2), of f] ble_inv_upd [OF assms(1) assms(3) [OF profile_at [OF assms(1,2)]]]
  by simp

lemma notifyCallback_ok:
  assumes "ble_inv s" "notify_ok p"
  shows "\<exists>s'. notifyCallback p s = Some s' \<and> ble_inv s'"
proof (cases "\<exists>j < PROFILE_NUM. remote_bda (gl_profile_tab s ! j) = n_remote_bda p")
  case True
  obtain k where "k < PROFILE_NUM \<and> remote_bda (gl_profile_tab s ! k) = n_remote_bda p"
    "\<forall>j < k. \<not> (j < PROFILE_NUM \<and> remote_bda (gl_profile_tab s ! j) = n_remote_bda p)"
    using exists_least_iff [THEN iffD1, OF True] by blast
  then have "first_profile (n_remote_bda p) s 0 k" by (auto simp: first_profile_def)
  then show ?thesis using notifyCallback_match [OF assms] by blast
next
  case False
  let ?s = "s\<lparr>addr_str := addr_text (n_remote_bda p) @ [0]\<rparr>"
  have "ud_bd_addr_to_str (n_remote_bda p) (addr_str s) = Some (addr_text (n_remote_bda p) @ [0])"
    using addr_to_str_eq assms by (simp add: notify_ok_def ble_inv_def)
  moreover have inv: "ble_inv ?s" using assms by (simp add: ble_inv_def notify_ok_def length_addr_text)
  ultimately show ?thesis
    using notify_from_none [OF inv assms(2), of 0] False sample_of_notify [OF assms(2)]
    by (simp add: notifyCallback_def)
qed

lemma search_cmpl_t_ok:
  assumes "ble_inv s" "app < PROFILE_NUM"
  shows "\<exists>n s'. search_cmpl_t env app gif cid count s = Some (n, s') \<and> ble_inv s'"
proof -
  have i: "app < length (gl_profile_tab s)" using assms by (simp add: ble_inv_def)
  show ?thesis
    using i assms upd_profile_inv [OF assms(1,2)]
    by (fastforce simp: search_cmpl_t_def Let_def profile_ok_def split: prod.splits)
qed

lemma search_cmpl_vdd_ok:
  assumes "ble_inv s" "app < PROFILE_NUM"
  shows "\<exists>n s'. search_cmpl_vdd env app gif cid count s = Some (n, s') \<and> ble_inv s'"
proof -
  have i: "app < length (gl_profile_tab s)" using assms by (simp add: ble_inv_def)
  show ?thesis
    using i assms upd_profile_inv [OF assms(1,2)]
    by (fastforce simp: search_cmpl_vdd_def Let_def profile_ok_def split: prod.splits)
qed

lemma on_reg_for_notify_eq:
  assumes "ble_inv s" "app < PROFILE_NUM"
  shows "\<exists>out. on_reg_for_notify env app gif st h s = Some (out, s)"
proof -
  have "app < length (gl_profile_tab s)" using assms by (simp add: ble_inv_def)
  then show ?thesis by (simp add: on_reg_for_notify_def Let_def split: prod.splits)
qed

lemma gattc_profile_event_handler_ok:
  assumes "ble_inv s" "app < PROFILE_NUM" "gattc_event_ok ev"
  shows "\<exists>s'. gattc_profile_event_handler env conn app ev gif s = Some s' \<and> ble_inv s'"
proof (cases ev)
  case (OPEN_EVT st cid bda)
  let ?f = "\<lambda>p. p\<lparr>remote_bda := take 6 bda\<rparr>"
  have "addr_ok (take 6 bda)"
    using assms(3) OPEN_EVT by (simp add: gattc_event_ok_def addr_ok_def ESP_BD_ADDR_LEN_def)
  then obtain s1 where 1: "upd_profile app ?f s = Some s1" "ble_inv s1"
    using upd_profile_inv [OF assms(1,2), of ?f] by (auto simp: profile_ok_def)
  then obtain s2 where "upd_profile app (\<lambda>p. p\<lparr>conn_id := cid\<rparr>) s1 = Some s2" "ble_inv s2"
    using upd_profile_inv [OF 1(2) assms(2), of "\<lambda>p. p\<lparr>conn_id := cid\<rparr>"] by (auto simp: profile_ok_def)
  then show ?thesis using 1 assms(1) OPEN_EVT by (simp add: gattc_profile_event_handler_def on_open_def)
next
  case (SEARCH_RES_EVT uuid a b)
  have "\<And>f. (\<And>p. remote_bda (f p) = remote_bda p) \<Longrightarrow> \<exists>s'. upd_profile app f s = Some s' \<and> ble_inv s'"
    using upd_profile_inv [OF assms(1,2)] unfolding profile_ok_def by metis
  then show ?thesis using assms(1) SEARCH_RES_EVT
    by (cases uuid) (simp_all add: gattc_profile_event_handler_def on_search_res_def)
next
  case (SEARCH_CMPL_EVT st cid)
  obtain n s1 where 1: "search_cmpl_t env app gif cid 0 s = Some (n, s1)" "ble_inv s1"
    using search_cmpl_t_ok [OF assms(1,2)] by blast
  obtain m s2 where 2: "search_cmpl_vdd env app gif cid n s1 = Some (m, s2)" "ble_inv s2"
    using search_cmpl_vdd_ok [OF 1(2) assms(2)] by blast
  show ?thesis using 1 2 assms(1) SEARCH_CMPL_EVT
    by (simp add: gattc_profile_event_handler_def on_search_cmpl_def)
next
  case (NOTIFY_EVT p)
  then show ?thesis using notifyCallback_ok [OF assms(1)] assms(3)
    by (simp add: gattc_profile_event_handler_def gattc_event_ok_def)
next
  case (DISCONNECT_EVT bda)
  have "ble_inv (set_conn conn False (start_scan s))" using assms(1) by simp
  from upd_profile_inv [OF this assms(2), of "\<lambda>p. p\<lparr>get_t_service := False, get_vdd_service := False\<rparr>"]
  have "\<exists>s'. upd_profile app (\<lambda>p. p\<lparr>get_t_service := False, get_vdd_service := False\<rparr>)
      (set_conn conn False (start_scan s)) = Some s' \<and> ble_inv s'"
    by (auto simp: profile_ok_def)
  moreover have "app < length (gl_profile_tab s)" using assms by (simp add: ble_inv_def)
  ultimately show ?thesis using assms(1) DISCONNECT_EVT
    by (simp add: gattc_profile_event_handler_def on_disconnect_def Let_def)
next
  case (WRITE_DESCR_EVT st)
  have "app < length (gl_profile_tab s)" using assms by (simp add: ble_inv_def)
  then show ?thesis using assms(1) WRITE_DESCR_EVT
    by (simp add: gattc_profile_event_handler_def on_write_descr_def)
next
  case (REG_FOR_NOTIFY_EVT st h)
  obtain out where "on_reg_for_notify env app gif st h s = Some (out, s)"
    using on_reg_for_notify_eq [OF assms(1,2)] by blast
  then show ?thesis using assms(1) REG_FOR_NOTIFY_EVT by (simp add: gattc_profile_event_handler_def)
qed (use assms(1) in \<open>simp_all add: gattc_profile_event_handler_def\<close>)

lemma gattc_callback_ok:
  "ble_inv s \<Longrightarrow> gattc_event_ok ev \<Longrightarrow> \<exists>s'. gattc_callback cb env ev gif s = Some s' \<and> ble_inv s'"
  using gattc_profile_event_handler_ok by (cases cb) (auto simp: profile_ids)

lemma gattc_dispatch_ok:
  "ble_inv s \<Longrightarrow> gattc_event_ok ev \<Longrightarrow> \<exists>s'. gattc_dispatch env ev gif idx s = Some s' \<and> ble_inv s'"
proof (induction env ev gif idx s rule: gattc_dispatch.induct)
  case (1 env ev gif idx s)
  show ?case
  proof (cases "idx < PROFILE_NUM")
    case True
    then have i: "idx < length (gl_profile_tab s)" using "1.prems" by (simp add: ble_inv_def)
    let ?p = "gl_profile_tab s ! idx"
    let ?step = "if gif = ESP_GATT_IF_NONE \<or> ucast gif = gattc_if ?p
      then (case gattc_cb ?p of None \<Rightarrow> Some s | Some cb \<Rightarrow> gattc_callback cb env ev gif s) else Some s"
    have "\<exists>s1. ?step = Some s1 \<and> ble_inv s1"
    proof (cases "gattc_cb ?p")
      case (Some cb)
      then show ?thesis using gattc_callback_ok [OF "1.prems", of cb env gif] "1.prems"(1) by simp
    qed (use "1.prems"(1) in simp)
    then obtain s1 where s1: "?step = Some s1" "ble_inv s1" by blast
    have "gattc_dispatch env ev gif idx s = gattc_dispatch env ev gif (Suc idx) s1"
      using True i s1(1) by (subst gattc_dispatch.simps) simp
    then show ?thesis
      using "1.IH" [OF True arr_get_in [OF i] s1(1) s1(2) "1.prems"(2)] by simp
  next
    case False
    then show ?thesis using "1.prems" by (subst gattc_dispatch.simps) simp
  qed
qed

lemma esp_gattc_cb_ok:
  assumes "ble_inv s" "gattc_event_ok ev"
  shows "\<exists>s'. esp_gattc_cb env ev gif s = Some s' \<and> ble_inv s'"
proof (cases "\<exists>aid. ev = REG_EVT ESP_GATT_OK aid")
  case True
  then obtain aid where ev: "ev = REG_EVT ESP_GATT_OK aid" by blast
  have "unat aid < PROFILE_NUM" using assms(2) ev by (simp add: gattc_event_ok_def)
  from upd_profile_inv [OF assms(1) this, of "\<lambda>p. p\<lparr>gattc_if := ucast gif\<rparr>"]
  obtain s1 where "upd_profile (unat aid) (\<lambda>p. p\<lparr>gattc_if := ucast gif\<rparr>) s = Some s1" "ble_inv s1"
    by (auto simp: profile_ok_def)
  then show ?thesis using gattc_dispatch_ok [OF _ assms(2)] ev by (simp add: esp_gattc_cb_def)
next
  case False
  then show ?thesis using gattc_dispatch_ok [OF assms] assms(1)
    by (cases ev) (auto simp: esp_gattc_cb_def)
qed

section \<open>Properties\<close>

text \<open>An environment for concrete instances: every query finds nothing.\<close>

definition example_env :: gattc_env where
  "example_env = \<lparr>attr_count = \<lambda>_ _ _ _ _ _ _. (ESP_GATT_OK, 0), malloc_ok = \<lambda>_. True,
     char_by_uuid = \<lambda>_ _ _ _ _ _. (ESP_GATT_OK, \<lambda>_. \<lparr>ce_handle = 0, ce_notify = False\<rparr>, 0),
     descr_by_char = \<lambda>_ _ _ _ _. (ESP_GATT_OK, \<lambda>_. \<lparr>de_handle = 0, de_uuid = UUID16 0\<rparr>, 0)\<rparr>"

lemma profile_addr: "ble_inv s \<Longrightarrow> i < PROFILE_NUM \<Longrightarrow> length (remote_bda (gl_profile_tab s ! i)) = 6"
  using profile_at [of s i] by (simp add: profile_ok_def addr_ok_def ESP_BD_ADDR_LEN_def)

text \<open>C33: The end of a connection restarts the scan whatever device it was. It frees the profile, and
  forgets its services, exactly when the device is the profile's own; no other profile changes.\<close>

theorem disconnect_frees_own_profile:
  assumes "ble_inv s" "app < PROFILE_NUM" "addr_ok bda"
  shows "\<exists>s'. gattc_profile_event_handler env conn app (DISCONNECT_EVT bda) gif s = Some s' \<and>
    ble_log s' = ble_log s @ [Gap_Start_Scanning 1] \<and>
    (\<forall>c. get_conn c s' = (get_conn c s \<and> \<not> (c = conn \<and> bda = remote_bda (gl_profile_tab s ! app)))) \<and>
    gl_profile_tab s' = (gl_profile_tab s)[app :=
      (if bda = remote_bda (gl_profile_tab s ! app)
       then (gl_profile_tab s ! app)\<lparr>get_t_service := False, get_vdd_service := False\<rparr> else gl_profile_tab s ! app)]"
proof -
  let ?f = "\<lambda>p. p\<lparr>get_t_service := False, get_vdd_service := False\<rparr> :: gattc_profile_inst"
  have len: "app < length (gl_profile_tab s)" using assms by (simp add: ble_inv_def)
  have six: "take 6 bda = bda" "take 6 (remote_bda (gl_profile_tab s ! app)) = remote_bda (gl_profile_tab s ! app)"
    using assms(3) profile_addr [OF assms(1,2)] by (simp_all add: addr_ok_def ESP_BD_ADDR_LEN_def)
  have inv: "ble_inv (set_conn conn False (start_scan s))" using assms(1) by simp
  have conn: "get_conn c (s'\<lparr>gl_profile_tab := t\<rparr>) = get_conn c s'" for c s' t by (cases c) simp_all
  have log: "ble_log (start_scan s) = ble_log s @ [Gap_Start_Scanning 1]" by (simp add: start_scan_def ble_do_def)
  show ?thesis
    using upd_profile_ok [OF inv assms(2), of ?f] len log
    by (simp add: gattc_profile_event_handler_def on_disconnect_def six conn Let_def)
qed

theorem disconnect_frees_own_profile_witness:
  "\<exists>s'. gattc_profile_event_handler example_env Conn_A 0 (DISCONNECT_EVT peer) 3 (example_ble\<lparr>conn_device_a := True\<rparr>) = Some s' \<and>
     \<not> get_conn Conn_A s'"
proof -
  have inv: "ble_inv (example_ble\<lparr>conn_device_a := True\<rparr>)" using example_ble_ok(1) by (simp add: ble_inv_def)
  have own: "peer = remote_bda (gl_profile_tab (example_ble\<lparr>conn_device_a := True\<rparr>) ! 0)"
    by (simp add: example_ble_def)
  have "addr_ok peer" "0 < PROFILE_NUM" by (simp_all add: peer_def addr_ok_def ESP_BD_ADDR_LEN_def PROFILE_NUM_def)
  then show ?thesis
    using disconnect_frees_own_profile [OF inv, of 0 peer example_env Conn_A 3] own by blast
qed

end
