(* ===== verification/Ble_Gap.thy ===== *)
theory Ble_Gap
  imports Ble_Gattc Run_Interface
begin

text \<open>
  The GAP side of \<^verbatim>\<open>main/ble.c\<close>: scanning, the choice of a profile for a found device, security
  events, and the initialisation \<open>app_ble\<close>. An event and its parameter are one constructor of
  \<open>gap_event\<close>; the list of bonded devices the stack reports is a parameter.
\<close>

section \<open>C strings\<close>

fun c_strlen :: "u8 list \<Rightarrow> nat option" where
  "c_strlen [] = None"
| "c_strlen (c # cs) = (if c = 0 then Some 0 else map_option Suc (c_strlen cs))"

text \<open>\<^verbatim>\<open>strncmp(a, b, n) == 0\<close>; \<open>None\<close> when it runs off the memory of an argument.\<close>

fun strncmp_eq :: "u8 list \<Rightarrow> u8 list \<Rightarrow> nat \<Rightarrow> bool option" where
  "strncmp_eq a b 0 = Some True"
| "strncmp_eq (x # a) (y # b) (Suc n) =
     (if x \<noteq> y then Some False else if x = 0 then Some True else strncmp_eq a b n)"
| "strncmp_eq a b (Suc n) = None"

definition enware :: "u8 list" where
  "enware = [0x65, 0x6E, 0x77, 0x61, 0x72, 0x65]"

definition remote_device_name :: "u8 list list" where
  "remote_device_name = [enware @ [0], enware @ [0], enware @ [0]]"

section \<open>A scan result\<close>

text \<open>\<open>sr_adv_name\<close> is the memory at the pointer \<^verbatim>\<open>esp_ble_resolve_adv_data\<close> returns, or its NULL,
  \<open>sr_adv_name_len\<close> the length it reports.\<close>

record scan_rst =
  sr_bda :: esp_bd_addr_t
  sr_addr_type :: u8
  sr_adv_name :: "u8 list option"
  sr_adv_name_len :: u8

fun check_is_bonded_device :: "esp_bd_addr_t list \<Rightarrow> esp_bd_addr_t \<Rightarrow> bool option" where
  "check_is_bonded_device [] bd_addr = Some False"
| "check_is_bonded_device (d # dev_list) bd_addr = do {
     r \<leftarrow> ud_compare_bd_addr d bd_addr;
     if r \<noteq> 0 then Some True else check_is_bonded_device dev_list bd_addr
   }"

fun remove_all_bonded_devices :: "esp_bd_addr_t list \<Rightarrow> ble_state \<Rightarrow> ble_state" where
  "remove_all_bonded_devices [] s = s"
| "remove_all_bonded_devices (d # dev_list) s = remove_all_bonded_devices dev_list (ble_do (Gap_Remove_Bond d) s)"

definition name_matches :: "nat \<Rightarrow> u8 list \<Rightarrow> u8 \<Rightarrow> bool option" where
  "name_matches i adv_name len = do {
     name \<leftarrow> arr_get remote_device_name i;
     n \<leftarrow> c_strlen name;
     if n = unat len then strncmp_eq adv_name name (unat len) else Some False
   }"

text \<open>The statements each of the six branches repeats for its profile.\<close>

definition claim_profile :: "conn_ptr \<Rightarrow> nat \<Rightarrow> esp_bd_addr_t \<Rightarrow> u8 \<Rightarrow> ble_state \<Rightarrow> ble_state option" where
  "claim_profile conn app bda ty s = do {
     let s = set_conn conn True s;
     let s = ble_do Gap_Stop_Scanning s;
     p \<leftarrow> arr_get (gl_profile_tab s) app;
     let s = ble_do (Gattc_Open (gattc_if p) bda ty True) s;
     Some (s\<lparr>Isconnecting := True\<rparr>)
   }"

definition connect_bonded :: "scan_rst \<Rightarrow> ble_state \<Rightarrow> ble_state option" where
  "connect_bonded r s =
     (if conn_device_a s = False then claim_profile Conn_A PROFILE_A_APP_ID (sr_bda r) (sr_addr_type r) s
      else if conn_device_b s = False then claim_profile Conn_B PROFILE_B_APP_ID (sr_bda r) (sr_addr_type r) s
      else if conn_device_c s = False then claim_profile Conn_C PROFILE_C_APP_ID (sr_bda r) (sr_addr_type r) s
      else Some s)"

definition connect_named :: "scan_rst \<Rightarrow> ble_state \<Rightarrow> ble_state option" where
  "connect_named r s =
     (case sr_adv_name r of
        None \<Rightarrow> Some s
      | Some adv_name \<Rightarrow> do {
          m0 \<leftarrow> name_matches 0 adv_name (sr_adv_name_len r);
          if m0 \<and> conn_device_a s = False then claim_profile Conn_A PROFILE_A_APP_ID (sr_bda r) (sr_addr_type r) s
          else do {
            m1 \<leftarrow> name_matches 1 adv_name (sr_adv_name_len r);
            if m1 \<and> conn_device_b s = False then claim_profile Conn_B PROFILE_B_APP_ID (sr_bda r) (sr_addr_type r) s
            else do {
              m2 \<leftarrow> name_matches 2 adv_name (sr_adv_name_len r);
              if m2 \<and> conn_device_c s = False then claim_profile Conn_C PROFILE_C_APP_ID (sr_bda r) (sr_addr_type r) s
              else Some s
            }
          }
        })"

definition note_scanned :: "scan_rst \<Rightarrow> ble_state \<Rightarrow> ble_state option" where
  "note_scanned r s = do {
     known \<leftarrow> ud_gap_scan_list_check (sr_bda r) (scan_list s);
     if known \<noteq> 0 then Some s
     else map_option (\<lambda>l. s\<lparr>scan_list := l\<rparr>) (ud_gap_scan_list_add (sr_bda r) (scan_list s))
   }"

definition on_scan_result :: "esp_bd_addr_t list \<Rightarrow> scan_rst \<Rightarrow> ble_state \<Rightarrow> ble_state option" where
  "on_scan_result bonds r s = do {
     s \<leftarrow> note_scanned r s;
     if conn_device_a s \<and> conn_device_b s \<and> conn_device_c s \<and> \<not> stop_scan_done s
     then Some (ble_do Gap_Stop_Scanning (s\<lparr>stop_scan_done := True\<rparr>))
     else do {
       bonded \<leftarrow> check_is_bonded_device bonds (sr_bda r);
       if bonded then connect_bonded r s else connect_named r s
     }
   }"

section \<open>The switch\<close>

datatype gap_event =
    UPDATE_CONN_PARAMS_EVT | SCAN_PARAM_SET_COMPLETE_EVT | SCAN_START_COMPLETE_EVT bool
  | SCAN_RESULT_INQ_RES scan_rst | SCAN_RESULT_INQ_CMPL | SCAN_RESULT_OTHER
  | SCAN_STOP_COMPLETE_EVT bool | ADV_STOP_COMPLETE_EVT bool | UPDATE_WHITELIST_COMPLETE_EVT
  | SET_LOCAL_PRIVACY_COMPLETE_EVT bool | PASSKEY_REQ_EVT | OOB_REQ_EVT esp_bd_addr_t
  | LOCAL_IR_EVT | LOCAL_ER_EVT | SEC_REQ_EVT esp_bd_addr_t | NC_REQ_EVT esp_bd_addr_t
  | PASSKEY_NOTIF_EVT | KEY_EVT | AUTH_CMPL_EVT esp_bd_addr_t bool | Other_Gap_Evt

text \<open>What the program answers to the security events, and to the end of the privacy setting that starts
  the first scan.\<close>

definition ble_scan_params :: esp_ble_scan_params_t where
  "ble_scan_params = \<lparr>scan_type = BLE_SCAN_TYPE_ACTIVE, own_addr_type = BLE_ADDR_TYPE_PUBLIC,
     scan_filter_policy = BLE_SCAN_FILTER_ALLOW_ALL, scan_interval = 0x50, scan_window = 0x30,
     scan_duplicate = BLE_SCAN_DUPLICATE_ENABLE\<rparr>"

definition on_local_privacy :: "bool \<Rightarrow> ble_state \<Rightarrow> ble_state" where
  "on_local_privacy success s = (if \<not> success then s else ble_do (Gap_Set_Scan_Params ble_scan_params) s)"

definition on_oob_req :: "esp_bd_addr_t \<Rightarrow> ble_state \<Rightarrow> ble_state" where
  "on_oob_req bda s = (let tk = 1 # replicate 15 0 in ble_do (Gap_Oob_Req_Reply bda tk) s)"

definition on_auth_cmpl :: "esp_bd_addr_t \<Rightarrow> bool \<Rightarrow> ble_state \<Rightarrow> ble_state" where
  "on_auth_cmpl bda success s =
     (if \<not> success then ble_do (Gap_Disconnect bda) (ble_do (Gap_Update_Whitelist False bda) s)
      else ble_do (Gap_Update_Whitelist True bda) s)"

text \<open>The events of pairing. A request is always accepted; the pass keys and the keys themselves are only
  logged.\<close>

definition on_pairing_event :: "gap_event \<Rightarrow> ble_state \<Rightarrow> ble_state" where
  "on_pairing_event ev s =
     (case ev of
        PASSKEY_REQ_EVT \<Rightarrow> s
      | OOB_REQ_EVT bda \<Rightarrow> on_oob_req bda s
      | LOCAL_IR_EVT \<Rightarrow> s
      | LOCAL_ER_EVT \<Rightarrow> s
      | SEC_REQ_EVT bda \<Rightarrow> ble_do (Gap_Security_Rsp bda True) s
      | NC_REQ_EVT bda \<Rightarrow> ble_do (Gap_Confirm_Reply bda True) s
      | PASSKEY_NOTIF_EVT \<Rightarrow> s
      | KEY_EVT \<Rightarrow> s
      | AUTH_CMPL_EVT bda success \<Rightarrow> on_auth_cmpl bda success s
      | _ \<Rightarrow> s)"

definition esp_gap_cb :: "esp_bd_addr_t list \<Rightarrow> gap_event \<Rightarrow> ble_state \<Rightarrow> ble_state option" where
  "esp_gap_cb bonds ev s =
     (case ev of
        SCAN_PARAM_SET_COMPLETE_EVT \<Rightarrow> Some (start_scan s)
      | SCAN_RESULT_INQ_RES r \<Rightarrow> on_scan_result bonds r s
      | SCAN_RESULT_INQ_CMPL \<Rightarrow> Some (start_scan s)
      | SET_LOCAL_PRIVACY_COMPLETE_EVT success \<Rightarrow> Some (on_local_privacy success s)
      | _ \<Rightarrow> Some (on_pairing_event ev s))"

lemmas gap_answers = on_local_privacy_def on_oob_req_def on_auth_cmpl_def on_pairing_event_def Let_def

section \<open>Names and bonds\<close>

definition scan_rst_ok :: "scan_rst \<Rightarrow> bool" where
  "scan_rst_ok r \<longleftrightarrow> addr_ok (sr_bda r) \<and>
     (case sr_adv_name r of None \<Rightarrow> True | Some n \<Rightarrow> unat (sr_adv_name_len r) \<le> length n)"

lemma strncmp_eq_no_nul:
  "n \<le> length a \<Longrightarrow> n \<le> length b \<Longrightarrow> 0 \<notin> set (take n b) \<Longrightarrow> strncmp_eq a b n = Some (take n a = take n b)"
proof (induction a b n rule: strncmp_eq.induct)
  case (2 x a y b n)
  then show ?case by auto
qed auto

lemma name_matches_eq:
  assumes "i < 3" "unat len \<le> length adv_name"
  shows "name_matches i adv_name len = Some (take (unat len) adv_name = enware)"
proof -
  have "arr_get remote_device_name i = Some (enware @ [0])"
    using assms(1) by (auto simp: remote_device_name_def less_Suc_eq numeral_eq_Suc arr_get_def)
  moreover have "c_strlen (enware @ [0]) = Some 6" by (simp add: enware_def)
  moreover have "strncmp_eq adv_name (enware @ [0]) 6 = Some (take 6 adv_name = enware)" if "unat len = 6"
    using strncmp_eq_no_nul [of 6 adv_name "enware @ [0]"] assms(2) that by (simp add: enware_def)
  moreover have "take (unat len) adv_name \<noteq> enware" if "unat len \<noteq> 6"
    using assms(2) that by (auto simp: enware_def dest: arg_cong [where f = length])
  ultimately show ?thesis by (auto simp: name_matches_def)
qed

lemma check_bonded_eq:
  "list_all addr_ok bonds \<Longrightarrow> addr_ok bd \<Longrightarrow> check_is_bonded_device bonds bd = Some (bd \<in> set bonds)"
  by (induction bonds) auto

text \<open>The device a scan result may be connected to: a bonded one, or one that calls itself
  \<^verbatim>\<open>enware\<close>.\<close>

definition wanted :: "esp_bd_addr_t list \<Rightarrow> scan_rst \<Rightarrow> bool" where
  "wanted bonds r \<longleftrightarrow> sr_bda r \<in> set bonds \<or>
     (\<exists>n. sr_adv_name r = Some n \<and> take (unat (sr_adv_name_len r)) n = enware)"

text \<open>The first profile whose flag is clear.\<close>

definition free_slot :: "ble_state \<Rightarrow> (conn_ptr \<times> nat) option" where
  "free_slot s =
     (if \<not> conn_device_a s then Some (Conn_A, 0)
      else if \<not> conn_device_b s then Some (Conn_B, 1)
      else if \<not> conn_device_c s then Some (Conn_C, 2)
      else None)"

lemma claim_profile_eq:
  assumes "ble_inv s" "app < PROFILE_NUM"
  shows "claim_profile conn app bda ty s = Some ((ble_do (Gattc_Open (gattc_if (gl_profile_tab s ! app)) bda ty True)
    (ble_do Gap_Stop_Scanning (set_conn conn True s)))\<lparr>Isconnecting := True\<rparr>)"
  using assms by (simp add: claim_profile_def Let_def ble_inv_def)

lemma ble_inv_Isconnecting [simp]: "ble_inv (s\<lparr>Isconnecting := b\<rparr>) = ble_inv s"
  by (simp add: ble_inv_def)

lemma claim_profile_inv: "ble_inv s \<Longrightarrow> app < PROFILE_NUM \<Longrightarrow> claim_profile conn app bda ty s = Some s' \<Longrightarrow> ble_inv s'"
  by (auto simp: claim_profile_eq)

text \<open>The recent addresses after one was noted.\<close>

definition noted :: "esp_bd_addr_t \<Rightarrow> esp_bd_addr_t list \<Rightarrow> esp_bd_addr_t list" where
  "noted bda recent = (if bda \<in> set recent then recent else tl recent @ [bda])"

lemma note_scanned_ok:
  assumes "ble_inv s" "addr_ok (sr_bda r)"
  shows "\<exists>l. note_scanned r s = Some (s\<lparr>scan_list := l\<rparr>) \<and> ble_inv (s\<lparr>scan_list := l\<rparr>) \<and>
    scan_recent l = noted (sr_bda r) (scan_recent (scan_list s))"
proof (cases "sr_bda r \<in> set (scan_recent (scan_list s))")
  case True
  then show ?thesis using assms
    by (intro exI [of _ "scan_list s"]) (auto simp: note_scanned_def noted_def scan_check_eq ble_inv_def)
next
  case False
  obtain l where "ud_gap_scan_list_add (sr_bda r) (scan_list s) = Some l" "scan_inv l"
    "scan_recent l = tl (scan_recent (scan_list s)) @ [sr_bda r]"
    using scan_add_recent [of "scan_list s" "sr_bda r"] assms by (auto simp: ble_inv_def)
  then show ?thesis using assms False by (auto simp: note_scanned_def noted_def scan_check_eq ble_inv_def)
qed

text \<open>What a scan result does, for a device that is wanted and one that is not.\<close>

lemma on_scan_result_eq:
  assumes "ble_inv s" "scan_rst_ok r" "list_all addr_ok bonds"
  shows "\<exists>l. ble_inv (s\<lparr>scan_list := l\<rparr>) \<and> scan_recent l = noted (sr_bda r) (scan_recent (scan_list s)) \<and>
    on_scan_result bonds r s =
      (if conn_device_a s \<and> conn_device_b s \<and> conn_device_c s \<and> \<not> stop_scan_done s
       then Some (ble_do Gap_Stop_Scanning (s\<lparr>scan_list := l, stop_scan_done := True\<rparr>))
       else if wanted bonds r
       then (case free_slot s of None \<Rightarrow> Some (s\<lparr>scan_list := l\<rparr>)
         | Some (conn, app) \<Rightarrow> claim_profile conn app (sr_bda r) (sr_addr_type r) (s\<lparr>scan_list := l\<rparr>))
       else Some (s\<lparr>scan_list := l\<rparr>))"
proof -
  have ok: "addr_ok (sr_bda r)" using assms(2) by (simp add: scan_rst_ok_def)
  obtain l where l: "note_scanned r s = Some (s\<lparr>scan_list := l\<rparr>)" "ble_inv (s\<lparr>scan_list := l\<rparr>)"
    "scan_recent l = noted (sr_bda r) (scan_recent (scan_list s))"
    using note_scanned_ok [OF assms(1) ok] by blast
  let ?s = "s\<lparr>scan_list := l\<rparr>"
  have named: "connect_named r ?s =
      (if \<exists>n. sr_adv_name r = Some n \<and> take (unat (sr_adv_name_len r)) n = enware
       then (case free_slot s of None \<Rightarrow> Some ?s | Some (conn, app) \<Rightarrow> claim_profile conn app (sr_bda r) (sr_addr_type r) ?s)
       else Some ?s)"
  proof (cases "sr_adv_name r")
    case (Some n)
    then have "unat (sr_adv_name_len r) \<le> length n" using assms(2) by (simp add: scan_rst_ok_def)
    then show ?thesis using Some
      by (simp add: connect_named_def name_matches_eq free_slot_def profile_ids)
  qed (simp add: connect_named_def)
  have "connect_bonded r ?s =
      (case free_slot s of None \<Rightarrow> Some ?s | Some (conn, app) \<Rightarrow> claim_profile conn app (sr_bda r) (sr_addr_type r) ?s)"
    by (simp add: connect_bonded_def free_slot_def profile_ids)
  then show ?thesis
    using l named check_bonded_eq [OF assms(3) ok]
    by (intro exI [of _ l]) (auto simp: on_scan_result_def wanted_def)
qed

definition gap_event_ok :: "gap_event \<Rightarrow> bool" where
  "gap_event_ok ev \<longleftrightarrow> (case ev of SCAN_RESULT_INQ_RES r \<Rightarrow> scan_rst_ok r | _ \<Rightarrow> True)"

lemma free_slot_less: "free_slot s = Some (conn, app) \<Longrightarrow> app < PROFILE_NUM \<and> \<not> get_conn conn s"
  by (auto simp: free_slot_def profile_ids split: if_splits)

lemma esp_gap_cb_ok:
  assumes "ble_inv s" "gap_event_ok ev" "list_all addr_ok bonds"
  shows "\<exists>s'. esp_gap_cb bonds ev s = Some s' \<and> ble_inv s'"
proof (cases ev)
  case (SCAN_RESULT_INQ_RES r)
  then have "scan_rst_ok r" using assms(2) by (simp add: gap_event_ok_def)
  from on_scan_result_eq [OF assms(1) this assms(3)] obtain l where l: "ble_inv (s\<lparr>scan_list := l\<rparr>)"
    "on_scan_result bonds r s =
      (if conn_device_a s \<and> conn_device_b s \<and> conn_device_c s \<and> \<not> stop_scan_done s
       then Some (ble_do Gap_Stop_Scanning (s\<lparr>scan_list := l, stop_scan_done := True\<rparr>))
       else if wanted bonds r
       then (case free_slot s of None \<Rightarrow> Some (s\<lparr>scan_list := l\<rparr>)
         | Some (conn, app) \<Rightarrow> claim_profile conn app (sr_bda r) (sr_addr_type r) (s\<lparr>scan_list := l\<rparr>))
       else Some (s\<lparr>scan_list := l\<rparr>))"
    by blast
  have "ble_inv (s\<lparr>scan_list := l, stop_scan_done := True\<rparr>)" using l(1) by (simp add: ble_inv_def)
  then show ?thesis
    using l SCAN_RESULT_INQ_RES free_slot_less [of s] claim_profile_eq [OF l(1)]
    by (auto simp: esp_gap_cb_def split: option.splits)
qed (use assms in \<open>auto simp: esp_gap_cb_def gap_answers\<close>)

section \<open>Initialisation\<close>

text \<open>The security parameters, each with the value the program gives it.\<close>

datatype sm_param =
    ESP_BLE_SM_AUTHEN_REQ_MODE esp_ble_auth_req_t | ESP_BLE_SM_IOCAP_MODE bt_const | ESP_BLE_SM_MAX_KEY_SIZE u8
  | ESP_BLE_SM_OOB_SUPPORT bt_const | ESP_BLE_SM_SET_INIT_KEY "bt_const list" | ESP_BLE_SM_SET_RSP_KEY "bt_const list"

definition security_params :: "sm_param list" where
  "security_params =
     (let auth_req = ESP_LE_AUTH_REQ_SC_MITM_BOND; iocap = ESP_IO_CAP_NONE; key_size = 16;
          init_key = [ESP_BLE_ENC_KEY_MASK, ESP_BLE_ID_KEY_MASK]; rsp_key = [ESP_BLE_ENC_KEY_MASK, ESP_BLE_ID_KEY_MASK];
          oob_support = ESP_BLE_OOB_DISABLE
      in [ESP_BLE_SM_AUTHEN_REQ_MODE auth_req, ESP_BLE_SM_IOCAP_MODE iocap, ESP_BLE_SM_MAX_KEY_SIZE key_size,
          ESP_BLE_SM_OOB_SUPPORT oob_support, ESP_BLE_SM_SET_INIT_KEY init_key, ESP_BLE_SM_SET_RSP_KEY rsp_key])"

datatype ble_init_call =
    Controller_Mem_Release | Controller_Init | Controller_Enable | Bluedroid_Init | Bluedroid_Enable
  | Gap_Register_Callback | Gattc_Register_Callback | Gattc_App_Register nat | Set_Local_Mtu nat
  | Set_Security_Param sm_param

datatype init_outcome = Aborted | Returned_Early | Completed

text \<open>Calls whose failure makes \<^verbatim>\<open>app_ble\<close> return.\<close>

definition ble_guarded_calls :: "ble_init_call list" where
  "ble_guarded_calls = [Controller_Init, Controller_Enable, Bluedroid_Init, Bluedroid_Enable,
     Gap_Register_Callback, Gattc_Register_Callback, Gattc_App_Register PROFILE_A_APP_ID,
     Gattc_App_Register PROFILE_B_APP_ID, Gattc_App_Register PROFILE_C_APP_ID]"

text \<open>The calls made until the first failure, and whether there was none.\<close>

fun until_failure :: "('c \<Rightarrow> bool) \<Rightarrow> 'c list \<Rightarrow> 'c list \<times> bool" where
  "until_failure ok [] = ([], True)"
| "until_failure ok (c # cs) =
     (if ok c then (let (made, good) = until_failure ok cs in (c # made, good)) else ([c], False))"

definition app_ble :: "(ble_init_call \<Rightarrow> bool) \<Rightarrow> ble_init_call list \<times> init_outcome" where
  "app_ble ok =
     (if \<not> ok Controller_Mem_Release then ([Controller_Mem_Release], Aborted)
      else let (made, good) = until_failure ok ble_guarded_calls in
        if \<not> good then (Controller_Mem_Release # made, Returned_Early)
        else (Controller_Mem_Release # made @ [Set_Local_Mtu 200] @ map Set_Security_Param security_params, Completed))"

section \<open>The two callbacks together\<close>

datatype ble_event = Gap_Event "esp_bd_addr_t list" gap_event | Gattc_Event gattc_env gattc_event u8

fun ble_event_step :: "ble_event \<Rightarrow> ble_state \<Rightarrow> ble_state option" where
  "ble_event_step (Gap_Event bonds ev) s = esp_gap_cb bonds ev s"
| "ble_event_step (Gattc_Event env ev gif) s = esp_gattc_cb env ev gif s"

abbreviation ble_run :: "ble_event list \<Rightarrow> ble_state \<Rightarrow> ble_state option" where
  "ble_run \<equiv> run_steps ble_event_step"

fun ble_event_ok :: "ble_event \<Rightarrow> bool" where
  "ble_event_ok (Gap_Event bonds ev) = (gap_event_ok ev \<and> list_all addr_ok bonds)"
| "ble_event_ok (Gattc_Event env ev gif) = gattc_event_ok ev"

text \<open>The events as the stack sends them, and those whose handling reads behind the memory there is.\<close>

fun ble_event_wf :: "ble_event \<Rightarrow> bool" where
  "ble_event_wf (Gattc_Event env (NOTIFY_EVT p) gif) = notify_wf p"
| "ble_event_wf e = ble_event_ok e"

fun overreads :: "ble_event \<Rightarrow> bool" where
  "overreads (Gattc_Event env (NOTIFY_EVT p) gif) = (length (n_after_bda p) < 18)"
| "overreads e = False"

lemma wf_event_ok: "ble_event_wf e \<Longrightarrow> \<not> overreads e \<Longrightarrow> ble_event_ok e"
  by (cases e rule: overreads.cases) (simp_all add: gattc_event_ok_def notify_wf_ok)

lemma ble_event_step_ok: "ble_inv s \<Longrightarrow> ble_event_ok e \<Longrightarrow> \<exists>s'. ble_event_step e s = Some s' \<and> ble_inv s'"
  using esp_gap_cb_ok esp_gattc_cb_ok by (cases e) auto

text \<open>The devices the program has asked the stack to put on its white list.\<close>

definition granted :: "ble_state \<Rightarrow> esp_bd_addr_t set" where
  "granted s = {bda. Gap_Update_Whitelist True bda \<in> set (ble_log s)}"

fun grants :: "ble_call \<Rightarrow> esp_bd_addr_t set" where
  "grants (Gap_Update_Whitelist True bda) = {bda}"
| "grants _ = {}"

lemma granted_do: "granted (ble_do c s) = granted s \<union> grants c"
  by (cases c rule: grants.cases) (auto simp: granted_def ble_do_def)

lemma granted_log: "ble_log s' = ble_log s \<Longrightarrow> granted s' = granted s"
  by (simp add: granted_def)

lemma granted_frame [simp]:
  "granted (set_conn k b s) = granted s" "granted (s\<lparr>Isconnecting := b\<rparr>) = granted s"
  "granted (s\<lparr>stop_scan_done := b\<rparr>) = granted s" "granted (s\<lparr>scan_list := l\<rparr>) = granted s"
  "granted (start_scan s) = granted s"
  by (simp_all add: granted_def start_scan_def ble_do_def)

lemma granted_upd: "upd_profile i f s = Some s' \<Longrightarrow> granted s' = granted s"
  by (rule granted_log) (auto simp: upd_profile_def split: bind_splits)

lemma granted_notify_from: "notify_from p tmp i s = Some s' \<Longrightarrow> granted s' = granted s"
proof (induction p tmp i s rule: notify_from.induct)
  case (1 p tmp i s)
  show ?case
  proof (cases "i < PROFILE_NUM")
    case True
    then obtain prof r where pr: "arr_get (gl_profile_tab s) i = Some prof"
      "ud_compare_bd_addr (n_remote_bda p) (remote_bda prof) = Some r"
      using "1.prems" by (subst (asm) notify_from.simps) (auto split: bind_splits)
    show ?thesis
    proof (cases "r = 0")
      case False
      then obtain prof' s1 q where "upd_profile i (\<lambda>_. prof') s = Some s1" "s' = s1\<lparr>ble_queue := q\<rparr>"
        using "1.prems" True pr by (subst (asm) notify_from.simps) (auto split: bind_splits)
      then show ?thesis using granted_upd [of i "\<lambda>_. prof'" s s1] granted_log [of s' s1] by simp
    next
      case zero: True
      then have "notify_from p tmp (Suc i) s = Some s'"
        using "1.prems" True pr by (subst (asm) notify_from.simps) simp
      then show ?thesis using "1.IH" [OF True pr] zero by simp
    qed
  qed (use "1.prems" in \<open>simp add: notify_from.simps [of p tmp i s]\<close>)
qed

lemma granted_notify: "notifyCallback p s = Some s' \<Longrightarrow> granted s' = granted s"
  using granted_notify_from granted_log [of "s\<lparr>addr_str := b\<rparr>" s for b]
  by (fastforce simp: notifyCallback_def split: bind_splits)

lemma granted_search_t: "search_cmpl_t env app gif cid n s = Some (m, s') \<Longrightarrow> granted s' = granted s"
  by (auto simp: search_cmpl_t_def granted_do dest: granted_upd split: bind_splits if_splits prod.splits)

lemma granted_search_vdd: "search_cmpl_vdd env app gif cid n s = Some (m, s') \<Longrightarrow> granted s' = granted s"
  by (auto simp: search_cmpl_vdd_def granted_do dest: granted_upd split: bind_splits if_splits prod.splits)

lemma granted_search_cmpl:
  assumes "on_search_cmpl env app gif st cid s = Some s'"
  shows "granted s' = granted s"
proof (cases "st = ESP_GATT_OK")
  case True
  then obtain n s1 m s2 where 1: "search_cmpl_t env app gif cid 0 s = Some (n, s1)"
    "search_cmpl_vdd env app gif cid n s1 = Some (m, s2)" "s' = start_scan s2"
    using assms by (auto simp: on_search_cmpl_def split: bind_splits prod.splits)
  show ?thesis using granted_search_t [OF 1(1)] granted_search_vdd [OF 1(2)] 1(3) by simp
qed (use assms in \<open>simp add: on_search_cmpl_def\<close>)

lemma granted_open:
  assumes "on_open conn app gif st cid bda s = Some s'"
  shows "granted s' = granted s"
proof (cases "st = ESP_GATT_OK")
  case True
  then obtain s1 s2 where 1: "upd_profile app (\<lambda>p. p\<lparr>remote_bda := take 6 bda\<rparr>) s = Some s1"
    "upd_profile app (\<lambda>p. p\<lparr>conn_id := cid\<rparr>) s1 = Some s2" "s' = ble_do (Gattc_Send_Mtu_Req gif cid) s2"
    using assms by (auto simp: on_open_def split: bind_splits)
  show ?thesis using granted_upd [OF 1(1)] granted_upd [OF 1(2)] 1(3) by (simp add: granted_do)
qed (use assms in \<open>auto simp: on_open_def\<close>)

lemma granted_search_res: "on_search_res app uuid a b s = Some s' \<Longrightarrow> granted s' = granted s"
  by (cases uuid) (auto simp: on_search_res_def dest: granted_upd split: if_splits)

lemma granted_write_descr: "on_write_descr app gif st s = Some s' \<Longrightarrow> granted s' = granted s"
  by (auto simp: on_write_descr_def granted_do split: if_splits bind_splits)

lemma granted_disconnect:
  assumes "on_disconnect conn app bda s = Some s'"
  shows "granted s' = granted s"
proof -
  have "s' = start_scan s \<or>
      upd_profile app (\<lambda>p. p\<lparr>get_t_service := False, get_vdd_service := False\<rparr>)
        (set_conn conn False (start_scan s)) = Some s'"
    using assms by (auto simp: on_disconnect_def Let_def split: bind_splits if_splits)
  then show ?thesis by (auto dest: granted_upd)
qed

lemma granted_reg: "on_reg_for_notify env app gif st h s = Some (out, s') \<Longrightarrow> granted s' = granted s"
  by (auto simp: on_reg_for_notify_def Let_def split: if_splits bind_splits prod.splits)

lemmas granted_handlers = granted_reg granted_search_cmpl granted_open granted_search_res granted_write_descr
  granted_disconnect granted_notify

lemma granted_handler:
  "gattc_profile_event_handler env conn app ev gif s = Some s' \<Longrightarrow> granted s' = granted s"
  by (cases ev) (auto simp: gattc_profile_event_handler_def granted_do dest: granted_handlers)

lemma granted_dispatch: "gattc_dispatch env ev gif idx s = Some s' \<Longrightarrow> granted s' = granted s"
proof (induction env ev gif idx s rule: gattc_dispatch.induct)
  case (1 env ev gif idx s)
  show ?case
  proof (cases "idx < PROFILE_NUM")
    case True
    let ?step = "\<lambda>p. if gif = ESP_GATT_IF_NONE \<or> ucast gif = gattc_if p
      then (case gattc_cb p of None \<Rightarrow> Some s | Some cb \<Rightarrow> gattc_callback cb env ev gif s) else Some s"
    obtain p s1 where p: "arr_get (gl_profile_tab s) idx = Some p" "?step p = Some s1"
      "gattc_dispatch env ev gif (Suc idx) s1 = Some s'"
      using "1.prems" True by (subst (asm) gattc_dispatch.simps) (auto split: bind_splits)
    have "granted s1 = granted s"
    proof (cases "gattc_cb p")
      case (Some cb)
      then show ?thesis using p(2) granted_handler by (cases cb) (auto split: if_splits)
    qed (use p(2) in \<open>auto split: if_splits\<close>)
    then show ?thesis using "1.IH" [OF True p] by simp
  qed (use "1.prems" in \<open>simp add: gattc_dispatch.simps [of env ev gif idx s]\<close>)
qed

lemma granted_gattc: "esp_gattc_cb env ev gif s = Some s' \<Longrightarrow> granted s' = granted s"
  using granted_dispatch [of env ev gif 0] granted_upd
  by (cases ev) (fastforce simp: esp_gattc_cb_def split: if_splits bind_splits)+

lemma granted_claim: "claim_profile conn app bda ty s = Some s' \<Longrightarrow> granted s' = granted s"
  by (auto simp: claim_profile_def granted_do Let_def split: bind_splits)

lemma granted_scan:
  assumes "on_scan_result bonds r s = Some s'"
  shows "granted s' = granted s"
proof -
  obtain s1 where s1: "note_scanned r s = Some s1" using assms by (auto simp: on_scan_result_def split: bind_splits)
  then have "granted s1 = granted s" by (auto simp: note_scanned_def split: bind_splits if_splits)
  moreover have "connect_bonded r s1 = Some s' \<Longrightarrow> granted s' = granted s1"
    using granted_claim by (auto simp: connect_bonded_def split: if_splits)
  moreover have "connect_named r s1 = Some s' \<Longrightarrow> granted s' = granted s1"
    using granted_claim by (auto simp: connect_named_def split: if_splits bind_splits option.splits)
  moreover have "s' = ble_do Gap_Stop_Scanning (s1\<lparr>stop_scan_done := True\<rparr>) \<or>
      connect_bonded r s1 = Some s' \<or> connect_named r s1 = Some s'"
  proof (cases "conn_device_a s1 \<and> conn_device_b s1 \<and> conn_device_c s1 \<and> \<not> stop_scan_done s1")
    case True
    with assms s1 show ?thesis by (simp add: on_scan_result_def)
  next
    case False
    then have "Option.bind (check_is_bonded_device bonds (sr_bda r))
        (\<lambda>bonded. if bonded then connect_bonded r s1 else connect_named r s1) = Some s'"
      using assms s1 by (simp only: on_scan_result_def bind.bind_lunit if_False)
    then show ?thesis by (cases "check_is_bonded_device bonds (sr_bda r)") (auto split: if_splits)
  qed
  ultimately show ?thesis by (elim disjE) (simp_all add: granted_do)
qed

lemma granted_step:
  assumes "ble_event_step e s = Some s'" "bda \<in> granted s'"
  shows "bda \<in> granted s \<or> (\<exists>bonds. e = Gap_Event bonds (AUTH_CMPL_EVT bda True))"
proof (cases e)
  case (Gap_Event bonds ev)
  then show ?thesis using assms granted_scan
    by (cases ev) (auto simp: esp_gap_cb_def gap_answers granted_do split: if_splits)
next
  case (Gattc_Event env ev gif)
  then show ?thesis using assms granted_gattc by auto
qed

fun authenticates :: "ble_event \<Rightarrow> esp_bd_addr_t set" where
  "authenticates (Gap_Event bonds (AUTH_CMPL_EVT bda True)) = {bda}"
| "authenticates _ = {}"

lemma authenticates_iff: "bda \<in> authenticates e \<longleftrightarrow> (\<exists>bonds. e = Gap_Event bonds (AUTH_CMPL_EVT bda True))"
  by (cases e rule: authenticates.cases) auto

interpretation ble: observed_system ble_event_ok ble_inv ble_event_step granted authenticates
proof unfold_locales
  fix s e s'
  show "ble_inv s \<Longrightarrow> ble_event_ok e \<Longrightarrow> \<exists>s'. ble_event_step e s = Some s' \<and> ble_inv s'"
    by (rule ble_event_step_ok)
  show "granted s' \<subseteq> granted s \<union> authenticates e" if "ble_event_step e s = Some s'"
    using granted_step [OF that] unfolding subset_iff Un_iff authenticates_iff by blast
qed

lemma connecting_frame [simp]:
  "stop_scan_done (set_conn k b s) = stop_scan_done s" "Isconnecting (set_conn k b s) = Isconnecting s"
  "addr_str (set_conn k b s) = addr_str s" "Isconnecting (ble_do c s) = Isconnecting s" "addr_str (ble_do c s) = addr_str s"
  by (cases k; simp)+ (simp_all add: ble_do_def)

lemma opens_first_free:
  assumes "ble_inv s" "scan_rst_ok r" "list_all addr_ok bonds"
  shows "\<exists>s'. esp_gap_cb bonds (SCAN_RESULT_INQ_RES r) s = Some s' \<and> ble_inv s' \<and>
    ble_log s' = ble_log s @
      (if conn_device_a s \<and> conn_device_b s \<and> conn_device_c s \<and> \<not> stop_scan_done s then [Gap_Stop_Scanning]
       else if wanted bonds r then
         (case free_slot s of None \<Rightarrow> []
          | Some (conn, app) \<Rightarrow> [Gap_Stop_Scanning, Gattc_Open (gattc_if (gl_profile_tab s ! app)) (sr_bda r) (sr_addr_type r) True])
       else []) \<and>
    (\<forall>c. get_conn c s' = (get_conn c s \<or> (wanted bonds r \<and> (\<exists>app. free_slot s = Some (c, app))))) \<and>
    stop_scan_done s' = (stop_scan_done s \<or> conn_device_a s \<and> conn_device_b s \<and> conn_device_c s) \<and>
    Isconnecting s' = (Isconnecting s \<or> wanted bonds r \<and> free_slot s \<noteq> None) \<and>
    scan_recent (scan_list s') = noted (sr_bda r) (scan_recent (scan_list s)) \<and>
    gl_profile_tab s' = gl_profile_tab s \<and> ble_queue s' = ble_queue s \<and> addr_str s' = addr_str s"
proof -
  obtain l where l: "ble_inv (s\<lparr>scan_list := l\<rparr>)" "scan_recent l = noted (sr_bda r) (scan_recent (scan_list s))"
    "on_scan_result bonds r s =
      (if conn_device_a s \<and> conn_device_b s \<and> conn_device_c s \<and> \<not> stop_scan_done s
       then Some (ble_do Gap_Stop_Scanning (s\<lparr>scan_list := l, stop_scan_done := True\<rparr>))
       else if wanted bonds r
       then (case free_slot s of None \<Rightarrow> Some (s\<lparr>scan_list := l\<rparr>)
         | Some (conn, app) \<Rightarrow> claim_profile conn app (sr_bda r) (sr_addr_type r) (s\<lparr>scan_list := l\<rparr>))
       else Some (s\<lparr>scan_list := l\<rparr>))"
    using on_scan_result_eq [OF assms] by blast
  have full: "free_slot s = None \<longleftrightarrow> conn_device_a s \<and> conn_device_b s \<and> conn_device_c s"
    by (simp add: free_slot_def)
  have conn: "get_conn c (s\<lparr>scan_list := l\<rparr>) = get_conn c s"
    "get_conn c (t\<lparr>Isconnecting := b\<rparr>) = get_conn c t"
    "get_conn c (s\<lparr>scan_list := l, stop_scan_done := True\<rparr>) = get_conn c s" for c b t
    by (cases c; simp)+
  show ?thesis
  proof (cases "wanted bonds r \<and> (\<exists>conn app. free_slot s = Some (conn, app))")
    case True
    then obtain k app where k: "free_slot s = Some (k, app)" "wanted bonds r" by blast
    then have "app < PROFILE_NUM" "\<not> (conn_device_a s \<and> conn_device_b s \<and> conn_device_c s)"
      using free_slot_less full by fastforce+
    then show ?thesis
      using l k claim_profile_eq [OF l(1), of app k "sr_bda r" "sr_addr_type r"] by (auto simp: esp_gap_cb_def conn)
  next
    case False
    have "ble_inv (s\<lparr>scan_list := l, stop_scan_done := True\<rparr>)" using l(1) by (simp add: ble_inv_def)
    then show ?thesis using False l full by (auto simp: esp_gap_cb_def conn split: option.splits)
  qed
qed

section \<open>Properties\<close>


text \<open>An advertisement of a device named \<^verbatim>\<open>enware\<close>.\<close>

definition enware_adv :: scan_rst where
  "enware_adv = \<lparr>sr_bda = peer, sr_addr_type = 1, sr_adv_name = Some enware, sr_adv_name_len = 6\<rparr>"

lemma enware_adv_ok: "scan_rst_ok enware_adv" "wanted [] enware_adv"
  by (simp_all add: enware_adv_def scan_rst_ok_def wanted_def enware_def peer_def addr_ok_def ESP_BD_ADDR_LEN_def)


text \<open>C20: A device is put on the white list only after an authentication of that device that
  succeeded.\<close>

theorem whitelist_after_authentication:
  assumes "ble_run evs ble_reset = Some s" "Gap_Update_Whitelist True bda \<in> set (ble_log s)"
  shows "\<exists>bonds. Gap_Event bonds (AUTH_CMPL_EVT bda True) \<in> set evs"
proof -
  have "bda \<notin> granted ble_reset" by (simp add: granted_def ble_reset_def)
  moreover have "bda \<in> granted s" using assms(2) by (simp add: granted_def)
  ultimately obtain e where "e \<in> set evs" "bda \<in> authenticates e" using ble.seen_has_cause [OF assms(1)] by blast
  then show ?thesis by (auto simp: authenticates_iff)
qed

theorem whitelist_after_authentication_witness:
  "\<exists>bonds. Gap_Event bonds (AUTH_CMPL_EVT peer True) \<in> set [Gap_Event [] (AUTH_CMPL_EVT peer True)]"
  by (rule whitelist_after_authentication
      [where s = "ble_do (Gap_Update_Whitelist True peer) ble_reset"]) (simp_all add: esp_gap_cb_def gap_answers ble_do_def)

text \<open>C21: The complete effect of a scan result. The address is noted among the recent ones. A device that is bonded or
  called \<^verbatim>\<open>enware\<close> takes the first free profile: its flag is set, the program remembers to be connecting, the
  scan is stopped and a connection to the device is opened on the profile's interface. Without a free
  profile, or for another device, nothing is opened. When all three profiles are taken the first result
  stops the scan and remembers it, so that later ones do not. Profiles, queue and address buffer stay.\<close>

theorem scan_result_opens_first_free:
  assumes "ble_inv s" "scan_rst_ok r" "list_all addr_ok bonds"
  shows "\<exists>s'. esp_gap_cb bonds (SCAN_RESULT_INQ_RES r) s = Some s' \<and> ble_inv s' \<and>
    ble_log s' = ble_log s @
      (if conn_device_a s \<and> conn_device_b s \<and> conn_device_c s \<and> \<not> stop_scan_done s then [Gap_Stop_Scanning]
       else if wanted bonds r then
         (case free_slot s of None \<Rightarrow> []
          | Some (conn, app) \<Rightarrow> [Gap_Stop_Scanning, Gattc_Open (gattc_if (gl_profile_tab s ! app)) (sr_bda r) (sr_addr_type r) True])
       else []) \<and>
    (\<forall>c. get_conn c s' = (get_conn c s \<or> (wanted bonds r \<and> (\<exists>app. free_slot s = Some (c, app))))) \<and>
    stop_scan_done s' = (stop_scan_done s \<or> conn_device_a s \<and> conn_device_b s \<and> conn_device_c s) \<and>
    Isconnecting s' = (Isconnecting s \<or> wanted bonds r \<and> free_slot s \<noteq> None) \<and>
    scan_recent (scan_list s') = noted (sr_bda r) (scan_recent (scan_list s)) \<and>
    gl_profile_tab s' = gl_profile_tab s \<and> ble_queue s' = ble_queue s \<and> addr_str s' = addr_str s"
  by (rule opens_first_free [OF assms])

theorem scan_result_opens_first_free_witness:
  "\<exists>s'. esp_gap_cb [] (SCAN_RESULT_INQ_RES enware_adv) example_ble = Some s' \<and>
     ble_log s' = [Gap_Stop_Scanning, Gattc_Open 0xFF peer 1 True] \<and> get_conn Conn_A s' \<and> \<not> get_conn Conn_B s'"
proof -
  have e: "free_slot example_ble = Some (Conn_A, 0)" "gattc_if (gl_profile_tab example_ble ! 0) = 0xFF"
    "\<not> conn_device_a example_ble" "\<not> conn_device_b example_ble" "ble_log example_ble = []"
    by (simp_all add: free_slot_def example_ble_def ble_reset_def profile_reset_def ESP_GATT_IF_NONE_def)
  have "\<not> get_conn Conn_B example_ble" "sr_bda enware_adv = peer" "sr_addr_type enware_adv = 1" using e(4) by (simp_all add: enware_adv_def)
  then show ?thesis
    using scan_result_opens_first_free [OF example_ble_ok(1) enware_adv_ok(1), of "[]"] e enware_adv_ok(2)
    by (auto simp del: get_conn.simps)
qed

text \<open>Nothing remembers that a device is already connected: two scan results of the same device take
  two profiles, and two connections to it are opened.\<close>

theorem same_device_takes_two_profiles:
  assumes "ble_inv s" "scan_rst_ok r" "list_all addr_ok bonds" "wanted bonds r"
    and "\<not> conn_device_a s" "\<not> conn_device_b s"
  shows "\<exists>s1 s2. esp_gap_cb bonds (SCAN_RESULT_INQ_RES r) s = Some s1 \<and>
    esp_gap_cb bonds (SCAN_RESULT_INQ_RES r) s1 = Some s2 \<and> conn_device_a s2 \<and> conn_device_b s2 \<and>
    (\<exists>gif_a gif_b. ble_log s2 = ble_log s @
       [Gap_Stop_Scanning, Gattc_Open gif_a (sr_bda r) (sr_addr_type r) True, Gap_Stop_Scanning, Gattc_Open gif_b (sr_bda r) (sr_addr_type r) True])"
proof -
  have fa: "free_slot s = Some (Conn_A, 0)" using assms(5) by (simp add: free_slot_def)
  obtain s1 where 1: "esp_gap_cb bonds (SCAN_RESULT_INQ_RES r) s = Some s1" "ble_inv s1"
    "ble_log s1 = ble_log s @ [Gap_Stop_Scanning, Gattc_Open (gattc_if (gl_profile_tab s ! 0)) (sr_bda r) (sr_addr_type r) True]"
    "\<forall>c. get_conn c s1 = (get_conn c s \<or> c = Conn_A)"
    using opens_first_free [OF assms(1-3)] assms(4,5) fa by auto
  have ab: "conn_device_a s1" "\<not> conn_device_b s1"
    using 1(4) [THEN spec, of Conn_A] 1(4) [THEN spec, of Conn_B] assms(6) by simp_all
  then have fb: "free_slot s1 = Some (Conn_B, 1)" by (simp add: free_slot_def)
  obtain s2 where 2: "esp_gap_cb bonds (SCAN_RESULT_INQ_RES r) s1 = Some s2"
    "ble_log s2 = ble_log s1 @ [Gap_Stop_Scanning, Gattc_Open (gattc_if (gl_profile_tab s1 ! 1)) (sr_bda r) (sr_addr_type r) True]"
    "\<forall>c. get_conn c s2 = (get_conn c s1 \<or> c = Conn_B)"
    using opens_first_free [OF 1(2) assms(2,3)] assms(4) ab fb by auto
  have "conn_device_a s2" "conn_device_b s2"
    using 2(3) [THEN spec, of Conn_A] 2(3) [THEN spec, of Conn_B] ab by simp_all
  then show ?thesis using 1 2 by auto
qed

theorem same_device_takes_two_profiles_witness:
  "\<exists>s1 s2. esp_gap_cb [] (SCAN_RESULT_INQ_RES enware_adv) ble_reset = Some s1 \<and>
     esp_gap_cb [] (SCAN_RESULT_INQ_RES enware_adv) s1 = Some s2 \<and> conn_device_a s2 \<and> conn_device_b s2"
  using same_device_takes_two_profiles [OF ble_inv_reset enware_adv_ok(1) _ enware_adv_ok(2)]
  by (auto simp: ble_reset_def)

text \<open>C34: When the connection opened for a scan result fails, the profile is free again, but the scan that
  was stopped for it stays stopped: no call follows the failure.\<close>

theorem failed_open_leaves_scan_stopped:
  assumes "ble_inv s" "scan_rst_ok r" "list_all addr_ok bonds" "wanted bonds r"
    and "free_slot s = Some (conn, app)" "st \<noteq> ESP_GATT_OK"
  shows "\<exists>s1 s2. esp_gap_cb bonds (SCAN_RESULT_INQ_RES r) s = Some s1 \<and>
    gattc_profile_event_handler env conn app (OPEN_EVT st cid bda) gif s1 = Some s2 \<and>
    (\<forall>c. get_conn c s2 = get_conn c s) \<and>
    ble_log s2 = ble_log s @ [Gap_Stop_Scanning, Gattc_Open (gattc_if (gl_profile_tab s ! app)) (sr_bda r) (sr_addr_type r) True]"
proof -
  have free: "\<not> get_conn conn s" using free_slot_less [OF assms(5)] by simp
  have "\<not> (conn_device_a s \<and> conn_device_b s \<and> conn_device_c s)" using free by (cases conn) auto
  then obtain s1 where 1: "esp_gap_cb bonds (SCAN_RESULT_INQ_RES r) s = Some s1"
    "ble_log s1 = ble_log s @ [Gap_Stop_Scanning, Gattc_Open (gattc_if (gl_profile_tab s ! app)) (sr_bda r) (sr_addr_type r) True]"
    "\<forall>c. get_conn c s1 = (get_conn c s \<or> conn = c)"
    using opens_first_free [OF assms(1-3)] assms(4,5) by auto
  then show ?thesis using free assms(6) by (auto simp: gattc_profile_event_handler_def on_open_def)
qed

theorem failed_open_leaves_scan_stopped_witness:
  "\<exists>s1 s2. esp_gap_cb [] (SCAN_RESULT_INQ_RES enware_adv) ble_reset = Some s1 \<and>
     gattc_profile_event_handler example_env Conn_A 0 (OPEN_EVT (ESP_GATT_FAILED 0x85) 0 peer) 3 s1 = Some s2 \<and>
     \<not> get_conn Conn_A s2"
proof -
  have e: "free_slot ble_reset = Some (Conn_A, 0)" "\<not> get_conn Conn_A ble_reset"
    by (simp_all add: free_slot_def ble_reset_def)
  show ?thesis
    using failed_open_leaves_scan_stopped [OF ble_inv_reset enware_adv_ok(1) _ enware_adv_ok(2) e(1),
        of "ESP_GATT_FAILED 0x85" example_env 0 peer 3] e(2)
    by (auto simp del: get_conn.simps)
qed

text \<open>The initialisation makes its calls in order and stops at the first one that fails, which is
  then the last call made; the security parameters are set only when all of them succeeded.\<close>

theorem app_ble_stops_at_first_failure:
  "app_ble ok =
     (if \<not> ok Controller_Mem_Release then ([Controller_Mem_Release], Aborted)
      else case find (\<lambda>c. \<not> ok c) ble_guarded_calls of
        Some c \<Rightarrow> (Controller_Mem_Release # takeWhile ok ble_guarded_calls @ [c], Returned_Early)
      | None \<Rightarrow> (Controller_Mem_Release # ble_guarded_calls @ Set_Local_Mtu 200 # map Set_Security_Param security_params,
          Completed))"
proof -
  have "until_failure ok cs = (case find (\<lambda>c. \<not> ok c) cs of
      Some c \<Rightarrow> (takeWhile ok cs @ [c], False) | None \<Rightarrow> (cs, True))" for cs
    by (induction cs) (auto split: option.splits)
  then show ?thesis by (simp add: app_ble_def split: option.splits)
qed

end
