(* ===== verification/Console_Output.thy ===== *)
theory Console_Output
  imports C_Printf Timer_Group Ble_Gap
begin

text \<open>
  What the program writes to its console where it computes something to write: the timer's counter and
  time (\<^verbatim>\<open>main/timer_group.c\<close>), the calibration of the converter (\<^verbatim>\<open>main/adc.c\<close>), and addresses, keys and
  bonds of Bluetooth devices (\<^verbatim>\<open>main/ble.c\<close>). A function that prints is a function of what it prints:
  a list of lines, without the ends of the lines.
\<close>

section \<open>The timer\<close>

definition print_timer_counter :: "nat \<Rightarrow> u64 \<Rightarrow> string list" where
  "print_timer_counter base_clk counter_value =
     [''Counter: 0x'' @ printf_0x 8 (unat (ucast (drop_bit 32 counter_value) :: u32)) @
        printf_0x 8 (unat (ucast counter_value :: u32)),
      ''Time   : '' @ printf_8f (dbl_div (dbl_of_nat (unat counter_value)) (TIMER_SCALE base_clk)) @ '' s'']"

text \<open>What the event task prints for an event; \<open>task_counter_value\<close> is what the driver reads.\<close>

definition evt_task_output :: "nat \<Rightarrow> timer_event_t \<Rightarrow> u64 \<Rightarrow> string list" where
  "evt_task_output base_clk evt task_counter_value =
     (if evt_type evt = TEST_WITHOUT_RELOAD then [[], ''    Example timer without reload'']
      else if evt_type evt = TEST_WITH_RELOAD then [[], ''    Example timer with auto reload'']
      else [[], ''    UNKNOWN EVENT TYPE'']) @
     [''Group['' @ dec_digits (timer_group evt) @ ''], timer['' @ dec_digits (timer_idx evt) @ ''] alarm event'',
      ''------- EVENT TIME --------''] @
     print_timer_counter base_clk (timer_counter_value evt) @
     [''-------- TASK TIME --------''] @
     print_timer_counter base_clk task_counter_value"

section \<open>The converter\<close>

datatype esp_adc_cal_value_t = ESP_ADC_CAL_VAL_EFUSE_VREF | ESP_ADC_CAL_VAL_EFUSE_TP | ESP_ADC_CAL_VAL_DEFAULT_VREF

text \<open>\<open>burned v\<close>: \<^verbatim>\<open>esp_adc_cal_check_efuse(v)\<close> returns \<^verbatim>\<open>ESP_OK\<close>.\<close>

definition check_efuse :: "(esp_adc_cal_value_t \<Rightarrow> bool) \<Rightarrow> string list" where
  "check_efuse burned =
     [if burned ESP_ADC_CAL_VAL_EFUSE_TP then ''eFuse Two Point: Supported'' else ''eFuse Two Point: NOT supported'',
      if burned ESP_ADC_CAL_VAL_EFUSE_VREF then ''eFuse Vref: Supported'' else ''eFuse Vref: NOT supported'']"

definition print_char_val_type :: "esp_adc_cal_value_t \<Rightarrow> string list" where
  "print_char_val_type val_type =
     (if val_type = ESP_ADC_CAL_VAL_EFUSE_TP then [''Characterized using Two Point Value'']
      else if val_type = ESP_ADC_CAL_VAL_EFUSE_VREF then [''Characterized using eFuse Vref'']
      else [''Characterized using Default Vref''])"

section \<open>Bluetooth devices\<close>

datatype esp_ble_key_type_t =
    ESP_LE_KEY_NONE | ESP_LE_KEY_PENC | ESP_LE_KEY_PID | ESP_LE_KEY_PCSRK | ESP_LE_KEY_PLK | ESP_LE_KEY_LLK
  | ESP_LE_KEY_LENC | ESP_LE_KEY_LID | ESP_LE_KEY_LCSRK | Other_Key u8

fun esp_key_type_to_str :: "esp_ble_key_type_t \<Rightarrow> string" where
  "esp_key_type_to_str ESP_LE_KEY_NONE = ''ESP_LE_KEY_NONE''"
| "esp_key_type_to_str ESP_LE_KEY_PENC = ''ESP_LE_KEY_PENC''"
| "esp_key_type_to_str ESP_LE_KEY_PID = ''ESP_LE_KEY_PID''"
| "esp_key_type_to_str ESP_LE_KEY_PCSRK = ''ESP_LE_KEY_PCSRK''"
| "esp_key_type_to_str ESP_LE_KEY_PLK = ''ESP_LE_KEY_PLK''"
| "esp_key_type_to_str ESP_LE_KEY_LLK = ''ESP_LE_KEY_LLK''"
| "esp_key_type_to_str ESP_LE_KEY_LENC = ''ESP_LE_KEY_LENC''"
| "esp_key_type_to_str ESP_LE_KEY_LID = ''ESP_LE_KEY_LID''"
| "esp_key_type_to_str ESP_LE_KEY_LCSRK = ''ESP_LE_KEY_LCSRK''"
| "esp_key_type_to_str (Other_Key k) = ''INVALID BLE KEY TYPE''"

fun esp_auth_req_to_str :: "esp_ble_auth_req_t \<Rightarrow> string" where
  "esp_auth_req_to_str ESP_LE_AUTH_NO_BOND = ''ESP_LE_AUTH_NO_BOND''"
| "esp_auth_req_to_str ESP_LE_AUTH_BOND = ''ESP_LE_AUTH_BOND''"
| "esp_auth_req_to_str ESP_LE_AUTH_REQ_MITM = ''ESP_LE_AUTH_REQ_MITM''"
| "esp_auth_req_to_str ESP_LE_AUTH_REQ_BOND_MITM = ''ESP_LE_AUTH_REQ_BOND_MITM''"
| "esp_auth_req_to_str ESP_LE_AUTH_REQ_SC_ONLY = ''ESP_LE_AUTH_REQ_SC_ONLY''"
| "esp_auth_req_to_str ESP_LE_AUTH_REQ_SC_BOND = ''ESP_LE_AUTH_REQ_SC_BOND''"
| "esp_auth_req_to_str ESP_LE_AUTH_REQ_SC_MITM = ''ESP_LE_AUTH_REQ_SC_MITM''"
| "esp_auth_req_to_str ESP_LE_AUTH_REQ_SC_MITM_BOND = ''ESP_LE_AUTH_REQ_SC_MITM_BOND''"
| "esp_auth_req_to_str (Other_Auth_Req a) = ''INVALID BLE AUTH REQ''"

text \<open>The six bytes as \<^verbatim>\<open>%08x%04x\<close> of two numbers. The sums are \<^verbatim>\<open>int\<close> arithmetic of 32 bits whose result is
  printed as unsigned; a shift into the sign bit wraps, as the compiler of the target does it.\<close>

definition addr_log :: "esp_bd_addr_t \<Rightarrow> string option" where
  "addr_log bd_addr = do {
     b0 \<leftarrow> arr_get bd_addr 0; b1 \<leftarrow> arr_get bd_addr 1; b2 \<leftarrow> arr_get bd_addr 2;
     b3 \<leftarrow> arr_get bd_addr 3; b4 \<leftarrow> arr_get bd_addr 4; b5 \<leftarrow> arr_get bd_addr 5;
     let high = push_bit 24 (ucast b0 :: u32) + push_bit 16 (ucast b1) + push_bit 8 (ucast b2) + ucast b3;
     let low = push_bit 8 (ucast b4 :: u32) + ucast b5;
     Some (printf_0x 8 (unat high) @ printf_0x 4 (unat low))
   }"

fun bonded_lines :: "nat \<Rightarrow> esp_bd_addr_t list \<Rightarrow> string list option" where
  "bonded_lines i [] = Some []"
| "bonded_lines i (d # dev_list) = do {
     txt \<leftarrow> addr_log d;
     rest \<leftarrow> bonded_lines (Suc i) dev_list;
     Some ((''remote BD_ADDR'' @ dec_digits i @ '': '' @ txt) # rest)
   }"

definition show_all_bonded_devices :: "esp_bd_addr_t list \<Rightarrow> string list option" where
  "show_all_bonded_devices dev_list =
     map_option (\<lambda>ls. (''Check bond device number = '' @ dec_digits (length dev_list)) # ls) (bonded_lines 0 dev_list)"

definition srvc_chg_log :: "esp_bd_addr_t \<Rightarrow> string option" where
  "srvc_chg_log bda = map_option (\<lambda>txt. ''ESP_GATTC_SRVC_CHG_EVT, bd_addr:'' @ txt) (addr_log bda)"

definition auth_cmpl_log ::
  "esp_bd_addr_t \<Rightarrow> nat \<Rightarrow> bool \<Rightarrow> u8 \<Rightarrow> esp_ble_auth_req_t \<Rightarrow> string list option" where
  "auth_cmpl_log bd_addr addr_type success fail_reason auth_mode = map_option (\<lambda>txt.
     [''remote BD_ADDR: '' @ txt, ''address type = '' @ dec_digits addr_type,
      ''pair status = '' @ (if success then ''success'' else ''fail''),
      (if \<not> success then ''fail reason = 0x'' @ hex_digits (unat fail_reason)
       else ''auth mode = '' @ esp_auth_req_to_str auth_mode)]) (addr_log bd_addr)"

section \<open>The two printers of addresses\<close>

text \<open>The characters of \<^verbatim>\<open>printf\<close> and the bytes of \<open>Scan_List\<close>.\<close>

lemma hex_char_byte: "n < 16 \<Longrightarrow> of_char (hex_char n) = hex_digit (of_nat n)"
proof -
  assume "n < 16"
  moreover have "\<forall>n \<in> set [0..<16]. of_char (hex_char n) = hex_digit (of_nat n)"
    by (simp add: upt_rec hex_char_def hex_digit_def)
  ultimately show ?thesis by simp
qed

lemma unat_16: "unat (16 :: u8) = 16"
  by simp

lemma word_of_nat_unat: "of_nat (unat (w :: u8)) = w"
  by simp

lemma byte_text: "map of_char (hex_fixed 2 (unat (b :: u8))) = printf_02x b"
proof -
  have "unat b < 256" using unsigned_less [of b] by simp
  then have "unat b div 16 < 16" by simp
  moreover have "of_nat (unat b div 16) = b div 16" "of_nat (unat b mod 16) = b mod 16"
    using unat_div [of b 16] unat_mod [of b 16] by (metis unat_16 word_of_nat_unat)+
  ultimately show ?thesis by (simp add: printf_02x_def numeral_2_eq_2 hex_char_byte)
qed

lemma hex_fixed_2: "m < 256 \<Longrightarrow> hex_fixed (k + 2) (256 * n + m) = hex_fixed k n @ hex_fixed 2 m"
  using hex_fixed_append [of k "256 * n + m" 2] by simp

lemma unat_sum_32:
  assumes "unat (a :: u32) + unat b < 2 ^ 32"
  shows "unat (a + b) = unat a + unat b"
  using assms by (simp add: unat_word_ariths)

lemma unat_byte_up: "unat (ucast (b :: u8) :: u32) = unat b"
  by transfer simp

lemma unat_shifted_byte: "k \<le> 24 \<Longrightarrow> unat (push_bit k (ucast (b :: u8) :: u32)) = 2 ^ k * unat b"
proof -
  assume k: "k \<le> 24"
  have "unat b < 2 ^ 8" using unsigned_less [of b] by simp
  then have "2 ^ k * unat b < 2 ^ k * 2 ^ 8" by simp
  also have "\<dots> \<le> 2 ^ 24 * 2 ^ 8" using k by (intro mult_right_mono power_increasing) simp_all
  finally have small: "push_bit k (unat (ucast b :: u32)) < 2 ^ 32" by (simp add: push_bit_eq_mult unat_byte_up mult.commute)
  have "unat (push_bit k (ucast b :: u32)) = take_bit LENGTH(32) (push_bit k (unat (ucast b :: u32)))"
    by (rule unsigned_push_bit_eq)
  also have "\<dots> = push_bit k (unat (ucast b :: u32))" 
  proof (rule take_bit_nat_eq_self)
    have "(2 :: nat) ^ LENGTH(32) = 2 ^ 32" by simp
    then show "push_bit k (unat (ucast b :: u32)) < 2 ^ LENGTH(32)" using small by (simp only:)
  qed
  also have "\<dots> = 2 ^ k * unat b" by (simp add: push_bit_eq_mult unat_byte_up mult.commute)
  finally show ?thesis .
qed

lemma addr_log_eq:
  assumes "addr_ok bd"
  shows "addr_log bd = Some (concat (map (\<lambda>b. hex_fixed 2 (unat b)) bd))"
proof -
  obtain a b c d e f where bd: "bd = [a, b, c, d, e, f]" using addr_six [OF assms] .
  have less: "unat x < 256" for x :: u8 using unsigned_less [of x] by simp
  note le = less [of a] less [of b] less [of c] less [of d] less [of e] less [of f]
  let ?high = "push_bit 24 (ucast a :: u32) + push_bit 16 (ucast b) + push_bit 8 (ucast c) + ucast d"
  let ?low = "push_bit 8 (ucast e :: u32) + ucast f"
  have sh: "unat (push_bit 24 (ucast x :: u32)) = 16777216 * unat x" "unat (push_bit 16 (ucast x :: u32)) = 65536 * unat x"
    "unat (push_bit 8 (ucast x :: u32)) = 256 * unat x" "unat (ucast x :: u32) = unat x" for x :: u8
    using unat_shifted_byte [of 24 x] unat_shifted_byte [of 16 x] unat_shifted_byte [of 8 x] unat_byte_up [of x]
    by simp_all
  have high: "unat ?high = 256 * (256 * (256 * unat a + unat b) + unat c) + unat d"
    using le by (simp add: unat_sum_32 sh)
  have low: "unat ?low = 256 * unat e + unat f" using le by (simp add: unat_sum_32 sh)
  have "hex_fixed 8 (unat ?high) = hex_fixed 6 (256 * (256 * unat a + unat b) + unat c) @ hex_fixed 2 (unat d)"
    unfolding high using hex_fixed_2 [OF less [of d], of 6 "256 * (256 * unat a + unat b) + unat c"] by simp
  also have "hex_fixed 6 (256 * (256 * unat a + unat b) + unat c) = hex_fixed 4 (256 * unat a + unat b) @ hex_fixed 2 (unat c)"
    using hex_fixed_2 [OF less [of c], of 4 "256 * unat a + unat b"] by simp
  also have "hex_fixed 4 (256 * unat a + unat b) = hex_fixed 2 (unat a) @ hex_fixed 2 (unat b)"
    using hex_fixed_2 [OF less [of b], of 2 "unat a"] by simp
  finally have hi: "hex_fixed 8 (unat ?high) =
      hex_fixed 2 (unat a) @ hex_fixed 2 (unat b) @ hex_fixed 2 (unat c) @ hex_fixed 2 (unat d)" by simp
  have lo: "hex_fixed 4 (unat ?low) = hex_fixed 2 (unat e) @ hex_fixed 2 (unat f)"
    unfolding low using hex_fixed_2 [OF less [of f], of 2 "unat e"] by simp
  have fixed: "printf_0x 8 (unat ?high) = hex_fixed 8 (unat ?high)" "printf_0x 4 (unat ?low) = hex_fixed 4 (unat ?low)"
    using le unfolding high low by (simp_all add: printf_0x_fixed del: hex_fixed.simps)
  show ?thesis
    unfolding addr_log_def bd Let_def using hi lo fixed by (simp del: hex_fixed.simps)
qed

lemma bonded_lines_eq:
  "list_all addr_ok bds \<Longrightarrow> bonded_lines i bds = Some (map2 (\<lambda>j bd. ''remote BD_ADDR'' @ dec_digits j @ '': '' @
     concat (map (\<lambda>b. hex_fixed 2 (unat b)) bd)) [i..<i + length bds] bds)"
proof (induction bds arbitrary: i)
  case (Cons d bds)
  have "[i..<i + length (d # bds)] = i # [Suc i..<Suc i + length bds]" by (simp add: upt_rec)
  then show ?case using Cons by (simp add: addr_log_eq)
qed simp

section \<open>Properties\<close>

text \<open>C38: The program prints addresses in two ways, and they agree. \<^verbatim>\<open>%08x%04x\<close> of the two sums of shifted bytes,
  as the security and the bond messages print it, are the twelve digits that \<^verbatim>\<open>%02x\<close> gives for the bytes
  one after the other: the digits of \<^verbatim>\<open>ud_bd_addr_to_str\<close> without its colons. So no carry crosses the
  bytes, and the printing of a list of bonded devices never leaves an array.\<close>

theorem addr_printers_agree:
  assumes "list_all addr_ok bds"
  shows "\<exists>txts. list_all2 (\<lambda>bd txt. addr_log bd = Some txt \<and> length txt = 12 \<and>
      map of_char txt = concat (map printf_02x bd)) bds txts \<and>
    show_all_bonded_devices bds = Some ((''Check bond device number = '' @ dec_digits (length bds)) #
      map2 (\<lambda>i txt. ''remote BD_ADDR'' @ dec_digits i @ '': '' @ txt) [0..<length bds] txts)"
proof -
  let ?txt = "\<lambda>bd :: u8 list. concat (map (\<lambda>b. hex_fixed 2 (unat b)) bd)"
  have bytes: "map of_char (?txt bd) = concat (map printf_02x bd)" for bd
    by (induction bd) (simp_all add: byte_text del: hex_fixed.simps)
  have len: "length (?txt bd) = 2 * length bd" for bd by (induction bd) (simp_all del: hex_fixed.simps)
  have "addr_log bd = Some (?txt bd) \<and> length (?txt bd) = 12 \<and> map of_char (?txt bd) = concat (map printf_02x bd)"
    if "bd \<in> set bds" for bd
  proof -
    have "addr_ok bd" using assms that by (simp add: list_all_iff)
    then show ?thesis using addr_log_eq bytes len [of bd] by (simp add: addr_ok_def ESP_BD_ADDR_LEN_def)
  qed
  then have "list_all2 (\<lambda>bd txt. addr_log bd = Some txt \<and> length txt = 12 \<and>
      map of_char txt = concat (map printf_02x bd)) bds (map ?txt bds)"
    by (simp add: list_all2_conv_all_nth)
  moreover have "map2 (\<lambda>i bd. ''remote BD_ADDR'' @ dec_digits i @ '': '' @ ?txt bd) [0..<length bds] bds =
      map2 (\<lambda>i txt. ''remote BD_ADDR'' @ dec_digits i @ '': '' @ txt) [0..<length bds] (map ?txt bds)"
    by (simp add: zip_map2 case_prod_beta)
  ultimately show ?thesis
    using bonded_lines_eq [OF assms, of 0] by (intro exI [of _ "map ?txt bds"]) (simp add: show_all_bonded_devices_def)
qed

theorem addr_printers_agree_witness:
  "\<exists>txt. map of_char txt = concat (map printf_02x [0xAB, 0, 1, 2, 3, 0xFF]) \<and>
     show_all_bonded_devices [[0xAB, 0, 1, 2, 3, 0xFF]] =
       Some [''Check bond device number = 1'', ''remote BD_ADDR0: '' @ txt]"
  using addr_printers_agree [of "[[0xAB, 0, 1, 2, 3, 0xFF]]"]
  by (auto simp: addr_ok_def ESP_BD_ADDR_LEN_def list_all2_Cons1 dec_digits.simps digit_def)

text \<open>C39: The timer's messages are exact. The two halves of the counter print as the sixteen digits of the whole
  64-bit value, whatever it is; and at the base clock of the ESP32, 80 MHz, the time, a quotient of two
  \<^verbatim>\<open>double\<close> values printed with eight decimals, is the exact time of the counter for the first 2^47 ticks
  (325 days).\<close>

theorem counter_prints_exactly:
  "\<exists>time. print_timer_counter base_clk c = [''Counter: 0x'' @ printf_0x 16 (unat c), time] \<and>
    (base_clk = 80000000 \<and> unat c < 2 ^ 47 \<longrightarrow> time = ''Time   : '' @ fixed_8 (20 * unat c) @ '' s'')"
proof -
  have c: "unat c < 16 ^ (8 + 8)" using unsigned_less [of c] by simp
  have "unat c < 2 ^ 64" using unsigned_less [of c] by simp
  then have "unat c div 2 ^ 32 < 2 ^ 32" by simp
  then have "unat (ucast (drop_bit 32 c) :: u32) = unat c div 16 ^ 8" "unat (ucast c :: u32) = unat c mod 16 ^ 8"
    by (simp_all add: unat_div unsigned_ucast_eq unsigned_drop_bit_eq drop_bit_eq_div take_bit_eq_mod)
  then have digits: "printf_0x 8 (unat (ucast (drop_bit 32 c) :: u32)) @ printf_0x 8 (unat (ucast c :: u32)) = printf_0x 16 (unat c)"
    using printf_0x_join [OF c] by simp
  have "TIMER_SCALE 80000000 = 5000000" by (simp add: TIMER_SCALE_def TIMER_DIVIDER_def)
  then show ?thesis using digits dbl_div_exact_print [of "unat c"] by (auto simp: print_timer_counter_def)
qed

theorem counter_prints_exactly_witness:
  "print_timer_counter 80000000 300000000 = [''Counter: 0x'' @ printf_0x 16 300000000, ''Time   : '' @ fixed_8 6000000000 @ '' s'']"
  using counter_prints_exactly [of 80000000 300000000] by auto

end
