(* ===== verification/Spec2Isabelle.thy ===== *)
theory Spec2Isabelle
  imports System_Report System_End System_Network System_Time El_Interleaving Queue_Interleaving Console_Output
begin

text \<open>
  A verification development for the ESP32 firmware under \<^verbatim>\<open>src/main\<close>: a gateway that samples two ADC
  channels, sends the samples to an Azure IoT hub, and tests an emergency light on command.

  \<^bold>\<open>The program.\<close> \<^verbatim>\<open>app_main\<close> starts five tasks. The ADC task (\<^verbatim>\<open>adc.c\<close>) measures every five seconds and
  puts a sample into a ring buffer (\<^verbatim>\<open>data_buffer.c\<close>) when a value moved, the light's status changed,
  or ten rounds passed. The Azure task (\<^verbatim>\<open>wifi_azure.c\<close>) waits for the Wi-Fi (\<^verbatim>\<open>smartconfig.c\<close>) and
  runs the telemetry loop (\<^verbatim>\<open>iothub_client_sample_mqtt.c\<close>): it reads the head of the ring buffer, sends
  it as JSON with a time stamp (\<^verbatim>\<open>rtc_time.c\<close>), and removes a sample. Commands from the hub switch the
  light's test on and off (\<^verbatim>\<open>gpio_ctrl.c\<close>); a hardware timer (\<^verbatim>\<open>timer_group.c\<close>) ends the test after 60
  seconds: its interrupt queues an event, its event task then sets a flag, and the LED task, which runs the test manager every second,
  switches the light off. A Bluetooth client (\<^verbatim>\<open>ble.c\<close>, \<^verbatim>\<open>scan_list.c\<close>) is part of the code, but its
  start is commented out in \<^verbatim>\<open>app_main\<close>.

  \<^bold>\<open>The theories.\<close>
  \<^item> \<open>Prelude\<close>: machine integers, checked array access, ring slices, the newest elements of a list.
  \<^item> \<open>C_Double\<close>, \<open>C_Time\<close>: the parts of the C language and library the code needs: \<^verbatim>\<open>double\<close> products
    rounded to 53 bits and truncated to integers; the calendar, the time of Sydney, \<^verbatim>\<open>strftime\<close>, decimal
    output. \<open>Reader\<close>, \<open>Posix_Tz\<close>: readers of text; the notation of \<^verbatim>\<open>TZ\<close> and local time under its rules, by
    which the value the code sets means the time of Sydney.
  \<^item> \<open>Fifo_Interface\<close> and \<open>Data_Buffer\<close>: the contract of a bounded queue (locale \<open>bounded_fifo\<close>), and
    the ring buffer that implements it (interpretation \<open>ring\<close>). \<open>Queue_Interleaving\<close> takes the
    insertion and the removal apart into statements and interleaves them.
  \<^item> \<open>Addr_Cache_Interface\<close> and \<open>Scan_List\<close>: a cache of the newest keys (locale \<open>addr_cache\<close>), and the
    list of scanned addresses (interpretation \<open>scan\<close>), with the printer of addresses.
  \<^item> \<open>Adc\<close>: \<^verbatim>\<open>adc_task\<close> and the set-up of the converter.
  \<^item> \<open>Timer_Group\<close>: registers, interrupt handler, trigger and event task of the timer; the event task also step
    by step (\<open>evt_step\<close>), as the interrupt and the other tasks see it.
  \<^item> \<open>Lamp_Interface\<close> and \<open>Gpio_Ctrl\<close>: the contract of the emergency light (locale \<open>test_lamp\<close>), and the
    button, the manager and the LED task on top of the timer (interpretation \<open>light\<close>).
    \<open>El_Interleaving\<close> lets the statements of the button and of the manager interleave.
  \<^item> \<open>Rtc_Time\<close>: the wait for the clock and the time stamp.
  \<^item> \<open>Iothub\<close>: the callbacks and the telemetry loop. \<open>Json_Text\<close>, \<open>Telemetry_Text\<close>: a reader of JSON, and
    the messages as their receiver reads them.
  \<^item> \<open>Smartconfig\<close>: the Wi-Fi event handlers and the smartconfig task. \<open>Wifi_Interleaving\<close>: their
    interleavings as the step relation \<open>sc_step\<close> and as the function \<open>sc_exec\<close>. \<open>Wifi_Azure\<close>: the Azure
    task. \<open>App_Main\<close>: the start of the program.
  \<^item> \<open>Run_Interface\<close>: runs of a component's steps (locales \<open>total_system\<close>, \<open>staged_system\<close> and
    \<open>observed_system\<close>).
  \<^item> \<open>System_Run\<close>, \<open>System_Safety\<close>: the started program as one system
    (record \<open>system\<close>, step function \<open>sys_step\<close>): rounds of the ADC task, the LED
    task's check for the end of a test and its act on it, the steps of the Azure task, the timer's
    interrupt, the three steps of the event task, the Wi-Fi events and the smartconfig task in any order; its invariant (interpretation
    \<open>sys\<close>), the contract of a property that its actions keep (locale
    \<open>sys_property\<close>), and the accounts of the samples. \<open>System_Cloud\<close>: what reaches
    the cloud (interpretations \<open>sent\<close> and \<open>silent\<close>). \<open>System_End\<close>:
    the end of a connection, and of the task (interpretation \<open>deleted\<close>).
    \<open>System_Network\<close>: the telemetry before the network and after smartconfig (interpretations
    \<open>no_network\<close>, \<open>finished\<close>, \<open>waits\<close> and \<open>wakes\<close>).
    \<open>Light_Order\<close>: the contract of a preorder on the light that its operations respect (locale
    \<open>light_order\<close>), carried to every step of the system. \<open>System_Command\<close> and
    \<open>System_Light\<close>: the start and the end of the light's test in the system, and the
    commands that are lost to what is left of the test before (interpretations \<open>armed\<close>, \<open>running\<close>,
    \<open>test\<close>, \<open>tested\<close>, \<open>dark\<close>, \<open>other\<close>, \<open>eventless\<close> and \<open>ends\<close>).
    \<open>System_Time\<close>: the same steps with an alarm that comes only when the counter has reached
    it, and the length of a test (interpretations \<open>latch\<close>, \<open>frozen\<close> and
    \<open>begun\<close>). \<open>System_Report\<close>: what the reports say of the light (interpretations
    \<open>current\<close>, \<open>going\<close> and \<open>shown\<close>).
  \<^item> \<open>Ble_Data\<close>, \<open>Ble_Gattc\<close>, \<open>Ble_Gap\<close>: profiles and notifications, the GATT client's handlers, and
    scanning, security events and initialisation (interpretation \<open>ble\<close>).
  \<^item> \<open>C_Printf\<close>, \<open>Console_Output\<close>: what of \<^verbatim>\<open>printf\<close> the log output uses, and the functions that print.

  \<^bold>\<open>Correspondence.\<close> The static variables of a file are the fields of a record with the source's names
  (\<open>queue_state\<close>, \<open>el_state\<close>, \<open>tg_state\<close>, \<open>iot_state\<close>, \<open>wifi_state\<close>, \<open>ble_state\<close>); a struct is a record, and
  a function is a definition of the same name that takes and returns the state. Unsigned integers
  of 8 to 64 bits are words of that width, which wrap as in C; an \<^verbatim>\<open>int\<close> whose values stay small is an
  \<open>int\<close>. Plain \<^verbatim>\<open>char\<close> is unsigned on the Xtensa target. A pointer into an array is an index. An
  access outside an array is the value \<open>None\<close> of the whole operation: that the operations of a
  component are total is the theorem that they never leave their arrays. A body of an endless task
  loop is one function, run over a list of inputs of its rounds.

  \<^bold>\<open>The environment.\<close> What the ESP-IDF, FreeRTOS, the Azure SDK and the hardware do is an argument: ADC
  readings and calibration, the clock, results of calls, the order of events. Calls into them that
  change something outside are recorded in logs (\<open>wifi_log\<close>, \<open>ble_log\<close>, \<open>hub_log\<close>, \<open>adc_log\<close>). Of the
  Azure library the model uses that it confirms, inside its \<^verbatim>\<open>DoWork\<close> or \<^verbatim>\<open>Destroy\<close> calls, only messages it
  accepted, each once and in order; of FreeRTOS that the setting of a bit wakes the tasks blocked on it
  for good, whatever happens to the bit before they run; of the timer hardware that the \<^verbatim>\<open>update\<close> register latches the
  counter, that an alarm disarms itself, and that a stopped counter stands still. The base clock
  is an argument; the theorems on the test's duration put in the 80 MHz of the ESP32.

  \<^bold>\<open>Bounds.\<close> Every function is total. The loops have measures; a run is bounded by its list of inputs,
  never by fuel, and the theorems hold for every list. The theorems on the text of time stamp and message hold
  for clock values below \<open>2 ^ 31\<close>, the range of the 32-bit \<^verbatim>\<open>time_t\<close>; the one on the printed time of the
  timer for counters below \<open>2 ^ 47\<close>, 325 days.

  \<^bold>\<open>What the theorems show.\<close> Refinement of the two contracts of the queue and of the light from the start
  of the program; for the whole program, in any order of its steps, that it never leaves an array, and
  that the cloud gets the reported samples in order, none twice, and all but as many as overran the
  queue; that its messages are JSON that reads back as the samples; that every report arrives while
  messages are taken and confirmed, and nothing does after one failed hand-over or before the network is
  there; that a test of the light begins on command and, if nothing of the one before is left, is not cut short, is read
  in the cloud, and lasts a minute by the timer; that it ends;
  totality and invariants of every handler; the exact conditions of a report, of a reconnection, of a
  connection to a Bluetooth device; and the defects listed in the manifest, among them: one failed hand-over
  silences the program for good, an insertion during a hand-over can lose a sample, a command that falls
  into the manager's round between two tests is lost, one that comes before the event task has handled the
  alarm of the test before starts a test that ends at once, a second command does not extend a test, and the time stamps claim to be UTC.

  \<^bold>\<open>Not modelled.\<close> Messages with a constant text; the connection string and certificates; the table of
  time zones in a comment of \<^verbatim>\<open>rtc_time.c\<close>; the generated configuration under \<^verbatim>\<open>build\<close>. Two tasks accessing
  one variable at the same time are modelled at the granularity of statements for the light, the queue
  and the Wi-Fi bits; in the whole system a step is a round of a task, and only the hand-over of a
  message, the round of the LED task, between its check and its act, and that of the event task, after its
  receiving of an event and before its setting of the flag, are taken apart. In the telemetry loop on its own
  whole operations of the other tasks also fall between the hand-over and \<^verbatim>\<open>DoWork\<close> and between two rounds
  (\<open>in_sleep\<close>, \<open>in_pause\<close>). The Bluetooth client is
  not part of the system, as the program does not start it. A second start event of the Wi-Fi while the smartconfig task lives is left out.
\<close>

section \<open>Properties across components\<close>

text \<open>C13: A test that begins reaches the cloud. Let the telemetry loop of any state the program reaches receive
  \<^verbatim>\<open>TEST ON\<close> as its last event, while no event of an earlier alarm is left to be handled and the LED task is
  not just about to end the test before. Let the tasks then go on in any order without the timer's interrupt
  and without \<^verbatim>\<open>TEST OFF\<close>, the ADC task at least once, to a state in which the loop still runs and its window is
  open (no earlier hand-over failed or is unconfirmed). From there let them go on in any order, now also with
  interrupts, while the library takes and confirms messages and the connection holds, for as many rounds of
  the loop as samples are queued. Then, if no insertion has hit a full queue since the start, the clock stayed
  below \<open>2 ^ 31\<close> and the program still runs, at least as many messages were sent as there were reports after the
  first part, and the receiver reads from the message of the last of these the status 1.\<close>

theorem started_test_reaches_cloud:
  assumes "app_main b reset_state = Inr g" "sys_run cal cal1 clk as (sys_start junk g) = Some s"
    and "azure_runs s" "azure s = Az_Loop" "in_events inp = es @ [Receive (Some ''TEST ON'')]" "has_task Adc_Task s"
    and "list_all patient bs" "Adc_Round adc \<in> set bs" "sys_run cal cal1 clk (Azure_Round inp adcs # bs) s = Some s1"
    and "azure s1 = Az_Loop" "hub_open (sys_hub s1)" "list_all steady cs"
    and "length (queue_items (sys_queue s1)) \<le> length (filter is_round cs)"
    and "sys_run cal cal1 clk cs s1 = Some s2" "azure_runs s2" "lost s2 = 0"
    and "list_all clock_ok (as @ Azure_Round inp adcs # bs @ cs)" "\<not> led_due s" "evt_pending (tg (sys_light s)) = []"
  shows "0 < length (reported s1) \<and> length (reported s1) \<le> length (sent_msgs (sys_hub s2)) \<and>
    (\<exists>bright vdd. cloud_reads (sent_msgs (sys_hub s2) ! (length (reported s1) - 1)) = Some (bright, vdd, 1))"
proof -
  have shown: "test_going s1" "restarted s1 \<or> test_shown s1"
    using test_on_shown [OF assms(1-8,18,19), of adcs] assms(9) by auto
  have "azure_runs s1" by (rule run_runs [OF assms(14,15)])
  then have last: "reported s1 \<noteq> []" "status (last (reported s1)) = 1"
    using shown(2) by (auto simp: azure_runs_def test_shown_def)
  have "sys_open s1" using shown(1) assms(10,11) by (simp add: test_going_def test_runs_def sys_open_def)
  from rounds_deliver [OF this assms(12-16)] obtain ss times where
    ss: "length times = length ss" "sent_msgs (sys_hub s2) = map2 sprintf_msg times ss" "prefix (reported s1) ss" by blast
  have "sys_run cal cal1 clk (as @ Azure_Round inp adcs # bs @ cs) (sys_start junk g) = Some s2"
    using assms(2,9,14) by (simp add: run_steps_append flip: append_Cons del: run_steps.simps)
  from sent_short [OF assms(1) this assms(17)]
  have "map cloud_reads (sent_msgs (sys_hub s2)) = map (Some \<circ> reading) ss"
    unfolding ss(2) by (intro reads_map2 ss(1)) (simp add: ss(2))
  then have read: "length (sent_msgs (sys_hub s2)) = length ss"
    "i < length ss \<Longrightarrow> cloud_reads (sent_msgs (sys_hub s2) ! i) = Some (reading (ss ! i))" for i
    by (metis length_map, metis comp_apply length_map nth_map)
  let ?i = "length (reported s1) - 1"
  have i: "?i < length (reported s1)" "length (reported s1) \<le> length ss"
    using last(1) prefix_length_le [OF ss(3)] by simp_all
  then have "ss ! ?i = last (reported s1)" using ss(3) last(1) by (auto simp: prefix_def nth_append last_conv_nth)
  moreover have "?i < length ss" using i by linarith
  ultimately show ?thesis using read(1) read(2) [of ?i] i(2) last by (auto simp: reading_def)
qed

definition ack_then_test :: hub_input where
  "ack_then_test = \<lparr>in_now = 0, in_inserts = [], in_sleep = [], in_pause = [], in_create = Some 1, in_send_ok = True,
     in_events = [Ack] @ [Receive (Some ''TEST ON'')], in_conn_lost = False\<rparr>"

theorem started_test_reaches_cloud_witness:
  "\<exists>g s s1 s2 bright vdd. app_main boot_example reset_state = Inr g \<and>
     sys_run (\<lambda>x. x) (\<lambda>x. x) 80000000 to_loop (sys_start zero_sample g) = Some s \<and>
     sys_run (\<lambda>x. x) (\<lambda>x. x) 80000000 [Azure_Round ack_then_test [], Adc_Round adc_example] s = Some s1 \<and>
     sys_run (\<lambda>x. x) (\<lambda>x. x) 80000000 [ack_round] s1 = Some s2 \<and>
     cloud_reads (sent_msgs (sys_hub s2) ! (length (reported s1) - 1)) = Some (bright, vdd, 1)"
proof -
  obtain g where g: "app_main boot_example reset_state = Inr g" "s_wifi_event_group (wifi g) = 0"
    "tasks g = [Led_Ctrl_Task, Azure_Task, Adc_Task, Rtc_Time_Task, Timer_Evt_Task]"
    using boot_example_ok by blast
  obtain s where s: "sys_run (\<lambda>x. x) (\<lambda>x. x) 80000000 to_loop (sys_start zero_sample g) = Some s" "smooth s"
    "length (queue_items (sys_queue s)) = 1"
    using to_loop_ok [OF g] by blast
  have due: "\<not> led_due s" using other_run_due [OF _ s(1)] by (simp add: to_loop_def sys_start_def)
  have "list_all (light_ok (\<lambda>_. True) (\<lambda>a. a \<noteq> Evt_Step \<and> a \<noteq> Timer_Alarm)) to_loop"
    by (simp add: to_loop_def conn_ok_def conn_example_def)
  then have "same_events (sys_light (sys_start zero_sample g)) (sys_light s)"
    using eventless.sys_run_rel [OF sys_start_inv [OF g(1)], of to_loop "\<lambda>x. x" "\<lambda>x. x" 80000000 zero_sample] s(1) by auto
  then have idle: "evt_pending (tg (sys_light s)) = []"
    using pending_same sys_start_armed(2) [OF g(1)] by simp
  have task: "has_task Adc_Task s" using sys_run_tasks [OF s(1)] g(3) by (simp add: has_task_def sys_start_def)
  have "taken_round ack_then_test" by (simp add: taken_round_def hub_accepts_def ack_then_test_def)
  from smooth_round [OF s(2) this] obtain t where
    t: "sys_step (\<lambda>x. x) (\<lambda>x. x) 80000000 (Azure_Round ack_then_test []) s = Some t" "smooth t"
    "length (queue_items (sys_queue t)) = 0" using s(3) by fastforce
  have "has_task Adc_Task t"
    using sys_run_tasks [of _ _ _ "[Azure_Round ack_then_test []]" s t] t(1) task unfolding run_steps_single by (simp add: has_task_def)
  from smooth_adc [OF t(2) this] obtain s1 where
    1: "sys_step (\<lambda>x. x) (\<lambda>x. x) 80000000 (Adc_Round adc_example) t = Some s1" "smooth s1"
    "length (queue_items (sys_queue s1)) \<le> 1" using t(3) by fastforce
  have taken: "taken_round \<lparr>in_now = 0, in_inserts = [], in_sleep = [], in_pause = [], in_create = Some 1, in_send_ok = True, in_events = [Ack],
     in_conn_lost = False\<rparr>" by (simp add: taken_round_def hub_accepts_def)
  obtain s2 where 2: "sys_run (\<lambda>x. x) (\<lambda>x. x) 80000000 [ack_round] s1 = Some s2" "smooth s2"
    using smooth_round [OF 1(2) taken] unfolding run_steps_single ack_round_def by blast
  have run: "sys_run (\<lambda>x. x) (\<lambda>x. x) 80000000 [Azure_Round ack_then_test [], Adc_Round adc_example] s = Some s1"
    using t(1) 1(1) by simp
  have events: "in_events ack_then_test = [Ack] @ [Receive (Some ''TEST ON'')]" by (simp add: ack_then_test_def)
  have "list_all steady [ack_round]" "length (queue_items (sys_queue s1)) \<le> length (filter is_round [ack_round])"
    using 1(3) taken by (simp_all add: ack_round_def)
  moreover have "list_all clock_ok (to_loop @ Azure_Round ack_then_test [] # [Adc_Round adc_example] @ [ack_round])"
    by (simp add: to_loop_def ack_then_test_def ack_round_def)
  ultimately have "\<exists>bright vdd. cloud_reads (sent_msgs (sys_hub s2) ! (length (reported s1) - 1)) = Some (bright, vdd, 1)"
    using started_test_reaches_cloud [OF g(1) s(1) _ _ events task _ _ run _ _ _ _ 2(1) _ _ _ due idle] s(2) 1(2) 2(2)
    by (simp add: smooth_def sys_open_def del: length_queue_items)
  then show ?thesis using g(1) s(1) run 2(1) by blast
qed

text \<open>A test that starts is reported to the cloud: after the command \<^verbatim>\<open>TEST ON\<close> the next round of the
  ADC task, whatever it measures, puts a sample with status 1 at the end of the queue, and the
  message sent for that sample ends with that status.\<close>

theorem test_on_reaches_cloud:
  assumes "hub_inv s" "status (tmp_data_queue st) \<noteq> 1" "now < 2 ^ 31"
  shows "\<exists>s' d st' q pre. ReceiveMessageCallback base_clk (Some ''TEST ON'') s = Some s' \<and>
    adc_iteration cal cal1 (inp\<lparr>status_el := app_emergency_light_read_status (light_state s')\<rparr>) st (samples s') =
      Some ([d], st', q) \<and>
    last (queue_items q) = d \<and> status d = 1 \<and> sprintf_msg now d = pre @ '',\"status\": 1}''"
proof -
  obtain s' where s': "ReceiveMessageCallback base_clk (Some ''TEST ON'') s = Some s'" "hub_inv s'"
    using receive_ok [OF assms(1)] by blast
  have q: "queue_inv (samples s')" and el: "el_inv (light_state s')" using s'(2) by (simp_all add: hub_inv_def)
  have "el_lit (light_state s')"
    using s'(1) button_on_ok [of "light_state s" base_clk] assms(1)
    by (auto simp: ReceiveMessageCallback_def memcmp_eq_def hub_inv_def Let_def)
  then have one: "app_emergency_light_read_status (light_state s') = 1"
    using el_lit_status [OF el] by (simp add: app_emergency_light_read_status_def)
  obtain m1 m2 where m: "adc_measure cal cal1 (inp\<lparr>status_el := 1\<rparr>) = (m1, m2)" by force
  let ?d = "(tmp_data_queue st)\<lparr>mv1 := m1, mv2 := m2, status := 1\<rparr>"
  have "adc_changed st m1 m2 1"
    using assms(2) by (simp add: adc_changed_def Let_def word_uint_eq_iff)
  moreover obtain q' where q': "queue_buffer_insert ?d True (samples s') = Some q'"
    "queue_items q' = fifo_insert 5 ?d True (queue_items (samples s'))"
    using ring.ins_items [OF q] by blast
  ultimately have it: "adc_iteration cal cal1 (inp\<lparr>status_el := app_emergency_light_read_status (light_state s')\<rparr>)
      st (samples s') = Some ([?d], \<lparr>tmp_data_queue = ?d, cnt = 0 + 1\<rparr>, q')"
    unfolding one by (simp add: adc_iteration_def m Let_def)
  have "last (queue_items q') = ?d" using q'(2) by (simp add: fifo_insert_def)
  moreover have "dec_digits 1 = ''1''" by (simp add: dec_digits.simps digit_def)
  then have "\<exists>pre. sprintf_msg now ?d = pre @ '',\"status\": 1}''"
    using fits_buffer [OF assms(3), of ?d] by (auto simp: msg_json_def)
  ultimately show ?thesis using s'(1) it by fastforce
qed

theorem test_on_reaches_cloud_witness:
  "\<exists>s' d st' q. ReceiveMessageCallback 80000000 (Some ''TEST ON'') hub_example = Some s' \<and>
     adc_iteration (\<lambda>x. x) (\<lambda>x. x) (\<lparr>adc1_raw_0 = \<lambda>_. 100, adc1_raw_1 = \<lambda>_. 400, adc2_raw = \<lambda>_. 0, status_el = 0\<rparr>
       \<lparr>status_el := app_emergency_light_read_status (light_state s')\<rparr>) (adc_start zero_sample) (samples s') =
       Some ([d], st', q) \<and> status d = 1"
  using test_on_reaches_cloud [OF hub_example_ok(1), of "adc_start zero_sample" 0 80000000 "\<lambda>x. x" "\<lambda>x. x"
      "\<lparr>adc1_raw_0 = \<lambda>_. 100, adc1_raw_1 = \<lambda>_. 400, adc2_raw = \<lambda>_. 0, status_el = 0\<rparr>"]
  by (fastforce simp: adc_start_def zero_sample_def)

end
